(* ===== verification/Prelude.thy ===== *)
theory Prelude
  imports Main "HOL-Library.Word" "HOL-Library.Monad_Syntax"
begin

text \<open>
  Shared vocabulary of the development: Go's byte and integer types, byte strings,
  checked indexing and slicing, and the big-endian integer encodings of
  \<^verbatim>\<open>encoding/binary\<close>.

  A Go computation that may stop with a run-time panic (index out of range, slice bounds
  out of range, an explicit \<^verbatim>\<open>panic\<close>) is modelled by a value of an option type:
  \<open>None\<close> is the panic, \<open>Some x\<close> a normal return of \<open>x\<close>.  Statements in sequence are
  composed with the option monad, so a panic anywhere is a panic of the whole call.
\<close>

unbundle bit_operations_syntax

section \<open>Types\<close>

type_synonym byte = "8 word"
type_synonym u16 = "16 word"
type_synonym u32 = "32 word"
type_synonym u64 = "64 word"
type_synonym bytes = "byte list"

lemma unat_byte [simp]: "unat (b :: byte) < 256"
  by (rule order_less_le_trans [OF unsigned_less]) simp

lemma unat_u32 [simp]: "unat (w :: u32) < 2 ^ 32"
  by (rule order_less_le_trans [OF unsigned_less]) simp

lemma unat_ucast_byte [simp]: "unat (ucast (b :: byte) :: u32) = unat b"
  by (simp add: unsigned_ucast_eq take_bit_nat_eq_self order_less_trans [OF unat_byte])

text \<open>A fact of every byte is a fact of 256 of them, which the simplifier checks.\<close>

lemma all_bytes: "(b :: byte) \<in> set (map of_nat [0..<256])"
proof -
  have "b = of_nat (unat b)" by simp
  moreover have "unat b \<in> set [0..<256]" using unat_byte [of b] by simp
  ultimately show ?thesis by (metis imageI list.set_map)
qed

named_theorems byte_defs \<open>character classes of the scanners\<close>
named_theorems returns \<open>facts that an operation returns (does not panic)\<close>

text \<open>A Go string literal as its bytes, and a character literal as its byte.\<close>

definition str :: "string \<Rightarrow> bytes" where
  "str s = map of_char s"

lemma length_str [simp]: "length (str s) = length s"
  by (simp add: str_def)

lemma str_Nil [simp]: "str [] = []"
  by (simp add: str_def)

lemma str_append: "str (s @ t) = str s @ str t"
  by (simp add: str_def)

section \<open>Checked indexing, slicing and copying\<close>

text \<open>\<open>idx xs i\<close> is Go's \<^verbatim>\<open>xs[i]\<close>, \<open>upd xs i v\<close> is \<^verbatim>\<open>xs[i] = v\<close>.\<close>

definition idx :: "'a list \<Rightarrow> nat \<Rightarrow> 'a option" where
  "idx xs i = (if i < length xs then Some (xs ! i) else None)"

definition upd :: "'a list \<Rightarrow> nat \<Rightarrow> 'a \<Rightarrow> 'a list option" where
  "upd xs i v = (if i < length xs then Some (xs[i := v]) else None)"

text \<open>
  \<open>slice xs a b\<close> is \<^verbatim>\<open>xs[a:b]\<close> on an array or on a slice whose capacity is its length:
  it panics unless \<open>0 \<le> a \<le> b \<le> len\<close>.  The bounds are Go ints, so they can be negative.
\<close>

definition slice :: "'a list \<Rightarrow> int \<Rightarrow> int \<Rightarrow> 'a list option" where
  "slice xs a b =
     (if 0 \<le> a \<and> a \<le> b \<and> b \<le> int (length xs)
      then Some (take (nat (b - a)) (drop (nat a) xs)) else None)"

text \<open>The same for bounds that are known not to be negative.\<close>

definition nslice :: "'a list \<Rightarrow> nat \<Rightarrow> nat \<Rightarrow> 'a list option" where
  "nslice xs a b =
     (if a \<le> b \<and> b \<le> length xs then Some (take (b - a) (drop a xs)) else None)"

text \<open>
  \<open>copy_at xs a src\<close> is the effect on \<open>xs\<close> of \<^verbatim>\<open>copy(xs[a:], src)\<close>: as many bytes as fit.
  The source has been read before, so overlapping ranges behave as Go's \<^verbatim>\<open>copy\<close> does.
\<close>

definition copy_at :: "'a list \<Rightarrow> nat \<Rightarrow> 'a list \<Rightarrow> 'a list" where
  "copy_at xs a src = take a xs @ take (length xs - a) src @ drop (a + length src) xs"

lemma length_copy_at [simp]: "a \<le> length xs \<Longrightarrow> length (copy_at xs a src) = length xs"
  by (simp add: copy_at_def)

lemma idx_Some [simp]: "i < length xs \<Longrightarrow> idx xs i = Some (xs ! i)"
  by (simp add: idx_def)

lemma idx_None [simp]: "length xs \<le> i \<Longrightarrow> idx xs i = None"
  by (simp add: idx_def)

lemma idx_eq_Some: "idx xs i = Some v \<longleftrightarrow> i < length xs \<and> v = xs ! i"
  by (auto simp: idx_def)

lemma upd_Some [simp]: "i < length xs \<Longrightarrow> upd xs i v = Some (xs[i := v])"
  by (simp add: upd_def)

lemma upd_eq_Some: "upd xs i v = Some ys \<longleftrightarrow> i < length xs \<and> ys = xs[i := v]"
  by (auto simp: upd_def)

lemma slice_Some [simp]:
  "0 \<le> a \<Longrightarrow> a \<le> b \<Longrightarrow> b \<le> int (length xs) \<Longrightarrow>
     slice xs a b = Some (take (nat (b - a)) (drop (nat a) xs))"
  by (simp add: slice_def)

lemma slice_eq_Some:
  "slice xs a b = Some ys \<longleftrightarrow>
     0 \<le> a \<and> a \<le> b \<and> b \<le> int (length xs) \<and> ys = take (nat (b - a)) (drop (nat a) xs)"
  by (auto simp: slice_def)

lemma nslice_Some [simp]:
  "a \<le> b \<Longrightarrow> b \<le> length xs \<Longrightarrow> nslice xs a b = Some (take (b - a) (drop a xs))"
  by (simp add: nslice_def)

lemma slice_inverted: "b < a \<Longrightarrow> slice xs a b = None"
  by (simp add: slice_def)

lemma length_slice: "slice xs a b = Some ys \<Longrightarrow> int (length ys) = b - a"
  by (auto simp: slice_eq_Some)

lemma bind_Some_iff: "Option.bind m f = Some y \<longleftrightarrow> (\<exists>x. m = Some x \<and> f x = Some y)"
  by (cases m) auto

section \<open>Loops over the bytes of a slice\<close>

text \<open>\<open>fold_opt f xs s\<close> is \<^verbatim>\<open>for _, x := range xs { s = f(x, s) }\<close> with a body that may panic.\<close>

fun fold_opt :: "('a \<Rightarrow> 's \<Rightarrow> 's option) \<Rightarrow> 'a list \<Rightarrow> 's \<Rightarrow> 's option" where
  "fold_opt f [] s = Some s"
| "fold_opt f (x # xs) s = Option.bind (f x s) (fold_opt f xs)"

lemma fold_opt_append:
  "fold_opt f (xs @ ys) s = Option.bind (fold_opt f xs s) (fold_opt f ys)"
  by (induction xs arbitrary: s) (auto split: Option.bind_splits)

lemma fold_opt_concat:
  "fold_opt (fold_opt f) xss s = fold_opt f (concat xss) s"
  by (induction xss arbitrary: s) (auto simp: fold_opt_append split: Option.bind_splits)

lemma fold_opt_inv:
  assumes "I s" and "\<And>x s. x \<in> set xs \<Longrightarrow> I s \<Longrightarrow> \<exists>s'. f x s = Some s' \<and> I s'"
  shows "\<exists>s'. fold_opt f xs s = Some s' \<and> I s'"
  using assms
proof (induction xs arbitrary: s)
  case (Cons x xs)
  from Cons.prems obtain s1 where "f x s = Some s1" "I s1" by auto
  with Cons.IH [of s1] Cons.prems(2) show ?case by auto
qed simp

section \<open>Big-endian integers\<close>

text \<open>\<^verbatim>\<open>binary.BigEndian.PutUint16\<close>, \<^verbatim>\<open>PutUint32\<close> and their readers, on exact-length byte lists.\<close>

definition put_be16 :: "u16 \<Rightarrow> bytes" where
  "put_be16 w = [ucast (drop_bit 8 w), ucast w]"

definition put_be32 :: "u32 \<Rightarrow> bytes" where
  "put_be32 w = [ucast (drop_bit 24 w), ucast (drop_bit 16 w), ucast (drop_bit 8 w), ucast w]"

fun get_be16 :: "bytes \<Rightarrow> u16" where
  "get_be16 (a # b # _) = push_bit 8 (ucast a) OR ucast b"
| "get_be16 _ = 0"

fun get_be32 :: "bytes \<Rightarrow> u32" where
  "get_be32 (a # b # c # d # _) =
     push_bit 24 (ucast a) OR push_bit 16 (ucast b) OR push_bit 8 (ucast c) OR ucast d"
| "get_be32 _ = 0"

lemma length_put_be [simp]: "length (put_be16 w) = 2" "length (put_be32 v) = 4"
  by (simp_all add: put_be16_def put_be32_def)

lemma get_put_be16 [simp]: "get_be16 (put_be16 w @ r) = w"
  by (rule bit_eqI)
    (auto simp: put_be16_def bit_simps)

lemma get_put_be32 [simp]: "get_be32 (put_be32 w @ r) = w"
  by (rule bit_eqI, rename_tac n, case_tac "n < 16") (auto simp: put_be32_def bit_simps)

lemma put_get_be32:
  assumes "length bs = 4" shows "put_be32 (get_be32 bs) = bs"
proof -
  from assms obtain a b c d where bs: "bs = [a, b, c, d]"
    by (auto simp: length_Suc_conv numeral_eq_Suc)
  show ?thesis
    unfolding bs put_be32_def get_be32.simps list.inject
    by (intro conjI refl; rule bit_eqI) (auto simp: bit_simps dest: bit_imp_le_length)
qed

end
