(* ===== verification/Md5.thy ===== *)
theory Md5
  imports Prelude
begin

text \<open>
  The part of Go's \<^verbatim>\<open>crypto/md5\<close> and \<^verbatim>\<open>hash.Hash\<close> that the program uses: a streaming digest
  with \<^verbatim>\<open>New\<close>, \<^verbatim>\<open>Write\<close> and \<^verbatim>\<open>Sum\<close>, for the algorithm of RFC 1321.  The interface the
  checksummers rely on is the locale \<open>stream_hash\<close>: a digest depends only on the
  concatenation of what was written.  It is interpreted on the MD5 model at the end, so
  every checksum theorem speaks about this MD5 and not about an unknown hash function.
\<close>

section \<open>The interface of a streaming hash\<close>

locale stream_hash =
  fixes new :: 'h
    and feed :: "'h \<Rightarrow> bytes \<Rightarrow> 'h"
    and final :: "'h \<Rightarrow> bytes"
    and digest :: "bytes \<Rightarrow> bytes"
  assumes feed_nil: "feed new [] = new"
    and feed_feed: "feed (feed new a) b = feed new (a @ b)"
    and final_digest: "final (feed new a) = digest a"
begin

lemma final_new: "final new = digest []"
  using final_digest [of "[]"] by (simp add: feed_nil)

lemma feeds_concat: "foldl feed (feed new a) chunks = feed new (a @ concat chunks)"
  by (induction chunks arbitrary: a) (simp_all add: feed_feed)

lemma chunking_irrelevant:
  "concat as = concat bs \<Longrightarrow> final (foldl feed new as) = final (foldl feed new bs)"
  using feeds_concat [of "[]"] by (simp add: feed_nil)

end

section \<open>The compression function of RFC 1321\<close>

type_synonym quad = "u32 \<times> u32 \<times> u32 \<times> u32"

definition md5_K :: "u32 list" where
  "md5_K =
    [0xd76aa478, 0xe8c7b756, 0x242070db, 0xc1bdceee, 0xf57c0faf, 0x4787c62a, 0xa8304613, 0xfd469501,
     0x698098d8, 0x8b44f7af, 0xffff5bb1, 0x895cd7be, 0x6b901122, 0xfd987193, 0xa679438e, 0x49b40821,
     0xf61e2562, 0xc040b340, 0x265e5a51, 0xe9b6c7aa, 0xd62f105d, 0x02441453, 0xd8a1e681, 0xe7d3fbc8,
     0x21e1cde6, 0xc33707d6, 0xf4d50d87, 0x455a14ed, 0xa9e3e905, 0xfcefa3f8, 0x676f02d9, 0x8d2a4c8a,
     0xfffa3942, 0x8771f681, 0x6d9d6122, 0xfde5380c, 0xa4beea44, 0x4bdecfa9, 0xf6bb4b60, 0xbebfbc70,
     0x289b7ec6, 0xeaa127fa, 0xd4ef3085, 0x04881d05, 0xd9d4d039, 0xe6db99e5, 0x1fa27cf8, 0xc4ac5665,
     0xf4292244, 0x432aff97, 0xab9423a7, 0xfc93a039, 0x655b59c3, 0x8f0ccc92, 0xffeff47d, 0x85845dd1,
     0x6fa87e4f, 0xfe2ce6e0, 0xa3014314, 0x4e0811a1, 0xf7537e82, 0xbd3af235, 0x2ad7d2bb, 0xeb86d391]"

definition md5_S :: "nat list" where
  "md5_S = concat (replicate 4 [7, 12, 17, 22]) @ concat (replicate 4 [5, 9, 14, 20])
         @ concat (replicate 4 [4, 11, 16, 23]) @ concat (replicate 4 [6, 10, 15, 21])"

definition md5_f :: "nat \<Rightarrow> u32 \<Rightarrow> u32 \<Rightarrow> u32 \<Rightarrow> u32" where
  "md5_f i b c d =
     (if i < 16 then (b AND c) OR (NOT b AND d)
      else if i < 32 then (d AND b) OR (NOT d AND c)
      else if i < 48 then b XOR c XOR d
      else c XOR (b OR NOT d))"

definition md5_g :: "nat \<Rightarrow> nat" where
  "md5_g i =
     (if i < 16 then i
      else if i < 32 then (5 * i + 1) mod 16
      else if i < 48 then (3 * i + 5) mod 16
      else (7 * i) mod 16)"

fun md5_step :: "u32 list \<Rightarrow> nat \<Rightarrow> quad \<Rightarrow> quad" where
  "md5_step m i (a, b, c, d) =
     (d, b + word_rotl (md5_S ! i) (a + md5_f i b c d + md5_K ! i + m ! md5_g i), b, c)"

fun quad_add :: "quad \<Rightarrow> quad \<Rightarrow> quad" where
  "quad_add (a, b, c, d) (a', b', c', d') = (a + a', b + b', c + c', d + d')"

definition put_le32 :: "u32 \<Rightarrow> bytes" where
  "put_le32 w = rev (put_be32 w)"

definition put_le64 :: "u64 \<Rightarrow> bytes" where
  "put_le64 w = put_le32 (ucast w) @ put_le32 (ucast (drop_bit 32 w))"

fun words_le :: "bytes \<Rightarrow> u32 list" where
  "words_le (a # b # c # d # r) = get_be32 [d, c, b, a] # words_le r"
| "words_le _ = []"

definition md5_block :: "quad \<Rightarrow> bytes \<Rightarrow> quad" where
  "md5_block q p = quad_add q (fold (md5_step (words_le p)) [0..<64] q)"

section \<open>The streaming digest\<close>

text \<open>\<open>md5_blocks q p\<close> consumes the whole 64-byte blocks of \<open>p\<close> and returns the rest.\<close>

function md5_blocks :: "quad \<Rightarrow> bytes \<Rightarrow> quad \<times> bytes" where
  "md5_blocks q p =
     (if length p < 64 then (q, p) else md5_blocks (md5_block q (take 64 p)) (drop 64 p))"
  by pat_completeness auto
termination
  by (relation "measure (\<lambda>(q, p). length p)") auto

declare md5_blocks.simps [simp del]

record md5 =
  md5_s :: quad
  md5_x :: bytes
  md5_len :: u64

definition md5_new :: md5 where
  "md5_new = \<lparr>md5_s = (0x67452301, 0xefcdab89, 0x98badcfe, 0x10325476), md5_x = [], md5_len = 0\<rparr>"

definition md5_write :: "md5 \<Rightarrow> bytes \<Rightarrow> md5" where
  "md5_write d p =
     (let (s, x) = md5_blocks (md5_s d) (md5_x d @ p)
      in \<lparr>md5_s = s, md5_x = x, md5_len = md5_len d + of_nat (length p)\<rparr>)"

definition md5_pad :: "u64 \<Rightarrow> bytes" where
  "md5_pad n = 0x80 # replicate (unat ((55 - n) mod 64)) 0 @ put_le64 (push_bit 3 n)"

fun quad_bytes :: "quad \<Rightarrow> bytes" where
  "quad_bytes (a, b, c, d) = put_le32 a @ put_le32 b @ put_le32 c @ put_le32 d"

definition md5_sum :: "md5 \<Rightarrow> bytes" where
  "md5_sum d = quad_bytes (md5_s (md5_write d (md5_pad (md5_len d))))"

section \<open>The one-shot digest, and the stream law\<close>

definition md5_digest :: "bytes \<Rightarrow> bytes" where
  "md5_digest m =
     quad_bytes (fst (md5_blocks (md5_s md5_new) (m @ md5_pad (of_nat (length m)))))"

lemma md5_blocks_append:
  "md5_blocks q (xs @ ys) = (case md5_blocks q xs of (q', r) \<Rightarrow> md5_blocks q' (r @ ys))"
proof (induction q xs rule: md5_blocks.induct)
  case (1 q xs)
  show ?case
  proof (cases "length xs < 64")
    case True
    then show ?thesis by (simp add: md5_blocks.simps [of q xs])
  next
    case False
    then have "md5_blocks q (xs @ ys) = md5_blocks (md5_block q (take 64 xs)) (drop 64 xs @ ys)"
      by (simp add: md5_blocks.simps [of q "xs @ ys"])
    with 1 False show ?thesis by (simp add: md5_blocks.simps [of q xs])
  qed
qed

lemma md5_write_write: "md5_write (md5_write d a) b = md5_write d (a @ b)"
  using md5_blocks_append [of "md5_s d" "md5_x d @ a" b]
  by (simp add: md5_write_def split: prod.split)

lemma length_quad_bytes: "length (quad_bytes q) = 16"
  by (cases q) (simp add: put_le32_def)

lemma length_md5_sum [simp]: "length (md5_sum d) = 16"
  by (simp add: md5_sum_def length_quad_bytes)

lemma length_md5_digest [simp]: "length (md5_digest m) = 16"
  by (simp add: md5_digest_def length_quad_bytes)

lemma md5_write_sel:
  "md5_s (md5_write d p) = fst (md5_blocks (md5_s d) (md5_x d @ p))"
  "md5_len (md5_write d p) = md5_len d + of_nat (length p)"
  by (simp_all add: md5_write_def split: prod.split)

lemma md5_sum_digest: "md5_sum (md5_write md5_new m) = md5_digest m"
proof -
  have "md5_sum (md5_write md5_new m)
      = quad_bytes (md5_s (md5_write md5_new (m @ md5_pad (of_nat (length m)))))"
    by (simp add: md5_sum_def md5_write_write md5_write_sel(2)) (simp add: md5_new_def)
  then show ?thesis
    by (simp add: md5_write_sel(1) md5_digest_def) (simp add: md5_new_def)
qed

lemma md5_sum_write_nil: "md5_sum (md5_write d []) = md5_sum d"
  by (simp add: md5_sum_def md5_write_write md5_write_sel(2))

interpretation md5h: stream_hash md5_new md5_write md5_sum md5_digest
  by unfold_locales
    (simp_all add: md5_write_write md5_sum_digest,
     simp add: md5_write_def md5_new_def md5_blocks.simps)

end
