(* ===== verification/Md5_Vectors.thy ===== *)
theory Md5_Vectors
  imports Md5
begin

text \<open>A test vector of RFC 1321, evaluated on the MD5 model by the kernel.\<close>

lemma md5_empty:
  "md5_digest [] = [0xd4, 0x1d, 0x8c, 0xd9, 0x8f, 0x00, 0xb2, 0x04,
                    0xe9, 0x80, 0x09, 0x98, 0xec, 0xf8, 0x42, 0x7e]"
  by code_simp

end
