(* ===== verification/Go_Text.thy ===== *)
theory Go_Text
  imports Prelude
begin

text \<open>
  What the program uses of Go's text handling: the character classes its scanners share
  (\<^verbatim>\<open>header.go\<close>, \<^verbatim>\<open>cref.go\<close>), decimal and hexadecimal formatting (\<^verbatim>\<open>fmt\<close>),
  \<^verbatim>\<open>strconv.ParseUint\<close>, and splitting functions of \<^verbatim>\<open>bytes\<close> and \<^verbatim>\<open>strings\<close>.
\<close>

section \<open>Character classes\<close>

definition isWhite :: "byte \<Rightarrow> bool" where
  "isWhite c \<longleftrightarrow> c = 0x20 \<or> c = 0x09 \<or> c = 0x0d \<or> c = 0x0a"

definition toLower :: "byte \<Rightarrow> byte" where
  "toLower c = (if 0x41 \<le> c \<and> c \<le> 0x5a then c + (0x61 - 0x41) else c)"

definition isLower :: "byte \<Rightarrow> bool" where
  "isLower c \<longleftrightarrow> 0x61 \<le> c \<and> c \<le> 0x7a"

definition isUpper :: "byte \<Rightarrow> bool" where
  "isUpper c \<longleftrightarrow> 0x41 \<le> c \<and> c \<le> 0x5a"

definition isDigit :: "byte \<Rightarrow> bool" where
  "isDigit c \<longleftrightarrow> 0x30 \<le> c \<and> c \<le> 0x39"

declare isWhite_def [byte_defs] isLower_def [byte_defs] isUpper_def [byte_defs]
  isDigit_def [byte_defs] toLower_def [byte_defs]

lemma byte_le_nat: "(a :: byte) \<le> b \<longleftrightarrow> unat a \<le> unat b"
  by (rule word_le_nat_alt)

lemma unat_toLower:
  "unat (toLower c) = (if 65 \<le> unat c \<and> unat c \<le> 90 then unat c + 32 else unat c)"
  by (auto simp: toLower_def word_le_nat_alt unat_word_ariths)

lemma toLower_idem [simp]: "toLower (toLower c) = toLower c"
  by (rule word_unat_eq_iff [THEN iffD2]) (simp add: unat_toLower)

lemma toLower_white [simp]: "isWhite (toLower c) = isWhite c"
  by (auto simp: isWhite_def word_unat_eq_iff unat_toLower)

lemma toLower_eq_iff:
  "unat x < 65 \<Longrightarrow> toLower c = x \<longleftrightarrow> c = x"
  by (auto simp: word_unat_eq_iff unat_toLower)

lemma isLower_toLower: "isLower c \<Longrightarrow> toLower c = c"
  by (auto simp: isLower_def word_unat_eq_iff unat_toLower word_le_nat_alt)

section \<open>Formatting and parsing of numbers\<close>

text \<open>\<open>dec n\<close> is \<^verbatim>\<open>%d\<close> of an unsigned number; \<open>hex8 w\<close> is \<^verbatim>\<open>%08x\<close> of a uint32.\<close>

function dec :: "nat \<Rightarrow> bytes" where
  "dec n = (if n < 10 then [0x30 + of_nat n] else dec (n div 10) @ [0x30 + of_nat (n mod 10)])"
  by pat_completeness auto
termination
  by (relation "measure id") auto

declare dec.simps [simp del]

definition hex_digit :: "byte \<Rightarrow> byte" where
  "hex_digit n = (if n < 10 then 0x30 + n else 0x61 + (n - 10))"

definition hex2 :: "byte \<Rightarrow> bytes" where
  "hex2 b = [hex_digit (drop_bit 4 b), hex_digit (b AND 0xf)]"

definition hex8 :: "u32 \<Rightarrow> bytes" where
  "hex8 w = concat (map hex2 (put_be32 w))"

definition unhex_digit :: "byte \<Rightarrow> byte" where
  "unhex_digit c = (if c < 0x3a then c - 0x30 else c - 0x61 + 10)"

fun unhex :: "bytes \<Rightarrow> bytes" where
  "unhex (a # b # r) = (push_bit 4 (unhex_digit a) OR unhex_digit b) # unhex r"
| "unhex _ = []"

lemma length_hex2 [simp]: "length (hex2 b) = 2"
  by (simp add: hex2_def)

lemma length_hex8 [simp]: "length (hex8 w) = 8"
  by (simp add: hex8_def put_be32_def)

lemma unhex_hex_digit: "unat n < 16 \<Longrightarrow> unhex_digit (hex_digit n) = n"
  by (auto simp: hex_digit_def unhex_digit_def word_unat_eq_iff word_less_nat_alt
      unat_word_ariths unat_sub_if')

lemma nibbles: "push_bit 4 (drop_bit 4 b) OR (b AND 0xf) = (b :: byte)"
proof (rule bit_eqI)
  fix n
  have "bit (0xf :: byte) n \<longleftrightarrow> n < 4"
    using bit_mask_iff [of 4 n, where 'a = byte] by (auto simp: mask_eq_exp_minus_1 bit_iff_odd)
  then show "bit (push_bit 4 (drop_bit 4 b) OR (b AND 0xf)) n = bit b n"
    by (auto simp: bit_simps dest: bit_imp_le_length)
qed

lemma unhex_hex2: "unhex (hex2 b @ r) = b # unhex r"
proof -
  have "unat (drop_bit 4 b) < 16"
    using unat_byte [of b] by (simp add: drop_bit_eq_div unat_div div_less_iff_less_mult)
  moreover have "unat (b AND 0xf) < 16"
    using word_and_le1 [of b "0xf"] by (simp add: word_le_nat_alt)
  ultimately show ?thesis
    by (simp add: hex2_def unhex_hex_digit nibbles)
qed

lemma unhex_hex: "unhex (concat (map hex2 bs) @ r) = bs @ unhex r"
  by (induction bs) (simp_all add: unhex_hex2)

text \<open>
  \<^verbatim>\<open>strconv.ParseUint(s, 10, 32)\<close>: \<open>None\<close> for an empty string, a byte that is not a digit,
  or a value above \<open>2^32 - 1\<close>.
\<close>

definition digits_val :: "bytes \<Rightarrow> nat" where
  "digits_val s = foldl (\<lambda>n c. 10 * n + (unat c - 48)) 0 s"

definition parse_uint32 :: "bytes \<Rightarrow> u32 option" where
  "parse_uint32 s =
     (if s = [] \<or> \<not> list_all isDigit s \<or> digits_val s \<ge> 2 ^ 32 then None
      else Some (of_nat (digits_val s)))"

lemma unat_digit: "n < 10 \<Longrightarrow> unat (0x30 + of_nat n :: byte) = 48 + n"
  by (simp add: unat_word_ariths unat_of_nat)

lemma digits_val_snoc: "digits_val (s @ [c]) = 10 * digits_val s + (unat c - 48)"
  by (simp add: digits_val_def)

lemma dec_digits: "dec n \<noteq> [] \<and> list_all isDigit (dec n) \<and> digits_val (dec n) = n"
proof (induction n rule: dec.induct)
  case (1 n)
  have d: "m < 10 \<Longrightarrow> isDigit (0x30 + of_nat m)" for m
    by (simp add: isDigit_def word_le_nat_alt unat_digit)
  show ?case
  proof (cases "n < 10")
    case True
    then show ?thesis
      using digits_val_snoc [of "[]"]
      by (simp add: dec.simps [of n] d unat_digit digits_val_def)
  next
    case False
    then show ?thesis
      using 1 by (simp add: dec.simps [of n] d unat_digit digits_val_snoc)
  qed
qed

lemma parse_dec [simp]: "parse_uint32 (dec (unat w)) = Some w"
  using dec_digits [of "unat w"] unat_u32 [of w] by (simp add: parse_uint32_def)

end
