(* ===== verification/Checksum.thy ===== *)
theory Checksum
  imports Md5 Go_Text
begin

text \<open>
  \<^verbatim>\<open>dcc/sum.go\<close>: checksum types and labels, the 16-byte checksum value and its text form,
  and the record of one computed checksum.  \<^verbatim>\<open>CkType\<close> is a \<^verbatim>\<open>uint8\<close> in Go, so it is a byte
  here: types outside the named constants exist and have a label too.
\<close>

type_synonym CkType = byte

definition CkInvalid :: CkType where "CkInvalid = 0"
definition CkIP :: CkType where "CkIP = 1"
definition CkEnvFrom :: CkType where "CkEnvFrom = 2"
definition CkFrom :: CkType where "CkFrom = 3"
definition CkEnvTo :: CkType where "CkEnvTo = 4"
definition CkMessageID :: CkType where "CkMessageID = 5"
definition CkReceived :: CkType where "CkReceived = 6"
definition CkBody :: CkType where "CkBody = 7"
definition CkFuz1 :: CkType where "CkFuz1 = 8"
definition CkFuz2 :: CkType where "CkFuz2 = 9"
definition CkSub :: CkType where "CkSub = 10"

lemmas ck_types = CkInvalid_def CkIP_def CkEnvFrom_def CkFrom_def CkEnvTo_def CkMessageID_def
  CkReceived_def CkBody_def CkFuz1_def CkFuz2_def CkSub_def

definition label :: "CkType \<Rightarrow> bytes" where
  "label t =
     (if t = CkIP then str ''IP''
      else if t = CkEnvFrom then str ''env_From''
      else if t = CkFrom then str ''From''
      else if t = CkEnvTo then str ''env_To''
      else if t = CkMessageID then str ''Message-ID''
      else if t = CkReceived then str ''Received''
      else if t = CkBody then str ''Body''
      else if t = CkFuz1 then str ''Fuz1''
      else if t = CkFuz2 then str ''Fuz2''
      else if t = CkSub then str ''substitute''
      else dec (unat t) @ str ''?'')"

text \<open>A \<^verbatim>\<open>Sum\<close> is a 16-byte array; \<open>be32\<close> reads the first four bytes of a slice.\<close>

type_synonym Sum = bytes

definition be32 :: "bytes \<Rightarrow> u32" where
  "be32 b = push_bit 24 (ucast (b ! 0)) OR push_bit 16 (ucast (b ! 1))
          OR push_bit 8 (ucast (b ! 2)) OR ucast (b ! 3)"

definition sum_word :: "Sum \<Rightarrow> nat \<Rightarrow> u32" where
  "sum_word s i = be32 (take 4 (drop (4 * i) s))"

definition Sum_String :: "Sum \<Rightarrow> bytes" where
  "Sum_String s = hex8 (sum_word s 0) @ str '' '' @ hex8 (sum_word s 1) @ str '' ''
                @ hex8 (sum_word s 2) @ str '' '' @ hex8 (sum_word s 3)"

record Checksum =
  ck_Type :: CkType
  ck_Label :: bytes
  ck_Sum :: Sum
  ck_Report :: bool

section \<open>The text form\<close>

text \<open>Reading the text form back: the four groups of eight hexadecimal digits.\<close>

definition parse_Sum :: "bytes \<Rightarrow> Sum" where
  "parse_Sum t = unhex (take 8 t) @ unhex (take 8 (drop 9 t))
               @ unhex (take 8 (drop 18 t)) @ unhex (take 8 (drop 27 t))"

lemma be32_get_be32: "length b = 4 \<Longrightarrow> be32 b = get_be32 b"
  by (auto simp: be32_def length_Suc_conv numeral_eq_Suc)

lemma unhex_hex8: "unhex (hex8 w) = put_be32 w"
  using unhex_hex [of "put_be32 w" "[]"] by (simp add: hex8_def)

lemma unhex_sum_word:
  "4 * i + 4 \<le> length s \<Longrightarrow> unhex (hex8 (sum_word s i)) = take 4 (drop (4 * i) s)"
  by (simp add: unhex_hex8 sum_word_def be32_get_be32 put_get_be32)

text \<open>
  Every 16-byte checksum renders as 35 bytes (four groups of eight hexadecimal digits
  with single spaces between them), and the rendering can be read back: no two checksums
  have the same text.
\<close>
theorem Sum_String_roundtrip:
  assumes "length s = 16"
  shows "length (Sum_String s) = 35 \<and> parse_Sum (Sum_String s) = s"
proof -
  have "take 4 s @ take 4 (drop 4 s) @ take 4 (drop 8 s) @ take 4 (drop 12 s) = s"
    using assms append_take_drop_id [of 4 s] append_take_drop_id [of 4 "drop 4 s"]
      append_take_drop_id [of 4 "drop 8 s"] by (simp add: drop_drop)
  with assms show ?thesis
    by (simp add: Sum_String_def parse_Sum_def unhex_sum_word)
qed

theorem Sum_String_roundtrip_witness:
  "length (Sum_String (replicate 16 0xa5)) = 35 \<and>
   parse_Sum (Sum_String (replicate 16 0xa5)) = replicate 16 0xa5"
  by (rule Sum_String_roundtrip) simp

end
