(* ===== verification/Header_Ck.thy ===== *)
theory Header_Ck
  imports Checksum
begin

text \<open>
  \<^verbatim>\<open>dcc/header.go\<close>: the header checksum \<^verbatim>\<open>str2ck\<close>.  The loop that fills \<^verbatim>\<open>cbuf\<close> and the
  loop that drops trailing periods are the two recursive functions; the digest is the MD5
  of the optional header name followed by what is kept.
\<close>

definition hdrCkMax :: nat where "hdrCkMax = 1024"

definition hdr_stripped :: "byte \<Rightarrow> bool" where
  "hdr_stripped c \<longleftrightarrow> isWhite c \<or> c = 0x3c \<or> c = 0x3e \<or> c = 0x27 \<or> c = 0x22 \<or> c = 0x2c"

fun str2ck_fill :: "bytes \<Rightarrow> bytes \<Rightarrow> bytes" where
  "str2ck_fill [] cbuf = cbuf"
| "str2ck_fill (c # s) cbuf =
     (if length cbuf \<ge> hdrCkMax then cbuf
      else if hdr_stripped c then str2ck_fill s cbuf
      else str2ck_fill s (cbuf @ [toLower c]))"

function str2ck_trim :: "bytes \<Rightarrow> bytes" where
  "str2ck_trim cbuf =
     (if cbuf \<noteq> [] \<and> last cbuf = 0x2e then str2ck_trim (butlast cbuf) else cbuf)"
  by pat_completeness auto
termination
  by (relation "measure length") auto

declare str2ck_trim.simps [simp del]

definition str2ck :: "bytes \<Rightarrow> bytes \<Rightarrow> Sum" where
  "str2ck hdrName s =
     (let cbuf = str2ck_trim (str2ck_fill s []);
          h = md5_new;
          h = (if hdrName \<noteq> [] then md5_write h hdrName else h);
          h = md5_write h cbuf
      in md5_sum h)"

section \<open>What is hashed\<close>

text \<open>The canonical form of a header value, as one expression.\<close>

definition hdr_canon :: "bytes \<Rightarrow> bytes" where
  "hdr_canon s =
     rev (dropWhile (\<lambda>c. c = 0x2e)
       (rev (take hdrCkMax (map toLower (filter (\<lambda>c. \<not> hdr_stripped c) s)))))"

lemma str2ck_fill_eq:
  "length cbuf \<le> hdrCkMax \<Longrightarrow>
   str2ck_fill s cbuf =
     cbuf @ take (hdrCkMax - length cbuf) (map toLower (filter (\<lambda>c. \<not> hdr_stripped c) s))"
proof (induction s cbuf rule: str2ck_fill.induct)
  case (2 c s cbuf)
  then show ?case
    by (auto simp: take_Cons')
qed simp

lemma str2ck_trim_eq: "str2ck_trim xs = rev (dropWhile (\<lambda>c. c = 0x2e) (rev xs))"
proof (induction xs rule: str2ck_trim.induct)
  case (1 xs)
  show ?case
    using 1 by (cases xs rule: rev_cases; subst str2ck_trim.simps) auto
qed

lemma str2ck_canon: "str2ck hdrName s = md5_digest (hdrName @ hdr_canon s)"
  using md5h.feed_nil md5h.final_digest
  by (simp add: str2ck_def Let_def hdr_canon_def str2ck_fill_eq str2ck_trim_eq
      md5_write_write md5_sum_digest)

lemma hdr_stripped_toLower [simp]: "hdr_stripped (toLower c) = hdr_stripped c"
  by (simp add: hdr_stripped_def toLower_eq_iff)

text \<open>
  C36. The header checksum is the MD5 of the name and the canonical value, and that value
  ignores case and the stripped characters: white space, angle brackets, quotes and commas
  can be inserted or removed anywhere, and upper case replaced by lower case, without
  changing the checksum.  At most 1024 bytes of the value count.
\<close>
theorem str2ck_normalises:
  "str2ck hdrName s = md5_digest (hdrName @ hdr_canon s) \<and>
   length (hdr_canon s) \<le> hdrCkMax \<and>
   str2ck hdrName (map toLower s) = str2ck hdrName s \<and>
   str2ck hdrName (filter (\<lambda>c. \<not> hdr_stripped c) s) = str2ck hdrName s"
proof -
  have "length (hdr_canon s) \<le> hdrCkMax"
    unfolding hdr_canon_def length_rev
    by (rule le_trans [OF length_dropWhile_le]) simp
  moreover have "hdr_canon (map toLower s) = hdr_canon s"
    by (simp add: hdr_canon_def filter_map o_def)
  moreover have "hdr_canon (filter (\<lambda>c. \<not> hdr_stripped c) s) = hdr_canon s"
    by (simp add: hdr_canon_def)
  ultimately show ?thesis by (simp add: str2ck_canon)
qed

end
