(* ===== verification/Body_Ck.thy ===== *)
theory Body_Ck
  imports Md5 Go_Text
begin

text \<open>
  \<^verbatim>\<open>dcc/body.go\<close>: the whitespace-stripped body checksum.  The state is the record
  \<open>bodyState\<close> with Go's fields (\<^verbatim>\<open>md5\<close>, \<^verbatim>\<open>total\<close>, \<^verbatim>\<open>flen\<close>, \<^verbatim>\<open>buf\<close>); one iteration of the
  loop of \<^verbatim>\<open>body0\<close> is \<open>body0_byte\<close>.  The specification \<open>body_spec\<close> reads the body line by
  line; the refinement theorem says the streaming scanner hashes exactly that, however
  the body is cut into chunks.
\<close>

record bodyState =
  b_md5 :: md5
  b_total :: nat
  b_flen :: nat
  b_buf :: bytes

definition fromSeq :: bytes where "fromSeq = [0x0a, 0x3e, 0x46, 0x72, 0x6f, 0x6d]"
definition fromTail :: bytes where "fromTail = [0x3e, 0x46, 0x72, 0x6f, 0x6d]"
definition fromWord :: bytes where "fromWord = [0x46, 0x72, 0x6f, 0x6d]"
definition bodyBufLen :: nat where "bodyBufLen = 1024"

definition newBodyState :: bodyState where
  "newBodyState = \<lparr>b_md5 = md5_new, b_total = 0, b_flen = 1, b_buf = []\<rparr>"

definition emit :: "bytes \<Rightarrow> bodyState \<Rightarrow> bodyState" where
  "emit p b =
     (let b = b\<lparr>b_buf := b_buf b @ p, b_total := b_total b + length p\<rparr>
      in if length (b_buf b) \<ge> bodyBufLen
         then b\<lparr>b_md5 := md5_write (b_md5 b) (b_buf b), b_buf := []\<rparr> else b)"

text \<open>The part of the loop body after the "From" matcher.\<close>

definition body0_tail :: "byte \<Rightarrow> bodyState \<Rightarrow> bodyState" where
  "body0_tail c b =
     (if c = 0x0a then b\<lparr>b_flen := 1\<rparr>
      else if c = 0x20 \<or> c = 0x09 \<or> c = 0x0d then b
      else if c = 0x3d then b
      else emit [c] b)"

definition body0_byte :: "byte \<Rightarrow> bodyState \<Rightarrow> bodyState option" where
  "body0_byte c b =
     (if b_flen b \<noteq> 0 then do {
        x \<leftarrow> idx fromSeq (b_flen b);
        if c = x then
          let b = b\<lparr>b_flen := b_flen b + 1\<rparr>
          in Some (if b_flen b \<ge> 6 then (emit fromWord b)\<lparr>b_flen := 0\<rparr> else b)
        else
          let b = b\<lparr>b_flen := b_flen b - 1\<rparr>
          in if b_flen b \<noteq> 0 then do {
               t \<leftarrow> slice fromTail 0 (int (b_flen b));
               Some (body0_tail c ((emit t b)\<lparr>b_flen := 0\<rparr>))
             }
             else Some (body0_tail c b)
      }
      else Some (body0_tail c b))"

definition body0 :: "bytes \<Rightarrow> bodyState \<Rightarrow> bodyState option" where
  "body0 bp b = fold_opt body0_byte bp b"

definition body_final :: "bodyState \<Rightarrow> bytes \<times> bool" where
  "body_final b =
     (let b = (if b_buf b \<noteq> [] then b\<lparr>b_md5 := md5_write (b_md5 b) (b_buf b), b_buf := []\<rparr> else b)
      in (md5_sum (b_md5 b), b_total b \<ge> 30))"

section \<open>Specification\<close>

text \<open>
  What the body checksum covers: every byte but blanks, tabs, carriage returns, newlines,
  equals signs, and the \<^verbatim>\<open>>\<close> of a line that starts with \<^verbatim>\<open>>From\<close>.  The flag says whether the
  text starts at the beginning of a line.
\<close>

definition body_ignored :: "byte \<Rightarrow> bool" where
  "body_ignored c \<longleftrightarrow> c = 0x20 \<or> c = 0x09 \<or> c = 0x0d \<or> c = 0x3d"

function body_spec :: "bool \<Rightarrow> bytes \<Rightarrow> bytes" where
  "body_spec bol [] = []"
| "body_spec bol (c # r) =
     (if bol \<and> take 5 (c # r) = fromTail then fromWord @ body_spec False (drop 4 r)
      else if c = 0x0a then body_spec True r
      else if body_ignored c then body_spec False r
      else c # body_spec False r)"
  by pat_completeness auto
termination
  by (relation "measure (\<lambda>(b, xs). length xs)") auto

section \<open>Refinement\<close>

text \<open>
  The abstract run: the accepted bytes only, from a matcher position \<open>n\<close>, and the final
  matcher position.  \<open>feeds b acc\<close> says that a concrete state has accepted \<open>acc\<close>.
\<close>

definition feeds :: "bodyState \<Rightarrow> bytes \<Rightarrow> bool" where
  "feeds b acc \<longleftrightarrow>
     md5_write (b_md5 b) (b_buf b) = md5_write md5_new acc \<and> b_total b = length acc
     \<and> b_flen b \<le> 5"

definition abs_tail :: "byte \<Rightarrow> bytes \<times> nat" where
  "abs_tail c = (if c = 0x0a then ([], 1) else if body_ignored c then ([], 0) else ([c], 0))"

definition abs_byte :: "byte \<Rightarrow> nat \<Rightarrow> bytes \<times> nat" where
  "abs_byte c n =
     (if n = 0 then abs_tail c
      else if c = fromSeq ! n then (if n = 5 then (fromWord, 0) else ([], n + 1))
      else (take (n - 1) fromTail @ fst (abs_tail c), snd (abs_tail c)))"

fun abs_run :: "bytes \<Rightarrow> nat \<Rightarrow> bytes \<times> nat" where
  "abs_run [] n = ([], n)"
| "abs_run (c # cs) n =
     (let (e, n') = abs_byte c n; (e', n'') = abs_run cs n' in (e @ e', n''))"

lemma emit_feeds:
  "feeds b acc \<Longrightarrow> feeds (emit p b) (acc @ p)"
  by (auto simp: feeds_def emit_def Let_def md5_write_write [symmetric])
    (simp_all add: md5_write_write)

lemma emit_flen [simp]: "b_flen (emit p b) = b_flen b"
  by (simp add: emit_def Let_def)

lemma feeds_flen: "feeds b acc \<Longrightarrow> n \<le> 5 \<Longrightarrow> feeds (b\<lparr>b_flen := n\<rparr>) acc"
  by (simp add: feeds_def)

lemma body0_tail_abs:
  "feeds b acc \<Longrightarrow> b_flen b = 0 \<Longrightarrow>
   feeds (body0_tail c b) (acc @ fst (abs_tail c)) \<and> b_flen (body0_tail c b) = snd (abs_tail c)"
  by (auto simp: body0_tail_def abs_tail_def body_ignored_def emit_feeds feeds_flen)

lemma body0_byte_abs:
  assumes f: "feeds b acc"
  shows "\<exists>b'. body0_byte c b = Some b' \<and> feeds b' (acc @ fst (abs_byte c (b_flen b)))
           \<and> b_flen b' = snd (abs_byte c (b_flen b))"
proof -
  have n: "b_flen b \<le> 5" using f by (simp add: feeds_def)
  consider (idle) "b_flen b = 0" | (hit) "b_flen b \<noteq> 0" "c = fromSeq ! b_flen b"
    | (miss) "b_flen b \<noteq> 0" "c \<noteq> fromSeq ! b_flen b" by blast
  then show ?thesis
  proof cases
    case idle
    then show ?thesis
      using body0_tail_abs [OF f] by (simp add: body0_byte_def abs_byte_def)
  next
    case hit
    then show ?thesis
      using f n emit_feeds [OF feeds_flen [OF f], of 5 fromWord]
      by (auto simp: body0_byte_def abs_byte_def fromSeq_def Let_def feeds_def emit_def)
  next
    case miss
    let ?n = "b_flen b - 1"
    let ?t = "take ?n fromTail"
    define b1 where "b1 = (if ?n = 0 then b else emit ?t b)\<lparr>b_flen := 0\<rparr>"
    have "feeds b1 (acc @ ?t)"
      unfolding b1_def using f emit_feeds [OF f, of ?t] by (auto intro: feeds_flen)
    from body0_tail_abs [OF this, of c]
    have "feeds (body0_tail c b1) (acc @ fst (abs_byte c (b_flen b)))
        \<and> b_flen (body0_tail c b1) = snd (abs_byte c (b_flen b))"
      using miss by (simp add: abs_byte_def b1_def)
    moreover have "body0_byte c b = Some (body0_tail c b1)"
    proof -
      from miss(1) n have "b_flen b \<in> {1, 2, 3, 4, 5}" by auto
      with miss(2) show ?thesis
        by (auto simp: body0_byte_def b1_def Let_def fromSeq_def fromTail_def emit_def)
    qed
    ultimately show ?thesis by blast
  qed
qed

lemma body0_abs:
  "feeds b acc \<Longrightarrow>
   \<exists>b'. body0 bp b = Some b' \<and> feeds b' (acc @ fst (abs_run bp (b_flen b)))
      \<and> b_flen b' = snd (abs_run bp (b_flen b))"
  unfolding body0_def
proof (induction bp arbitrary: b acc)
  case (Cons c bp)
  from body0_byte_abs [OF Cons.prems, of c] obtain b1 where b1: "body0_byte c b = Some b1"
      "feeds b1 (acc @ fst (abs_byte c (b_flen b)))" "b_flen b1 = snd (abs_byte c (b_flen b))"
    by blast
  from Cons.IH [OF b1(2)] b1(1,3) show ?case
    by (cases "abs_byte c (b_flen b)"; cases "abs_run bp (snd (abs_byte c (b_flen b)))") simp
qed simp

text \<open>The matcher position \<open>n\<close> stands for \<open>n - 1\<close> bytes of \<^verbatim>\<open>>From\<close> read and not yet accepted.\<close>

definition body_pending :: "nat \<Rightarrow> bytes" where
  "body_pending n = take (n - 1) fromTail"

lemma fromSeq_cases:
  assumes "n \<le> (5 :: nat)" "n \<noteq> 0"
  obtains "n = 1" | "n = 2" | "n = 3" | "n = 4" | "n = 5"
  using assms by linarith

lemma spec_match:
  assumes "n \<le> 5" "n \<noteq> 0" "c = fromSeq ! n"
  shows "body_spec True (body_pending n @ c # xs) =
    fst (abs_byte c n) @ body_spec (snd (abs_byte c n) \<noteq> 0) (body_pending (snd (abs_byte c n)) @ xs)"
  using assms(1,2) by (cases n rule: fromSeq_cases)
    (simp_all add: assms(3) abs_byte_def body_pending_def fromTail_def fromSeq_def fromWord_def)

lemma spec_mismatch:
  assumes "n \<le> 5" "n \<noteq> 0" "c \<noteq> fromSeq ! n"
  shows "body_spec True (body_pending n @ c # xs) = body_pending n @ body_spec False (c # xs)"
  using assms by (cases n rule: fromSeq_cases)
    (simp_all add: body_pending_def fromTail_def fromSeq_def body_ignored_def)

lemma spec_tail:
  "fst (abs_tail c) @ body_spec (snd (abs_tail c) \<noteq> 0) xs = body_spec False (c # xs)"
  by (simp add: abs_tail_def)

lemma pending_tail [simp]: "body_pending (snd (abs_tail c)) = []" "body_pending 0 = []"
  by (simp_all add: abs_tail_def body_pending_def)

lemma abs_byte_spec:
  "n \<le> 5 \<Longrightarrow>
   fst (abs_byte c n) @ body_spec (snd (abs_byte c n) \<noteq> 0) (body_pending (snd (abs_byte c n)) @ xs)
     = body_spec (n \<noteq> 0) (body_pending n @ c # xs)
   \<and> snd (abs_byte c n) \<le> 5"
  using spec_tail [of c xs] spec_match [of n c xs] spec_mismatch [of n c xs]
  by (cases "n = 0"; cases "c = fromSeq ! n")
    (auto simp: abs_byte_def abs_tail_def body_pending_def simp del: body_spec.simps)

lemma abs_run_spec:
  "n \<le> 5 \<Longrightarrow>
   fst (abs_run xs n) @ body_pending (snd (abs_run xs n)) = body_spec (n \<noteq> 0) (body_pending n @ xs)
   \<and> snd (abs_run xs n) \<le> 5"
proof (induction xs arbitrary: n)
  case Nil
  show ?case
  proof (cases "n = 0")
    case False
    with Nil show ?thesis
      by (cases n rule: fromSeq_cases) (simp_all add: body_pending_def fromTail_def body_ignored_def)
  qed simp
next
  case (Cons c xs)
  obtain e n' where b: "abs_byte c n = (e, n')" by (cases "abs_byte c n")
  obtain e' n'' where r: "abs_run xs n' = (e', n'')" by (cases "abs_run xs n'")
  from abs_byte_spec [OF Cons.prems, of c xs] b
  have step: "e @ body_spec (n' \<noteq> 0) (body_pending n' @ xs) = body_spec (n \<noteq> 0) (body_pending n @ c # xs)"
    and n': "n' \<le> 5"
    by (simp_all del: body_spec.simps)
  from Cons.IH [OF n'] r
  have "e' @ body_pending n'' = body_spec (n' \<noteq> 0) (body_pending n' @ xs)" and "n'' \<le> 5"
    by (simp_all del: body_spec.simps)
  with step b r show ?case by (simp del: body_spec.simps)
qed

section \<open>The body checksum of a message\<close>

definition body_chunks :: "bytes list \<Rightarrow> bodyState option" where
  "body_chunks chunks = fold_opt body0 chunks newBodyState"

lemma body_chunks_concat: "body_chunks chunks = body0 (concat chunks) newBodyState"
  unfolding body_chunks_def body0_def
  by (subst fold_opt_concat [symmetric]) (simp add: body0_def [abs_def])

lemma body_final_feeds:
  "feeds b acc \<Longrightarrow> body_final b = (md5_digest acc, length acc \<ge> 30)"
  using md5_sum_write_nil [of "b_md5 b"]
  by (cases "b_buf b = []") (auto simp: body_final_def feeds_def Let_def md5_sum_digest)

text \<open>
  C18. However a body is cut into chunks, the streaming scanner returns (it never indexes
  out of range), and what it hashes together with its pending partial match of
  \<^verbatim>\<open>>From\<close> is exactly the line-by-line specification of the concatenated body; the
  checksum is valid when at least 30 bytes were accepted.
\<close>
theorem body_checksum_refines:
  "\<exists>b acc. body_chunks chunks = Some b \<and> b_flen b \<le> 5
     \<and> acc @ body_pending (b_flen b) = body_spec True (concat chunks)
     \<and> body_final b = (md5_digest acc, 30 \<le> length acc)"
proof -
  have "feeds newBodyState []"
    by (simp add: feeds_def newBodyState_def)
  from body0_abs [OF this, of "concat chunks"] obtain b where
    b: "body0 (concat chunks) newBodyState = Some b" "feeds b (fst (abs_run (concat chunks) 1))"
      "b_flen b = snd (abs_run (concat chunks) 1)"
    by (auto simp: newBodyState_def)
  with abs_run_spec [of 1 "concat chunks"] body_final_feeds [OF b(2)] show ?thesis
    by (auto simp: body_chunks_concat body_pending_def simp del: body_spec.simps)
qed

end
