(* ===== verification/Proto.thy ===== *)
theory Proto
  imports Checksum
begin

text \<open>
  \<^verbatim>\<open>dcc/proto.go\<close>: the wire protocol.  Packets are byte lists; every read at an offset is a
  checked slice, so \<open>None\<close> is the panic Go would raise.  \<open>parseAnswer\<close> returns Go's error
  values as the left summand.
\<close>

definition dccPktVers :: byte where "dccPktVers = 12"
definition dccSrvrPort :: int where "dccSrvrPort = 6277"
definition dccTgtsTooMany :: u32 where "dccTgtsTooMany = 0x00fffff0"
definition dccTgtsOK :: u32 where "dccTgtsOK = 0x00fffff1"
definition dccTgtsOK2 :: u32 where "dccTgtsOK2 = 0x00fffff2"
definition dccTgtsMask :: u32 where "dccTgtsMask = 0x00ffffff"
definition dccIDAnon :: u32 where "dccIDAnon = 1"
definition hdrLen :: nat where "hdrLen = 24"
definition ckLen :: nat where "ckLen = 18"
definition sigLen :: nat where "sigLen = 16"

definition opInvalid :: byte where "opInvalid = 0"
definition opNop :: byte where "opNop = 1"
definition opReport :: byte where "opReport = 2"
definition opQuery :: byte where "opQuery = 3"
definition opAnswer :: byte where "opAnswer = 4"
definition opError :: byte where "opError = 7"

lemmas proto_consts = hdrLen_def ckLen_def sigLen_def

record opNums =
  on_h :: u32
  on_p :: u32
  on_r :: u32
  on_t :: u32

section \<open>Signatures\<close>

definition signPacket :: "bytes \<Rightarrow> bytes \<Rightarrow> bytes option" where
  "signPacket buf passwd =
     (if length buf < sigLen then None
      else let body = take (length buf - sigLen) buf
           in Some (body @ (if passwd = [] then replicate sigLen 0
                            else md5_sum (md5_write (md5_write md5_new passwd) body))))"

definition verifyAnswerSig :: "bytes \<Rightarrow> bytes \<Rightarrow> bool" where
  "verifyAnswerSig buf passwd =
     (if passwd = [] then True
      else if length buf < sigLen then False
      else md5_sum (md5_write (md5_write md5_new passwd) (take (length buf - sigLen) buf))
             = drop (length buf - sigLen) buf)"

definition passwd16 :: "bytes \<Rightarrow> bytes" where
  "passwd16 s = (if s = [] then [] else copy_at (replicate sigLen 0) 0 s)"

section \<open>Queries\<close>

definition reportable :: "Checksum list \<Rightarrow> Checksum list" where
  "reportable cks = filter ck_Report cks"

definition reportableCount :: "Checksum list \<Rightarrow> u32" where
  "reportableCount cks = fold (\<lambda>c n. if ck_Report c then n + 1 else n) cks 0"

text \<open>A write of a big-endian integer into the packet, which panics past its end.\<close>

definition put_at :: "bytes \<Rightarrow> nat \<Rightarrow> bytes \<Rightarrow> bytes option" where
  "put_at buf off src = (if off + length src \<le> length buf then Some (copy_at buf off src) else None)"

text \<open>
  The loop that writes the checksums, at offset \<open>off\<close> of the packet: the 16 bytes are copied into a
  slice of it, which must be there.
\<close>

fun put_cks :: "nat \<Rightarrow> Checksum list \<Rightarrow> bytes \<Rightarrow> bytes option" where
  "put_cks off [] buf = Some buf"
| "put_cks off (c # cs) buf = do {
     buf \<leftarrow> upd buf off (ck_Type c);
     buf \<leftarrow> upd buf (off + 1) (of_nat ckLen);
     _ \<leftarrow> nslice buf (off + 2) (off + 18);
     put_cks (off + ckLen) cs (copy_at buf (off + 2) (take 16 (ck_Sum c)))
   }"

definition buildQuery ::
  "byte \<Rightarrow> u32 \<Rightarrow> opNums \<Rightarrow> u32 \<Rightarrow> Checksum list \<Rightarrow> bytes \<Rightarrow> bytes option" where
  "buildQuery op sender nums tgts cks passwd =
     (let rs = reportable cks;
          n = length rs;
          pktLen = hdrLen + 4 + n * ckLen + sigLen;
          buf = replicate pktLen 0
      in do {
        buf \<leftarrow> put_at buf 0 (put_be16 (of_nat pktLen));
        buf \<leftarrow> upd buf 2 dccPktVers;
        buf \<leftarrow> upd buf 3 op;
        buf \<leftarrow> put_at buf 4 (put_be32 sender);
        buf \<leftarrow> put_at buf 8 (put_be32 (on_h nums));
        buf \<leftarrow> put_at buf 12 (put_be32 (on_p nums));
        buf \<leftarrow> put_at buf 16 (put_be32 (on_r nums));
        buf \<leftarrow> put_at buf 20 (put_be32 (on_t nums));
        buf \<leftarrow> put_at buf 24 (put_be32 tgts);
        buf \<leftarrow> put_cks 28 rs buf;
        signPacket buf passwd
      })"

section \<open>Answers\<close>

record answerCount =
  ac_cur :: u32
  ac_prev :: u32

datatype answer_err =
    ErrShort nat
  | ErrMismatch
  | ErrServer bytes
  | ErrOp byte
  | ErrLen nat nat

fun trimNul :: "bytes \<Rightarrow> bytes" where
  "trimNul [] = []"
| "trimNul (c # b) = (if c = 0 then [] else c # trimNul b)"

definition be16_at :: "bytes \<Rightarrow> nat \<Rightarrow> u16 option" where
  "be16_at buf i = map_option get_be16 (slice buf (int i) (int i + 2))"

definition be32_at :: "bytes \<Rightarrow> nat \<Rightarrow> u32 option" where
  "be32_at buf i = map_option get_be32 (slice buf (int i) (int i + 4))"

fun parse_counts :: "bytes \<Rightarrow> nat \<Rightarrow> nat \<Rightarrow> answerCount list option" where
  "parse_counts buf off 0 = Some []"
| "parse_counts buf off (Suc n) = do {
     c \<leftarrow> be32_at buf off;
     p \<leftarrow> be32_at buf (off + 4);
     rest \<leftarrow> parse_counts buf (off + 8) n;
     Some (\<lparr>ac_cur = c, ac_prev = p\<rparr> # rest)
   }"

definition parseAnswer ::
  "bytes \<Rightarrow> u32 \<Rightarrow> opNums \<Rightarrow> (answer_err + answerCount list) option" where
  "parseAnswer buf n wantNums =
     (if length buf < hdrLen then Some (Inl (ErrShort (length buf)))
      else do {
        l \<leftarrow> be16_at buf 0;
        op \<leftarrow> idx buf 3;
        h \<leftarrow> be32_at buf 8;
        p \<leftarrow> be32_at buf 12;
        r \<leftarrow> be32_at buf 16;
        let pktLen = unat l;
        let want = hdrLen + unat n * 8 + sigLen;
        if h \<noteq> on_h wantNums \<or> p \<noteq> on_p wantNums \<or> r \<noteq> on_r wantNums
        then Some (Inl ErrMismatch)
        else if op = opError
        then Some (Inl (ErrServer (trimNul (take 128 (drop hdrLen buf)))))
        else if op \<noteq> opAnswer then Some (Inl (ErrOp op))
        else if pktLen \<noteq> want \<or> length buf < want then Some (Inl (ErrLen pktLen want))
        else map_option Inr (parse_counts buf hdrLen (unat n))
      })"

section \<open>Packets as concatenations\<close>

text \<open>The wire layout a packet is meant to have, field after field.\<close>

definition wire_ck :: "Checksum \<Rightarrow> bytes" where
  "wire_ck c = [ck_Type c, of_nat ckLen] @ ck_Sum c"

definition wire_hdr :: "nat \<Rightarrow> byte \<Rightarrow> u32 \<Rightarrow> opNums \<Rightarrow> bytes" where
  "wire_hdr pktLen op sender nums =
     put_be16 (of_nat pktLen) @ [dccPktVers, op] @ put_be32 sender
     @ put_be32 (on_h nums) @ put_be32 (on_p nums) @ put_be32 (on_r nums) @ put_be32 (on_t nums)"

definition wire_query :: "byte \<Rightarrow> u32 \<Rightarrow> opNums \<Rightarrow> u32 \<Rightarrow> Checksum list \<Rightarrow> bytes" where
  "wire_query op sender nums tgts rs =
     wire_hdr (44 + 18 * length rs) op sender nums @ put_be32 tgts @ concat (map wire_ck rs)"

definition wire_sig :: "bytes \<Rightarrow> bytes \<Rightarrow> bytes" where
  "wire_sig passwd body = (if passwd = [] then replicate 16 0 else md5_digest (passwd @ body))"

definition sums_ok :: "Checksum list \<Rightarrow> bool" where
  "sums_ok cks \<longleftrightarrow> list_all (\<lambda>c. length (ck_Sum c) = 16) cks"

text \<open>A run of writes at consecutive offsets of a zeroed buffer concatenates the fields.\<close>

fun put_seq :: "nat \<Rightarrow> bytes list \<Rightarrow> bytes \<Rightarrow> bytes" where
  "put_seq off [] buf = buf"
| "put_seq off (f # fs) buf = put_seq (off + length f) fs (copy_at buf off f)"

lemma put_seq_append:
  "put_seq off (fs @ gs) buf = put_seq (off + length (concat fs)) gs (put_seq off fs buf)"
  by (induction fs arbitrary: off buf) (simp_all add: add.assoc)

lemma put_seq_layout:
  "length (concat fs) = k \<Longrightarrow>
   put_seq (length pre) fs (pre @ replicate (k + m) 0) = pre @ concat fs @ replicate m 0"
proof (induction fs arbitrary: pre k)
  case (Cons f fs)
  from Cons.prems have k: "k = length f + length (concat fs)" by simp
  have "copy_at (pre @ replicate (k + m) 0) (length pre) f
      = (pre @ f) @ replicate (length (concat fs) + m) 0"
    by (simp add: copy_at_def k)
  with Cons.IH [of "length (concat fs)" "pre @ f"] show ?case by simp
qed simp

definition ck_fields :: "Checksum \<Rightarrow> bytes list" where
  "ck_fields c = [[ck_Type c], [of_nat ckLen], ck_Sum c]"

lemma concat_ck_fields: "concat (ck_fields c) = wire_ck c"
  by (simp add: ck_fields_def wire_ck_def)

lemma upd_put_at: "upd buf i x = put_at buf i [x]"
  by (simp add: upd_def put_at_def copy_at_def upd_conv_take_nth_drop)

lemma put_cks_seq:
  "sums_ok cs \<Longrightarrow> off + 18 * length cs \<le> length buf \<Longrightarrow>
   put_cks off cs buf = Some (put_seq off (concat (map ck_fields cs)) buf)"
proof (induction off cs buf rule: put_cks.induct)
  case (2 off c cs buf)
  let ?buf = "copy_at (copy_at buf off [ck_Type c]) (off + 1) [of_nat ckLen]"
  have len: "length ?buf = length buf" "length (ck_Sum c) = 16" "off + 18 + 18 * length cs \<le> length buf"
    using "2.prems" by (simp_all add: sums_ok_def)
  have step: "put_cks off (c # cs) buf = put_cks (off + ckLen) cs (copy_at ?buf (off + 2) (ck_Sum c))"
    using len by (simp add: upd_put_at put_at_def nslice_def)
  have "put_cks (off + ckLen) cs (copy_at ?buf (off + 2) (ck_Sum c))
      = Some (put_seq (off + ckLen) (concat (map ck_fields cs)) (copy_at ?buf (off + 2) (ck_Sum c)))"
    using "2.IH" "2.prems" len by (simp add: upd_put_at put_at_def nslice_def ckLen_def sums_ok_def)
  then show ?case
    unfolding step using len(2) by (simp add: ck_fields_def [of c] ckLen_def add.commute)
qed simp

definition query_fields ::
  "byte \<Rightarrow> u32 \<Rightarrow> opNums \<Rightarrow> u32 \<Rightarrow> Checksum list \<Rightarrow> bytes list" where
  "query_fields op sender nums tgts rs =
     [put_be16 (of_nat (44 + 18 * length rs)), [dccPktVers], [op], put_be32 sender,
      put_be32 (on_h nums), put_be32 (on_p nums), put_be32 (on_r nums), put_be32 (on_t nums),
      put_be32 tgts] @ concat (map ck_fields rs)"

lemma concat_query_fields: "concat (query_fields op sender nums tgts rs) = wire_query op sender nums tgts rs"
  by (induction rs) (simp_all add: query_fields_def wire_query_def wire_hdr_def concat_ck_fields)

lemma length_wire_cks: "sums_ok rs \<Longrightarrow> length (concat (map wire_ck rs)) = 18 * length rs"
  by (induction rs) (simp_all add: wire_ck_def sums_ok_def)

lemma length_wire_query: "sums_ok rs \<Longrightarrow> length (wire_query op sender nums tgts rs) = 28 + 18 * length rs"
  using length_wire_cks [of rs] by (simp add: wire_query_def wire_hdr_def)

lemma signPacket_sig:
  "length sig = 16 \<Longrightarrow> signPacket (body @ sig) passwd = Some (body @ wire_sig passwd body)"
  by (simp add: signPacket_def sigLen_def wire_sig_def md5_write_write md5_sum_digest Let_def)

lemma sums_ok_reportable: "sums_ok cks \<Longrightarrow> sums_ok (reportable cks)"
  by (auto simp: sums_ok_def reportable_def list_all_iff)

lemma build_layout:
  assumes "sums_ok cks"
  shows "buildQuery op sender nums tgts cks passwd =
     (let body = wire_query op sender nums tgts (reportable cks)
      in Some (body @ wire_sig passwd body))"
proof -
  let ?rs = "reportable cks"
  let ?fs = "query_fields op sender nums tgts ?rs"
  let ?k = "28 + 18 * length ?rs"
  have ok: "sums_ok ?rs" using assms by (rule sums_ok_reportable)
  have "length (concat ?fs) = ?k"
    using length_wire_query [OF ok] by (simp add: concat_query_fields)
  from put_seq_layout [OF this, of "[]" 16]
  have "put_seq 0 ?fs (replicate (?k + 16) 0) = wire_query op sender nums tgts ?rs @ replicate 16 0"
    by (simp add: concat_query_fields)
  moreover have "buildQuery op sender nums tgts cks passwd
      = signPacket (put_seq 0 ?fs (replicate (?k + 16) 0)) passwd"
  proof -
    have n: "hdrLen + 4 + length ?rs * ckLen + sigLen = 44 + 18 * length ?rs" "?k + 16 = 44 + 18 * length ?rs"
      by (simp_all add: proto_consts)
    show ?thesis
      unfolding buildQuery_def Let_def n query_fields_def put_seq_append
      by (simp add: upd_put_at put_at_def put_cks_seq [OF ok]) (simp add: eval_nat_numeral)
  qed
  ultimately show ?thesis
    by (simp add: signPacket_sig Let_def)
qed

text \<open>
  C32. \<^verbatim>\<open>buildQuery\<close> never panics, and the packet it builds is the wire layout: length, version,
  opcode, sender, the four transaction numbers and the target count, then an 18-byte record
  for each reportable checksum in order, then the signature (zero for the anonymous client,
  otherwise the MD5 of password and packet).
\<close>
theorem buildQuery_layout:
  assumes "sums_ok cks"
  shows "buildQuery op sender nums tgts cks passwd =
     (let body = wire_query op sender nums tgts (reportable cks)
      in Some (body @ wire_sig passwd body))"
  by (rule build_layout [OF assms])

theorem buildQuery_layout_witness:
  "buildQuery opQuery 1 \<lparr>on_h = 1, on_p = 2, on_r = 3, on_t = 4\<rparr> 0
     [\<lparr>ck_Type = CkBody, ck_Label = [], ck_Sum = replicate 16 7, ck_Report = True\<rparr>] []
   = Some (wire_query opQuery 1 \<lparr>on_h = 1, on_p = 2, on_r = 3, on_t = 4\<rparr> 0
       [\<lparr>ck_Type = CkBody, ck_Label = [], ck_Sum = replicate 16 7, ck_Report = True\<rparr>]
       @ replicate 16 0)"
  by (subst buildQuery_layout) (simp_all add: sums_ok_def Let_def wire_sig_def reportable_def)

section \<open>Signatures and answers\<close>

lemma length_wire_sig [simp]: "length (wire_sig passwd body) = 16"
  by (simp add: wire_sig_def)

text \<open>
  What one side signs the other accepts, and nothing else passes for a keyed client:
  a packet verifies exactly when its last 16 bytes are the MD5 of the password followed by
  the rest.  Short packets never verify; an anonymous client accepts anything.
\<close>
theorem verifyAnswerSig_correct:
  "verifyAnswerSig buf passwd \<longleftrightarrow>
     passwd = [] \<or> (\<exists>body. signPacket (body @ replicate 16 0) passwd = Some buf)"
proof (cases "passwd = []")
  case False
  have sig: "signPacket (body @ replicate 16 0) passwd = Some (body @ md5_digest (passwd @ body))" for body
    using signPacket_sig [of "replicate 16 0" body passwd] False by (simp add: wire_sig_def)
  have "verifyAnswerSig buf passwd \<longleftrightarrow> (\<exists>body. body @ md5_digest (passwd @ body) = buf)"
  proof
    assume "verifyAnswerSig buf passwd"
    then have "take (length buf - 16) buf @ md5_digest (passwd @ take (length buf - 16) buf) = buf"
      using False by (simp add: verifyAnswerSig_def sigLen_def md5_write_write md5_sum_digest
          split: if_splits)
    then show "\<exists>body. body @ md5_digest (passwd @ body) = buf" ..
  next
    assume "\<exists>body. body @ md5_digest (passwd @ body) = buf"
    then show "verifyAnswerSig buf passwd"
      by (auto simp: verifyAnswerSig_def sigLen_def md5_write_write md5_sum_digest)
  qed
  with False sig show ?thesis by simp
qed (simp add: verifyAnswerSig_def)

lemma resign_rebuild:
  assumes "sums_ok cks" and "buildQuery op sender nums tgts cks passwd = Some pkt"
  shows "signPacket (copy_at pkt 20 (put_be32 t)) passwd
       = buildQuery op sender (nums\<lparr>on_t := t\<rparr>) tgts cks passwd"
proof -
  let ?a = "put_be16 (of_nat (44 + 18 * length (reportable cks))) @ [dccPktVers, op] @ put_be32 sender
     @ put_be32 (on_h nums) @ put_be32 (on_p nums) @ put_be32 (on_r nums)"
  let ?c = "put_be32 tgts @ concat (map wire_ck (reportable cks))"
  let ?sig = "wire_sig passwd (wire_query op sender nums tgts (reportable cks))"
  have pkt: "pkt = ?a @ put_be32 (on_t nums) @ ?c @ ?sig"
    using assms by (simp add: build_layout Let_def wire_query_def wire_hdr_def)
  have "copy_at pkt 20 (put_be32 t) = (?a @ put_be32 t @ ?c) @ ?sig"
    unfolding pkt copy_at_def by simp
  then show ?thesis
    by (simp only: signPacket_sig length_wire_sig)
      (simp add: build_layout [OF assms(1)] Let_def wire_query_def wire_hdr_def)
qed

text \<open>
  Retransmission: overwriting bytes 20 to 24 of a built packet with a new transmit
  number and signing it again gives the packet \<^verbatim>\<open>buildQuery\<close> would have built with that number.
\<close>
theorem retransmit_is_rebuild:
  assumes "sums_ok cks" and "buildQuery op sender nums tgts cks passwd = Some pkt"
  shows "signPacket (copy_at pkt 20 (put_be32 t)) passwd
       = buildQuery op sender (nums\<lparr>on_t := t\<rparr>) tgts cks passwd"
  by (rule resign_rebuild [OF assms])

theorem retransmit_is_rebuild_witness:
  "\<exists>pkt. buildQuery opReport 7 \<lparr>on_h = 1, on_p = 2, on_r = 3, on_t = 0\<rparr> 1 [] [1] = Some pkt
     \<and> signPacket (copy_at pkt 20 (put_be32 1)) [1]
         = buildQuery opReport 7 \<lparr>on_h = 1, on_p = 2, on_r = 3, on_t = 1\<rparr> 1 [] [1]"
proof -
  have ok: "sums_ok []" by (simp add: sums_ok_def)
  obtain pkt where p: "buildQuery opReport 7 \<lparr>on_h = 1, on_p = 2, on_r = 3, on_t = 0\<rparr> 1 [] [1] = Some pkt"
    using build_layout [OF ok] by (simp add: Let_def)
  from retransmit_is_rebuild [OF ok p, of 1] p show ?thesis by auto
qed

lemma be_at [simp]:
  "i + 2 \<le> length buf \<Longrightarrow> be16_at buf i = Some (get_be16 (take 2 (drop i buf)))"
  "i + 4 \<le> length buf \<Longrightarrow> be32_at buf i = Some (get_be32 (take 4 (drop i buf)))"
  by (simp_all add: be16_at_def be32_at_def)

lemma parse_counts_returns [returns]:
  "off + 8 * n \<le> length buf \<Longrightarrow> \<exists>r. parse_counts buf off n = Some r \<and> length r = n"
proof (induction n arbitrary: off)
  case (Suc n)
  from Suc.prems Suc.IH [of "off + 8"] obtain r where
    "parse_counts buf (off + 8) n = Some r" "length r = n" by auto
  with Suc.prems show ?case by simp
qed simp

lemma parse_answer:
  "case parseAnswer buf n want of
     None \<Rightarrow> False
   | Some (Inl _) \<Rightarrow> True
   | Some (Inr counts) \<Rightarrow>
       length counts = unat n \<and> 40 + 8 * unat n \<le> length buf
       \<and> unat (get_be16 (take 2 buf)) = 40 + 8 * unat n \<and> buf ! 3 = opAnswer
       \<and> get_be32 (take 4 (drop 8 buf)) = on_h want \<and> get_be32 (take 4 (drop 12 buf)) = on_p want
       \<and> get_be32 (take 4 (drop 16 buf)) = on_r want"
proof (cases "length buf < hdrLen")
  case True
  then show ?thesis by (simp add: parseAnswer_def)
next
  case False
  then have len: "24 \<le> length buf" by (simp add: proto_consts)
  show ?thesis
  proof (cases "40 + 8 * unat n \<le> length buf")
    case True
    then obtain r where "parse_counts buf hdrLen (unat n) = Some r" "length r = unat n"
      using parse_counts_returns [of hdrLen "unat n" buf] by (auto simp: proto_consts)
    with True len show ?thesis
      by (simp add: parseAnswer_def Let_def proto_consts)
  next
    case False
    with len show ?thesis by (simp add: parseAnswer_def Let_def proto_consts)
  qed
qed

text \<open>
  C34. Parsing a datagram never panics, whatever the bytes.  When it yields counts, there
  is one per queried checksum, the datagram is an answer long enough to hold them and the
  signature, its length field agrees, and it carries the host, process and report numbers of the
  request: a datagram of another transaction never yields counts.
\<close>
theorem parseAnswer_safe:
  "case parseAnswer buf n want of
     None \<Rightarrow> False
   | Some (Inl _) \<Rightarrow> True
   | Some (Inr counts) \<Rightarrow>
       length counts = unat n \<and> 40 + 8 * unat n \<le> length buf
       \<and> unat (get_be16 (take 2 buf)) = 40 + 8 * unat n \<and> buf ! 3 = opAnswer
       \<and> get_be32 (take 4 (drop 8 buf)) = on_h want \<and> get_be32 (take 4 (drop 12 buf)) = on_p want
       \<and> get_be32 (take 4 (drop 16 buf)) = on_r want"
  by (rule parse_answer)

definition wire_count :: "answerCount \<Rightarrow> bytes" where
  "wire_count a = put_be32 (ac_cur a) @ put_be32 (ac_prev a)"

definition wire_answer :: "u32 \<Rightarrow> opNums \<Rightarrow> answerCount list \<Rightarrow> bytes \<Rightarrow> bytes" where
  "wire_answer sender nums counts sig =
     wire_hdr (40 + 8 * length counts) opAnswer sender nums @ concat (map wire_count counts) @ sig"

lemma length_wire_counts [simp]: "length (concat (map wire_count cs)) = 8 * length cs"
  by (induction cs) (simp_all add: wire_count_def)

lemma parse_counts_wire:
  "length pre = off \<Longrightarrow> parse_counts (pre @ concat (map wire_count cs) @ post) off (length cs) = Some cs"
proof (induction cs arbitrary: pre off)
  case (Cons a cs)
  have "pre @ concat (map wire_count (a # cs)) @ post
      = (pre @ wire_count a) @ concat (map wire_count cs) @ post" by simp
  moreover have "length (pre @ wire_count a) = off + 8"
    using Cons.prems by (simp add: wire_count_def)
  ultimately have "parse_counts (pre @ concat (map wire_count (a # cs)) @ post) (off + 8) (length cs) = Some cs"
    using Cons.IH [of "pre @ wire_count a" "off + 8"] by simp
  with Cons.prems show ?case
    using get_put_be32 [of "ac_cur a" "[]"] get_put_be32 [of "ac_prev a" "[]"]
    by (simp add: wire_count_def [of a])
qed simp

lemma parse_wire_answer:
  assumes "40 + 8 * length counts < 2 ^ 16" and "length sig = 16"
  shows "parseAnswer (wire_answer sender nums counts sig) (of_nat (length counts)) want =
     Some (if on_h nums = on_h want \<and> on_p nums = on_p want \<and> on_r nums = on_r want
           then Inr counts else Inl ErrMismatch)"
proof -
  let ?h = "wire_hdr (40 + 8 * length counts) opAnswer sender nums"
  let ?b = "wire_answer sender nums counts sig"
  have h: "length ?h = 24" by (simp add: wire_hdr_def)
  have l: "length ?b = 40 + 8 * length counts"
    by (simp add: wire_answer_def h assms(2))
  have n: "unat (of_nat (length counts) :: u32) = length counts"
    and p: "unat (of_nat (40 + 8 * length counts) :: u16) = 40 + 8 * length counts"
    using assms(1) by (simp_all add: unat_of_nat del: of_nat_add of_nat_mult)
  have f: "take 2 ?b = put_be16 (of_nat (40 + 8 * length counts))" "?b ! 3 = opAnswer"
    "take 4 (drop 8 ?b) = put_be32 (on_h nums)" "take 4 (drop 12 ?b) = put_be32 (on_p nums)"
    "take 4 (drop 16 ?b) = put_be32 (on_r nums)"
    by (simp_all add: wire_answer_def wire_hdr_def nth_append)
  have g: "get_be32 (put_be32 w) = w" "get_be16 (put_be16 v) = v" for w v
    using get_put_be32 [of w "[]"] get_put_be16 [of v "[]"] by simp_all
  have c: "parse_counts ?b 24 (length counts) = Some counts"
    unfolding wire_answer_def by (rule parse_counts_wire [OF h])
  show ?thesis
    using l n p c f g
    by (simp add: parseAnswer_def Let_def proto_consts opAnswer_def opError_def)
qed

text \<open>
  C33. The answer a server sends to a request of \<open>n\<close> checksums parses back to the counts it
  holds, in order, when its transaction numbers are ours, and to the mismatch error (on
  which the client keeps waiting) when one of them is not.
\<close>
theorem parseAnswer_roundtrip:
  assumes "40 + 8 * length counts < 2 ^ 16" and "length sig = 16"
  shows "parseAnswer (wire_answer sender nums counts sig) (of_nat (length counts)) want =
     Some (if on_h nums = on_h want \<and> on_p nums = on_p want \<and> on_r nums = on_r want
           then Inr counts else Inl ErrMismatch)"
  by (rule parse_wire_answer [OF assms])

theorem parseAnswer_roundtrip_witness:
  "parseAnswer (wire_answer 1 \<lparr>on_h = 1, on_p = 2, on_r = 3, on_t = 4\<rparr>
       [\<lparr>ac_cur = 5, ac_prev = 4\<rparr>] (replicate 16 0)) 1 \<lparr>on_h = 1, on_p = 2, on_r = 3, on_t = 9\<rparr>
     = Some (Inr [\<lparr>ac_cur = 5, ac_prev = 4\<rparr>])"
  using parseAnswer_roundtrip [of "[\<lparr>ac_cur = 5, ac_prev = 4\<rparr>]" "replicate 16 0" 1
      "\<lparr>on_h = 1, on_p = 2, on_r = 3, on_t = 4\<rparr>" "\<lparr>on_h = 1, on_p = 2, on_r = 3, on_t = 9\<rparr>"]
  by simp

end
