(* ===== verification/Result.thy ===== *)
theory Result
  imports Proto
begin

text \<open>
  \<^verbatim>\<open>dcc/result.go\<close>: the counts of an answer and the verdict drawn from them.  A
  \<^verbatim>\<open>Result\<close> is its list of counts; \<^verbatim>\<open>Verdict.Bulk\<close> is a pointer to an int, so an optional
  integer.
\<close>

record CkCount =
  cc_Type :: CkType
  cc_Label :: bytes
  cc_Cur :: u32
  cc_Prev :: u32

type_synonym Result = "CkCount list"

definition IsMany :: "CkCount \<Rightarrow> bool" where
  "IsMany c \<longleftrightarrow> cc_Cur c \<ge> dccTgtsTooMany \<and> cc_Cur c \<le> dccTgtsMask"

definition IsWhite :: "CkCount \<Rightarrow> bool" where
  "IsWhite c \<longleftrightarrow> cc_Cur c = dccTgtsOK \<or> cc_Cur c = dccTgtsOK2"

definition isBodyType :: "CkType \<Rightarrow> bool" where
  "isBodyType t \<longleftrightarrow> t \<ge> CkBody \<and> t \<le> CkFuz2"

fun BodyCount_loop :: "Result \<Rightarrow> u32 \<times> bool \<Rightarrow> u32 \<times> bool" where
  "BodyCount_loop [] acc = acc"
| "BodyCount_loop (c # cs) (m, have_it) =
     (if isBodyType (cc_Type c)
      then BodyCount_loop cs (if cc_Cur c > m then cc_Cur c else m, True)
      else BodyCount_loop cs (m, have_it))"

definition BodyCount :: "Result \<Rightarrow> u32 \<times> bool" where
  "BodyCount r = BodyCount_loop r (0, False)"

fun Whitelisted :: "Result \<Rightarrow> bool" where
  "Whitelisted [] = False"
| "Whitelisted (c # cs) = (if isBodyType (cc_Type c) \<and> IsWhite c then True else Whitelisted cs)"

datatype Action = ActionUnknown | ActionAccept | ActionReject

definition Action_String :: "Action \<Rightarrow> bytes" where
  "Action_String a =
     (case a of ActionAccept \<Rightarrow> str ''accept'' | ActionReject \<Rightarrow> str ''reject''
      | ActionUnknown \<Rightarrow> str ''unknown'')"

record Verdict =
  v_Action :: Action
  v_Bulk :: "int option"

definition VerdictThreshold :: "Result \<Rightarrow> u32 \<Rightarrow> Verdict" where
  "VerdictThreshold r threshold =
     (if Whitelisted r then \<lparr>v_Action = ActionAccept, v_Bulk = None\<rparr>
      else case BodyCount r of (count, have_it) \<Rightarrow>
        if have_it \<and> count \<ge> threshold
        then \<lparr>v_Action = ActionReject, v_Bulk = Some (uint count)\<rparr>
        else \<lparr>v_Action = ActionUnknown, v_Bulk = None\<rparr>)"

definition Verdict_of :: "Result \<Rightarrow> Verdict" where
  "Verdict_of r = VerdictThreshold r dccTgtsTooMany"

section \<open>What a verdict means\<close>

text \<open>The current counts of the body checksums in a result.\<close>

definition body_counts :: "Result \<Rightarrow> u32 list" where
  "body_counts r = map cc_Cur (filter (\<lambda>c. isBodyType (cc_Type c)) r)"

lemma BodyCount_loop_eq:
  "BodyCount_loop r (m, h) = (fold max (body_counts r) m, h \<or> body_counts r \<noteq> [])"
  by (induction r "(m, h)" arbitrary: m h rule: BodyCount_loop.induct)
    (auto simp: body_counts_def max_def)

lemma BodyCount_eq: "BodyCount r = (fold max (body_counts r) 0, body_counts r \<noteq> [])"
  by (simp add: BodyCount_def BodyCount_loop_eq)

lemma fold_max_ge: "(t :: 'a :: linorder) \<le> fold max xs m \<longleftrightarrow> t \<le> m \<or> (\<exists>x \<in> set xs. t \<le> x)"
  by (induction xs arbitrary: m) (auto simp: le_max_iff_disj)

lemma fold_max_in: "fold max xs (m :: 'a :: linorder) \<in> insert m (set xs)"
  by (induction xs arbitrary: m) (auto simp: max_def)

lemma fold_max_Max: "xs \<noteq> [] \<Longrightarrow> fold max xs (0 :: u32) = Max (set xs)"
  by (cases xs) (simp_all add: Max.set_eq_fold [symmetric])

lemma Whitelisted_iff:
  "Whitelisted r \<longleftrightarrow> dccTgtsOK \<in> set (body_counts r) \<or> dccTgtsOK2 \<in> set (body_counts r)"
  by (induction r) (auto simp: body_counts_def IsWhite_def)

text \<open>
  C35. The verdict is decided by the body checksums alone: accept when the server certified
  one of them as not spam, otherwise reject, with the largest count, when one of them
  reaches the threshold, otherwise unknown.  A whitelist wins over any count.
\<close>
theorem verdict_decision:
  "v_Action (VerdictThreshold r t) =
     (if dccTgtsOK \<in> set (body_counts r) \<or> dccTgtsOK2 \<in> set (body_counts r) then ActionAccept
      else if \<exists>n \<in> set (body_counts r). t \<le> n then ActionReject else ActionUnknown)
   \<and> v_Bulk (VerdictThreshold r t) =
     (if v_Action (VerdictThreshold r t) = ActionReject
      then Some (uint (Max (set (body_counts r)))) else None)"
proof (cases "body_counts r = []")
  case True
  then show ?thesis
    by (simp add: VerdictThreshold_def Whitelisted_iff BodyCount_eq)
next
  case False
  have "t \<le> Max (set (body_counts r)) \<longleftrightarrow> (\<exists>n \<in> set (body_counts r). t \<le> n)"
    using False by (simp add: Max_ge_iff)
  with False show ?thesis
    by (simp add: VerdictThreshold_def Whitelisted_iff BodyCount_eq fold_max_Max)
qed

end
