(* ===== verification/Cref_Table.thy ===== *)
theory Cref_Table
  imports Prelude
begin

text \<open>\<^verbatim>\<open>dcc/cref_table.go\<close>: the 131 buckets of HTML character-reference names, byte for byte; a nil bucket is the empty list.\<close>

definition crefTbl :: "bytes list" where
  "crefTbl = [
    [6, 104, 101, 108, 108, 105, 112, 32],
    [6, 67, 99, 101, 100, 105, 108, 199, 4, 101, 109, 115, 112, 32],
    [5, 73, 99, 105, 114, 99, 206, 3, 69, 84, 72, 208],
    [6, 121, 97, 99, 117, 116, 101, 253],
    [],
    [],
    [2, 103, 116, 62, 6, 85, 97, 99, 117, 116, 101, 218, 4, 97, 117, 109, 108, 228, 6, 111, 115, 108, 97, 115, 104, 248],
    [],
    [4, 99, 111, 112, 121, 169],
    [3, 114, 101, 103, 174, 6, 65, 97, 99, 117, 116, 101, 193, 4, 117, 117, 109, 108, 252],
    [],
    [6, 79, 103, 114, 97, 118, 101, 210, 6, 116, 104, 105, 110, 115, 112, 32],
    [3, 117, 109, 108, 168],
    [],
    [],
    [],
    [6, 117, 103, 114, 97, 118, 101, 249],
    [],
    [5, 97, 99, 117, 116, 101, 180],
    [4, 110, 98, 115, 112, 160, 6, 97, 103, 114, 97, 118, 101, 224],
    [],
    [5, 65, 69, 108, 105, 103, 198],
    [],
    [6, 79, 97, 99, 117, 116, 101, 211],
    [],
    [6, 73, 103, 114, 97, 118, 101, 204],
    [6, 110, 116, 105, 108, 100, 101, 241],
    [5, 65, 99, 105, 114, 99, 194],
    [4, 69, 117, 109, 108, 203],
    [],
    [5, 85, 99, 105, 114, 99, 219],
    [],
    [5, 99, 101, 100, 105, 108, 184],
    [5, 108, 100, 113, 117, 111, 32],
    [6, 89, 97, 99, 117, 116, 101, 221],
    [4, 109, 97, 99, 114, 175],
    [],
    [6, 79, 115, 108, 97, 115, 104, 216, 4, 101, 110, 115, 112, 32],
    [],
    [],
    [],
    [],
    [],
    [],
    [],
    [],
    [],
    [6, 85, 103, 114, 97, 118, 101, 217],
    [],
    [5, 101, 99, 105, 114, 99, 234, 5, 108, 115, 113, 117, 111, 32],
    [6, 65, 103, 114, 97, 118, 101, 192, 5, 114, 100, 113, 117, 111, 32],
    [],
    [],
    [5, 115, 122, 108, 105, 103, 223],
    [],
    [3, 115, 104, 121, 173],
    [5, 108, 97, 113, 117, 111, 171, 6, 101, 97, 99, 117, 116, 101, 233],
    [6, 78, 116, 105, 108, 100, 101, 209],
    [6, 97, 116, 105, 108, 100, 101, 227, 4, 98, 117, 108, 108, 32],
    [4, 101, 117, 109, 108, 235],
    [],
    [5, 97, 114, 105, 110, 103, 229],
    [4, 121, 117, 109, 108, 255],
    [5, 111, 99, 105, 114, 99, 244, 5, 115, 98, 113, 117, 111, 32],
    [],
    [5, 116, 104, 111, 114, 110, 254],
    [5, 114, 115, 113, 117, 111, 32],
    [],
    [],
    [],
    [],
    [],
    [6, 111, 116, 105, 108, 100, 101, 245],
    [5, 114, 97, 113, 117, 111, 187],
    [],
    [6, 114, 115, 97, 113, 117, 111, 32],
    [3, 101, 116, 104, 240],
    [],
    [],
    [],
    [5, 69, 99, 105, 114, 99, 202],
    [4, 73, 117, 109, 108, 207],
    [],
    [4, 113, 117, 111, 116, 34, 4, 97, 112, 111, 115, 39],
    [6, 105, 97, 99, 117, 116, 101, 237, 6, 100, 97, 103, 103, 101, 114, 32],
    [],
    [],
    [6, 69, 97, 99, 117, 116, 101, 201],
    [],
    [6, 65, 116, 105, 108, 100, 101, 195],
    [3, 122, 119, 106, 32],
    [],
    [5, 65, 114, 105, 110, 103, 197],
    [],
    [5, 79, 99, 105, 114, 99, 212, 5, 97, 101, 108, 105, 103, 230],
    [4, 79, 117, 109, 108, 214],
    [],
    [6, 101, 103, 114, 97, 118, 101, 232],
    [],
    [],
    [5, 98, 100, 113, 117, 111, 32],
    [5, 105, 101, 120, 99, 108, 161, 6, 99, 99, 101, 100, 105, 108, 231],
    [5, 105, 99, 105, 114, 99, 238],
    [6, 79, 116, 105, 108, 100, 101, 213],
    [],
    [2, 108, 116, 60],
    [4, 65, 117, 109, 108, 196, 6, 117, 97, 99, 117, 116, 101, 250],
    [],
    [],
    [4, 85, 117, 109, 108, 220, 6, 97, 97, 99, 117, 116, 101, 225],
    [],
    [6, 111, 103, 114, 97, 118, 101, 242],
    [4, 105, 117, 109, 108, 239],
    [],
    [],
    [6, 73, 97, 99, 117, 116, 101, 205],
    [],
    [6, 108, 115, 97, 113, 117, 111, 32],
    [],
    [],
    [6, 105, 113, 117, 101, 115, 116, 191],
    [5, 84, 72, 79, 82, 78, 222],
    [],
    [6, 111, 97, 99, 117, 116, 101, 243],
    [],
    [6, 105, 103, 114, 97, 118, 101, 236],
    [4, 111, 117, 109, 108, 246],
    [5, 97, 99, 105, 114, 99, 226],
    [6, 69, 103, 114, 97, 118, 101, 200],
    [],
    [5, 117, 99, 105, 114, 99, 251]]"

end
