(* ===== verification/Cref.thy ===== *)
theory Cref
  imports Checksum Cref_Table
begin

text \<open>
  \<^verbatim>\<open>dcc/cref.go\<close> and \<^verbatim>\<open>dcc/cref_lookup.go\<close>: the decoder of HTML character references that
  the URL scanner and the HTML text scanner share.  \<open>cref_step\<close> returns Go's result code
  beside the new state: \<open>-1\<close> more input, \<open>0\<close> done with this byte, \<open>1\<close> done before it.
\<close>

datatype crefSt = CrefIdle | CrefStart | CrefNum | CrefDec | CrefHex | CrefName

record ckCref =
  cr_st :: crefSt
  cr_w :: bytes
  cr_length :: nat
  cr_result :: byte

definition word_clear :: bytes where
  "word_clear = replicate 16 0"

section \<open>Named references\<close>

definition word_hash :: "bytes \<Rightarrow> u32" where
  "word_hash w = be32 (take 4 w) XOR be32 (take 4 (drop 4 w))
               XOR be32 (take 4 (drop 8 w)) XOR be32 (take 4 (drop 12 w))"

function lookupCref_loop :: "bytes \<Rightarrow> bytes \<Rightarrow> nat \<Rightarrow> nat \<Rightarrow> byte option" where
  "lookupCref_loop bucket w clen p =
     (if p \<ge> length bucket then Some 0
      else let n = unat (bucket ! p); p = p + 1
        in if n = 0 then Some 0
           else if n = clen then do {
             a \<leftarrow> nslice bucket p (p + n);
             b \<leftarrow> nslice w 0 n;
             if a = b then idx bucket (p + clen)
             else lookupCref_loop bucket w clen (p + n + 1)
           }
           else lookupCref_loop bucket w clen (p + n + 1))"
  by pat_completeness auto
termination
  by (relation "measure (\<lambda>(bucket, w, clen, p). length bucket - p)") auto

declare lookupCref_loop.simps [simp del]

definition lookupCref :: "bytes \<Rightarrow> nat \<Rightarrow> byte option" where
  "lookupCref w clen =
     (if clen > length w \<or> clen = 0 then Some 0
      else do {
        bucket \<leftarrow> idx crefTbl (unat (word_hash w mod of_nat (length crefTbl)));
        if bucket = [] then Some 0 else lookupCref_loop bucket w clen 0
      })"

section \<open>The decoder\<close>

definition boolToInt :: "bool \<Rightarrow> int" where
  "boolToInt b = (if b then 1 else 0)"

definition sat255 :: "nat \<Rightarrow> byte" where
  "sat255 n = of_nat (if n > 255 then 255 else n)"

definition cref_step :: "byte \<Rightarrow> ckCref \<Rightarrow> (ckCref \<times> int) option" where
  "cref_step uc cref =
     (case cr_st cref of
        CrefIdle \<Rightarrow> Some (cref\<lparr>cr_st := CrefStart\<rparr>, -1)
      | CrefStart \<Rightarrow>
          if uc = 0x23 then Some (cref\<lparr>cr_st := CrefNum\<rparr>, -1)
          else if isLower uc \<or> isUpper uc then do {
            w \<leftarrow> upd word_clear 0 uc;
            Some (cref\<lparr>cr_w := w, cr_length := 1, cr_st := CrefName\<rparr>, -1)
          }
          else Some (cref\<lparr>cr_st := CrefIdle\<rparr>, -1)
      | CrefNum \<Rightarrow>
          if uc = 0x78 \<or> uc = 0x58 then Some (cref\<lparr>cr_result := 0, cr_st := CrefHex\<rparr>, -1)
          else if 0x30 \<le> uc \<and> uc \<le> 0x39
          then Some (cref\<lparr>cr_result := uc - 0x30, cr_st := CrefDec\<rparr>, -1)
          else Some (cref\<lparr>cr_result := 0x23, cr_st := CrefIdle\<rparr>, 1)
      | CrefDec \<Rightarrow>
          if 0x30 \<le> uc \<and> uc \<le> 0x39
          then Some (cref\<lparr>cr_result := sat255 (unat (cr_result cref) * 10 + unat (uc - 0x30))\<rparr>, -1)
          else Some (cref\<lparr>cr_st := CrefIdle\<rparr>, boolToInt (uc \<noteq> 0x3b))
      | CrefHex \<Rightarrow>
          if (0x61 \<le> uc \<and> uc \<le> 0x66) \<or> (0x41 \<le> uc \<and> uc \<le> 0x46)
          then Some (cref\<lparr>cr_result := sat255 (unat (cr_result cref) * 16 + unat (uc AND 0xf) + 9)\<rparr>, -1)
          else if 0x30 \<le> uc \<and> uc \<le> 0x39
          then Some (cref\<lparr>cr_result := sat255 (unat (cr_result cref) * 16 + unat (uc - 0x30))\<rparr>, -1)
          else Some (cref\<lparr>cr_st := CrefIdle\<rparr>, boolToInt (uc \<noteq> 0x3b))
      | CrefName \<Rightarrow>
          if isLower uc \<or> isUpper uc \<or> isDigit uc then
            (if cr_length cref < length (cr_w cref) then do {
               w \<leftarrow> upd (cr_w cref) (cr_length cref) uc;
               Some (cref\<lparr>cr_w := w, cr_length := cr_length cref + 1\<rparr>, -1)
             }
             else Some (cref, -1))
          else do {
            r \<leftarrow> lookupCref (cr_w cref) (cr_length cref);
            Some (cref\<lparr>cr_result := r, cr_st := CrefIdle\<rparr>, boolToInt (uc \<noteq> 0x3b))
          })"

section \<open>The name table\<close>

text \<open>A bucket as it is meant: a run of entries, each a length, a name and a byte.\<close>

fun bucket_entries :: "bytes \<Rightarrow> (bytes \<times> byte) list" where
  "bucket_entries [] = []"
| "bucket_entries (n # r) =
     (if n = 0 then [] else (take (unat n) r, r ! unat n) # bucket_entries (drop (unat n + 1) r))"

fun bucket_ok :: "bytes \<Rightarrow> bool" where
  "bucket_ok [] = True"
| "bucket_ok (n # r) \<longleftrightarrow> n \<noteq> 0 \<and> unat n < length r \<and> unat n \<le> 16 \<and> bucket_ok (drop (unat n + 1) r)"

definition pad16 :: "bytes \<Rightarrow> bytes" where
  "pad16 s = s @ replicate (16 - length s) 0"

definition cref_entries :: "(bytes \<times> byte) list" where
  "cref_entries = concat (map bucket_entries crefTbl)"

lemma crefTbl_ok: "list_all bucket_ok crefTbl \<and> length crefTbl = 131"
  by code_simp

lemma cref_entries_hashed:
  "list_all (\<lambda>i. list_all (\<lambda>e. unat (word_hash (pad16 (fst e)) mod 131) = i) (bucket_entries (crefTbl ! i)))
     [0..<131]"
  by code_simp

lemma crefTbl_nth: "i < 131 \<Longrightarrow> bucket_ok (crefTbl ! i)"
  using crefTbl_ok by (simp add: list_all_length)

lemma map_of_bucketed:
  assumes "\<And>i e. i < length xs \<Longrightarrow> e \<in> set (f (xs ! i)) \<Longrightarrow> g (fst e) = i"
  shows "map_of (concat (map f xs)) k = (if g k < length xs then map_of (f (xs ! g k)) k else None)"
  using assms
proof (induction xs rule: rev_induct)
  case (snoc x xs)
  have "g (fst e) = i" if "i < length xs" "e \<in> set (f (xs ! i))" for i e
    using that snoc.prems [of i e] by (simp add: nth_append)
  then have "map_of (concat (map f xs)) k = (if g k < length xs then map_of (f (xs ! g k)) k else None)"
    by (rule snoc.IH)
  moreover have "map_of (f x) k = None" if "g k \<noteq> length xs"
    using that snoc.prems [of "length xs"] by (force simp: map_of_eq_None_iff)
  ultimately show ?case
    by (auto simp: map_add_def nth_append split: option.splits)
qed simp

lemma lookupCref_loop_eq:
  assumes "bucket_ok rest" "bucket = pre @ rest" "length w = 16" "0 < clen" "clen \<le> 16"
  shows "lookupCref_loop bucket w clen (length pre) =
    Some (case map_of (bucket_entries rest) (take clen w) of Some v \<Rightarrow> v | None \<Rightarrow> 0)"
  using assms
proof (induction rest arbitrary: pre rule: bucket_ok.induct)
  case 1
  then show ?case by (simp add: lookupCref_loop.simps)
next
  case (2 n r)
  let ?p = "length pre" and ?n = "unat n"
  have n: "0 < ?n" "?n < length r" "?n \<le> 16" "bucket_ok (drop (?n + 1) r)" "n \<noteq> 0"
    using "2.prems"(1) by (auto simp: unat_gt_0)
  have next_entry: "lookupCref_loop bucket w clen (?p + 1 + ?n + 1) =
    Some (case map_of (bucket_entries (drop (?n + 1) r)) (take clen w) of Some v \<Rightarrow> v | None \<Rightarrow> 0)"
    using "2.IH" [of "pre @ n # take (?n + 1) r"] "2.prems" n by simp
  show ?case
  proof (cases "?n = clen")
    case True
    then show ?thesis
      using "2.prems" n next_entry
      by (subst lookupCref_loop.simps)
        (auto simp: Let_def nth_append)
  next
    case False
    then have "take clen w \<noteq> take ?n r"
      using "2.prems" n by (metis length_take min.absorb2 order_less_imp_le)
    with False show ?thesis
      using "2.prems" n next_entry
      by (subst lookupCref_loop.simps) (auto simp: Let_def)
  qed
qed

lemma word_hash_bucket: "unat (word_hash w mod of_nat (length crefTbl)) < 131"
  using crefTbl_ok by (simp add: unat_mod)

lemma lookupCref_loop_bucket:
  assumes "length w = 16" "0 < clen" "clen \<le> 16"
  shows "lookupCref w clen = Some (case map_of (bucket_entries (crefTbl ! unat (word_hash w mod 131)))
           (take clen w) of Some v \<Rightarrow> v | None \<Rightarrow> 0)"
proof -
  have l: "length crefTbl = 131" using crefTbl_ok by simp
  have h: "unat (word_hash w mod 131) < 131" using word_hash_bucket [of w] by (simp add: l)
  with lookupCref_loop_eq [OF crefTbl_nth [OF h], of _ "[]"] assms l show ?thesis
    by (auto simp: lookupCref_def)
qed

lemma lookupCref_returns [returns]: "length w = 16 \<Longrightarrow> \<exists>r. lookupCref w clen = Some r"
  using lookupCref_loop_bucket [of w clen]
  by (cases "0 < clen \<and> clen \<le> 16") (auto simp: lookupCref_def)

text \<open>
  C37. The hash table is a correct dictionary: looking up any name of 1 to 16 bytes never
  panics and returns the byte the table holds for that name, or 0 when no bucket has it.
  So every entry sits in the bucket its hash selects and no entry hides another.
\<close>
theorem lookupCref_correct:
  assumes "1 \<le> length name" "length name \<le> 16"
  shows "lookupCref (pad16 name) (length name) =
    Some (case map_of cref_entries name of Some v \<Rightarrow> v | None \<Rightarrow> 0)"
proof -
  have l: "length (pad16 name) = 16" and t: "take (length name) (pad16 name) = name"
    using assms by (simp_all add: pad16_def)
  have ne: "name \<noteq> []" using assms by auto
  let ?g = "\<lambda>s. unat (word_hash (pad16 s) mod 131)"
  have "map_of cref_entries name = (if ?g name < length crefTbl
      then map_of (bucket_entries (crefTbl ! ?g name)) name else None)"
    unfolding cref_entries_def
    by (rule map_of_bucketed)
      (use cref_entries_hashed crefTbl_ok in \<open>auto simp: list_all_iff\<close>)
  then show ?thesis
    using lookupCref_loop_bucket [OF l, of "length name"] word_hash_bucket [of "pad16 name"] assms t ne
      crefTbl_ok by simp
qed

theorem lookupCref_correct_witness:
  "lookupCref (pad16 (str ''eacute'')) 6 = Some 233"
proof -
  have "map_of cref_entries (str ''eacute'') = Some 233" by code_simp
  with lookupCref_correct [of "str ''eacute''"] show ?thesis by (simp add: eval_nat_numeral)
qed

section \<open>The decoder never panics, and makes progress\<close>

definition cref_ok :: "ckCref \<Rightarrow> bool" where
  "cref_ok c \<longleftrightarrow> length (cr_w c) = 16 \<and> cr_length c \<le> 16"

lemma cref_step_returns [returns]:
  assumes "cref_ok c"
  shows "\<exists>c' i. cref_step uc c = Some (c', i) \<and> cref_ok c' \<and>
    (i = -1 \<or> (i = 0 \<or> i = 1) \<and> cr_st c' = CrefIdle \<and> cr_st c \<noteq> CrefIdle)"
proof -
  obtain r where "lookupCref (cr_w c) (cr_length c) = Some r"
    using lookupCref_returns assms by (auto simp: cref_ok_def)
  with assms show ?thesis
    by (cases "cr_st c") (auto simp: cref_step_def cref_ok_def boolToInt_def word_clear_def)
qed

section \<open>What a reference decodes to\<close>

text \<open>
  The loop both scanners run: feed bytes until the decoder reports a character, and put the
  last byte back when it was not the terminating semicolon.
\<close>

fun cref_feed :: "bytes \<Rightarrow> ckCref \<Rightarrow> (byte \<times> bytes) option option" where
  "cref_feed [] c = Some None"
| "cref_feed (b # bs) c =
     (case cref_step b c of
        None \<Rightarrow> None
      | Some (c', i) \<Rightarrow>
          if i < 0 then cref_feed bs c'
          else Some (Some (cr_result c', if i = 1 then b # bs else bs)))"

definition cref_end :: "byte \<Rightarrow> bytes \<Rightarrow> bytes" where
  "cref_end t rest = (if t = 0x3b then rest else t # rest)"

lemma isDigit_val: "isDigit c \<Longrightarrow> unat (c - 0x30) = unat c - 48"
  by (simp add: isDigit_def word_le_nat_alt unat_sub)

lemma sat255_min: "sat255 n = of_nat (min 255 n)"
  by (simp add: sat255_def min_def)

lemma cref_feed_dec:
  assumes "cr_st c = CrefDec" "cr_result c = sat255 v" "list_all isDigit ds" "\<not> isDigit t"
  shows "cref_feed (ds @ t # rest) c =
    Some (Some (sat255 (foldl (\<lambda>n d. 10 * n + (unat d - 48)) v ds), cref_end t rest))"
  using assms
proof (induction ds arbitrary: c v)
  case Nil
  then show ?case
    by (auto simp: cref_step_def isDigit_def boolToInt_def cref_end_def)
next
  case (Cons d ds)
  then have d: "isDigit d" by simp
  have "sat255 (unat (sat255 v) * 10 + (unat d - 48)) = sat255 (10 * v + (unat d - 48))"
    by (simp add: sat255_def unat_of_nat)
  with d have "cref_step d c = Some (c\<lparr>cr_result := sat255 (10 * v + (unat d - 48))\<rparr>, -1)"
    using Cons.prems(1,2) isDigit_val [OF d] by (simp add: cref_step_def isDigit_def)
  then show ?case
    using Cons.IH [of "c\<lparr>cr_result := sat255 (10 * v + (unat d - 48))\<rparr>" "10 * v + (unat d - 48)"]
      Cons.prems by simp
qed

text \<open>
  A decimal reference \<^verbatim>\<open>&#ddd\<close> decodes to its value, saturated at 255 however long the
  digits are; the terminating semicolon is consumed and any other terminator is left.
\<close>
theorem cref_decimal:
  assumes "cr_st c = CrefIdle" "ds \<noteq> []" "list_all isDigit ds" "\<not> isDigit t"
  shows "cref_feed (0x26 # 0x23 # ds @ t # rest) c =
    Some (Some (of_nat (min 255 (digits_val ds)), cref_end t rest))"
proof -
  obtain d ds' where ds: "ds = d # ds'" using assms(2) by (cases ds) auto
  have d: "isDigit d" and ds': "list_all isDigit ds'" using assms(3) ds by auto
  have nx: "d \<noteq> 0x78" "d \<noteq> 0x58" using d by (auto simp: isDigit_def)
  have "d - 0x30 = sat255 (unat d - 48)"
    using d unat_byte [of d]
    by (simp add: sat255_def word_unat_eq_iff isDigit_val unat_of_nat)
      (auto simp: isDigit_def word_le_nat_alt)
  then have "cref_feed (ds' @ t # rest) (c\<lparr>cr_result := d - 0x30, cr_st := CrefDec\<rparr>)
      = Some (Some (sat255 (digits_val ds), cref_end t rest))"
    using cref_feed_dec [OF _ _ ds' assms(4)] by (simp add: ds digits_val_def)
  then show ?thesis
    using assms(1) d nx by (simp add: ds cref_step_def isDigit_def sat255_min)
qed

theorem cref_decimal_witness:
  "cref_feed (str ''&#233;x'') \<lparr>cr_st = CrefIdle, cr_w = word_clear, cr_length = 0, cr_result = 0\<rparr>
     = Some (Some (233, str ''x''))"
  using cref_decimal [of "\<lparr>cr_st = CrefIdle, cr_w = word_clear, cr_length = 0, cr_result = 0\<rparr>"
      "str ''233''" "0x3b" "str ''x''"]
  by (simp add: str_def isDigit_def digits_val_def cref_end_def)

end
