(* ===== verification/Url_State.thy ===== *)
theory Url_State
  imports Cref
begin

text \<open>
  The state of the URL extractor of \<^verbatim>\<open>dcc/fuz1.go\<close> (\<^verbatim>\<open>ckURL\<close>), which Fuz1 drives and whose
  host names Fuz2 falls back to.  \<^verbatim>\<open>start\<close>, \<^verbatim>\<open>tld\<close> and \<^verbatim>\<open>sld\<close> index the Fuz1 buffer and are
  -1 when unset, so they are integers, as is the character count \<^verbatim>\<open>urlTotal\<close>; the other positions index \<^verbatim>\<open>domsBuf\<close> and are never
  negative.
\<close>

definition urlHostMax :: nat where "urlHostMax = 256"
definition urlLabelMax :: nat where "urlLabelMax = 63"
definition urlHostMaxSave :: nat where "urlHostMaxSave = 1 + urlHostMax"
definition urlFailsafe :: int where "urlFailsafe = 2000"
definition domsBufSize :: nat where "domsBufSize = urlHostMaxSave * 2"

datatype urlSt = UrlIdle | UrlQuote | UrlQH | UrlT1 | UrlT2 | UrlP | UrlS | UrlColon
  | UrlSlash1 | UrlSlash2 | UrlSlash3Start | UrlSlash3 | UrlSkippingURL

definition urlTooLong :: byte where "urlTooLong = 0x01"
definition urlSQuoted :: byte where "urlSQuoted = 0x02"
definition urlDQuoted :: byte where "urlDQuoted = 0x04"
definition urlQuoted :: byte where "urlQuoted = 0x06"
definition urlIDN :: byte where "urlIDN = 0x08"
definition urlDOT :: byte where "urlDOT = 0x10"
definition urlUsername :: byte where "urlUsername = 0x20"

lemmas url_flags = urlTooLong_def urlSQuoted_def urlDQuoted_def urlQuoted_def urlIDN_def
  urlDOT_def urlUsername_def

record ckURL =
  u_cref :: ckCref
  u_st :: urlSt
  u_start :: int
  u_tld :: int
  u_sld :: int
  u_urlTotal :: int
  u_domStart :: nat
  u_domEnd :: nat
  u_dot2 :: nat
  u_dot1 :: nat
  u_labelStart :: nat
  u_punct :: nat
  u_doms :: nat
  u_flags :: byte
  u_domsBuf :: bytes

definition newCref :: ckCref where
  "newCref = \<lparr>cr_st = CrefIdle, cr_w = word_clear, cr_length = 0, cr_result = 0\<rparr>"

definition newURL :: ckURL where
  "newURL = \<lparr>u_cref = newCref, u_st = UrlIdle, u_start = -1, u_tld = -1, u_sld = -1,
     u_urlTotal = 0, u_domStart = 0, u_domEnd = 0, u_dot2 = 0, u_dot1 = 0, u_labelStart = 0,
     u_punct = 0, u_doms = 0, u_flags = 0, u_domsBuf = replicate domsBufSize 0\<rparr>"

text \<open>Flag tests and updates, as \<^verbatim>\<open>u.flags&f != 0\<close>, \<^verbatim>\<open>u.flags |= f\<close> and \<^verbatim>\<open>u.flags &^= f\<close>.\<close>

definition has :: "byte \<Rightarrow> ckURL \<Rightarrow> bool" where
  "has f u \<longleftrightarrow> u_flags u AND f \<noteq> 0"

definition set_flag :: "byte \<Rightarrow> ckURL \<Rightarrow> ckURL" where
  "set_flag f u = u\<lparr>u_flags := u_flags u OR f\<rparr>"

definition clear_flag :: "byte \<Rightarrow> ckURL \<Rightarrow> ckURL" where
  "clear_flag f u = u\<lparr>u_flags := u_flags u AND NOT f\<rparr>"

end
