(* ===== verification/Charset.thy ===== *)
theory Charset
  imports Prelude
begin

text \<open>
  \<^verbatim>\<open>dcc/cset_tables.go\<close>: the two folding tables.  The program refers to them by pointer and
  compares pointers, so a charset is a value of its own type and \<open>cset_table\<close> is what the
  pointer points to.
\<close>

datatype charset = Iso1 | Iso2

definition cset8859_1 :: bytes where
  "cset8859_1 = [
    35, 35, 35, 35, 35, 35, 35, 35, 35, 32, 32, 35, 32, 32, 35, 35, 35, 35, 35, 35, 35, 35, 35,
    35, 35, 35, 35, 35, 35, 35, 35, 35, 32, 32, 32, 35, 35, 35, 35, 32, 32, 32, 35, 35, 32, 35,
    32, 35, 35, 35, 35, 35, 35, 35, 35, 35, 35, 35, 32, 32, 60, 32, 32, 32, 35, 97, 98, 99, 100,
    101, 102, 103, 104, 105, 106, 107, 108, 109, 110, 111, 112, 113, 114, 115, 116, 117, 118,
    119, 120, 121, 122, 35, 35, 35, 35, 35, 35, 97, 98, 99, 100, 101, 102, 103, 104, 105, 106,
    107, 108, 109, 110, 111, 112, 113, 114, 115, 116, 117, 118, 119, 120, 121, 122, 35, 35, 35,
    35, 35, 35, 35, 35, 35, 35, 35, 35, 35, 35, 35, 35, 35, 35, 35, 35, 35, 35, 35, 35, 35, 35,
    35, 35, 35, 35, 35, 35, 35, 35, 35, 35, 35, 32, 32, 35, 35, 35, 35, 35, 35, 0, 32, 35, 32,
    35, 0, 32, 0, 35, 35, 35, 35, 0, 35, 35, 35, 0, 35, 35, 32, 35, 35, 35, 32, 224, 225, 226,
    227, 228, 229, 230, 231, 232, 233, 234, 235, 236, 237, 238, 239, 240, 241, 242, 243, 244,
    245, 246, 35, 248, 249, 250, 251, 252, 253, 254, 223, 224, 225, 226, 227, 228, 229, 230, 231,
    232, 233, 234, 235, 236, 237, 238, 239, 240, 241, 242, 243, 244, 245, 246, 35, 248, 249, 250,
    251, 252, 253, 254, 255]"

definition cset8859_2 :: bytes where
  "cset8859_2 = [
    35, 35, 35, 35, 35, 35, 35, 35, 35, 32, 32, 35, 32, 32, 35, 35, 35, 35, 35, 35, 35, 35, 35,
    35, 35, 35, 35, 35, 35, 35, 35, 35, 32, 32, 32, 35, 35, 35, 35, 32, 32, 32, 35, 35, 32, 35,
    32, 35, 35, 35, 35, 35, 35, 35, 35, 35, 35, 35, 32, 32, 60, 32, 32, 32, 35, 97, 98, 99, 100,
    101, 102, 103, 104, 105, 106, 107, 108, 109, 110, 111, 112, 113, 114, 115, 116, 117, 118,
    119, 120, 121, 122, 35, 35, 35, 35, 35, 35, 97, 98, 99, 100, 101, 102, 103, 104, 105, 106,
    107, 108, 109, 110, 111, 112, 113, 114, 115, 116, 117, 118, 119, 120, 121, 122, 35, 35, 35,
    35, 35, 35, 35, 35, 35, 35, 35, 35, 35, 35, 35, 35, 35, 35, 35, 35, 35, 35, 35, 35, 35, 35,
    35, 35, 35, 35, 35, 35, 35, 35, 35, 35, 35, 32, 161, 0, 163, 35, 165, 166, 35, 0, 169, 170,
    171, 172, 0, 174, 175, 35, 177, 0, 179, 0, 181, 182, 0, 0, 185, 186, 187, 188, 0, 190, 191,
    192, 193, 194, 195, 196, 197, 198, 199, 200, 201, 202, 203, 204, 205, 206, 207, 208, 209,
    210, 211, 212, 213, 214, 35, 216, 217, 218, 219, 220, 221, 222, 223, 224, 225, 226, 227, 228,
    229, 230, 231, 232, 233, 234, 235, 236, 237, 238, 239, 240, 241, 242, 243, 244, 245, 246, 35,
    248, 249, 250, 251, 252, 253, 254, 0]"

definition cset_table :: "charset \<Rightarrow> bytes" where
  "cset_table c = (case c of Iso1 \<Rightarrow> cset8859_1 | Iso2 \<Rightarrow> cset8859_2)"

definition fold_byte :: "charset \<Rightarrow> byte \<Rightarrow> byte" where
  "fold_byte cs c = cset_table cs ! unat c"

lemma length_cset_table [simp]: "length (cset_table cs) = 256"
  by (cases cs) (simp_all add: cset_table_def cset8859_1_def cset8859_2_def)

text \<open>The charsets can be enumerated, so a quantifier over them is evaluated.\<close>

instantiation charset :: enum
begin

definition enum_charset :: "charset list" where
  "enum_charset = [Iso1, Iso2]"

definition enum_all_charset :: "(charset \<Rightarrow> bool) \<Rightarrow> bool" where
  "enum_all_charset P \<longleftrightarrow> P Iso1 \<and> P Iso2"

definition enum_ex_charset :: "(charset \<Rightarrow> bool) \<Rightarrow> bool" where
  "enum_ex_charset P \<longleftrightarrow> P Iso1 \<or> P Iso2"

instance
  by standard (auto simp: enum_charset_def enum_all_charset_def enum_ex_charset_def intro: charset.exhaust,
      (metis charset.exhaust)+)

end

text \<open>Only the angle bracket itself folds to one, in both tables.\<close>

lemma cset_lt: "\<forall>cs. map (\<lambda>b. b = 0x3c) (cset_table cs) = map (\<lambda>i. i = 0x3c) [0..<256]"
  by code_simp

lemma fold_byte_lt: "fold_byte cs c = 0x3c \<longleftrightarrow> c = 0x3c"
proof -
  have "fold_byte cs c = 0x3c \<longleftrightarrow> map (\<lambda>b. b = 0x3c) (cset_table cs) ! unat c"
    by (simp add: fold_byte_def)
  also have "\<dots> \<longleftrightarrow> unat c = 0x3c" by (simp only: cset_lt) simp
  finally show ?thesis by (simp add: word_unat_eq_iff)
qed

end
