(* ===== verification/Fuz2.thy ===== *)
theory Fuz2
  imports Url_State Charset
begin

text \<open>
  \<^verbatim>\<open>dcc/fuz2.go\<close> and the look-up half of \<^verbatim>\<open>dcc/fuz2_tables.go\<close>: the fuzzy checksum over
  dictionary words.  The four dictionaries are embedded binary files; they are the argument
  \<open>tbls\<close> of every operation, and \<open>tbls_ok\<close> is the format \<^verbatim>\<open>decodeWordBlob\<close> and the look-up
  rely on.  The MIME state that the scanner shares with the container is passed explicitly:
  the charset is read, the content type is read and may be switched to HTML.
\<close>

definition fuz2FewWords :: nat where "fuz2FewWords = 100"
definition fuz2MinWords :: nat where "fuz2MinWords = 8"
definition fuz2LangNum :: nat where "fuz2LangNum = 4"
definition fcA :: byte where "fcA = 0x61"
definition fcSP :: byte where "fcSP = 0x20"
definition fcLT :: byte where "fcLT = 0x3c"
definition minCkWlen :: nat where "minCkWlen = 3"
definition ckWordLen :: nat where "ckWordLen = 16"
definition skipWlen :: nat where "skipWlen = ckWordLen + 1"

lemmas fuz2_consts = fcA_def fcSP_def fcLT_def minCkWlen_def ckWordLen_def skipWlen_def
  urlFailsafe_def

section \<open>The dictionaries\<close>

record fuz2Tbl =
  ft_words :: "bytes list"
  ft_cset :: "charset option"

text \<open>\<^verbatim>\<open>decodeWordBlob\<close>: a count, then for each bucket a 16-bit length and that many bytes.\<close>

fun decode_buckets :: "bytes \<Rightarrow> nat \<Rightarrow> nat \<Rightarrow> bytes list option" where
  "decode_buckets blob off 0 = Some []"
| "decode_buckets blob off (Suc n) = do {
     lb \<leftarrow> nslice blob off (off + 2);
     let l = unat (get_be16 lb);
     b \<leftarrow> (if l > 0 then nslice blob (off + 2) (off + 2 + l) else Some []);
     rest \<leftarrow> decode_buckets blob (off + 2 + l) n;
     Some (b # rest)
   }"

definition decodeWordBlob :: "bytes \<Rightarrow> bytes list option" where
  "decodeWordBlob blob = do {
     nb \<leftarrow> nslice blob 0 4;
     decode_buckets blob 4 (unat (get_be32 nb))
   }"

definition fuz2Tbls :: "bytes \<Rightarrow> bytes \<Rightarrow> bytes \<Rightarrow> bytes \<Rightarrow> fuz2Tbl list option" where
  "fuz2Tbls english spanish polish dutch = do {
     e \<leftarrow> decodeWordBlob english;
     s \<leftarrow> decodeWordBlob spanish;
     p \<leftarrow> decodeWordBlob polish;
     d \<leftarrow> decodeWordBlob dutch;
     Some [\<lparr>ft_words = e, ft_cset = None\<rparr>, \<lparr>ft_words = s, ft_cset = None\<rparr>,
           \<lparr>ft_words = p, ft_cset = Some Iso2\<rparr>, \<lparr>ft_words = d, ft_cset = None\<rparr>]
   }"

function lookupWord_loop :: "bytes \<Rightarrow> bytes \<Rightarrow> nat \<Rightarrow> nat \<Rightarrow> bool option" where
  "lookupWord_loop bucket w wlen p =
     (if p \<ge> length bucket then Some False
      else let n = unat (bucket ! p); p = p + 1
        in if n = 0 then Some False
           else if n = wlen then do {
             a \<leftarrow> nslice bucket p (p + n);
             b \<leftarrow> nslice w 0 n;
             if a = b then Some True else lookupWord_loop bucket w wlen (p + n)
           }
           else lookupWord_loop bucket w wlen (p + n))"
  by pat_completeness auto
termination
  by (relation "measure (\<lambda>(bucket, w, wlen, p). length bucket - p)") auto

declare lookupWord_loop.simps [simp del]

definition lookupWord :: "bytes \<Rightarrow> nat \<Rightarrow> bytes list \<Rightarrow> bool option" where
  "lookupWord w wlen buckets =
     (if buckets = [] then None
      else do {
        bucket \<leftarrow> idx buckets (unat (word_hash w mod of_nat (length buckets)));
        if bucket = [] then Some False else lookupWord_loop bucket w wlen 0
      })"

section \<open>State\<close>

datatype ckCt = CtText | CtHTML | CtBinary

datatype fuz2St = StWord | StStartTag | StSkipTag | StSkipComment

record fuz2Lang =
  l_wsummed :: nat
  l_wtotal :: nat
  l_md5 :: md5

record fuz2State =
  f2_wlen :: nat
  f2_w :: bytes
  f2_st :: fuz2St
  f2_cref :: ckCref
  f2_btotal :: nat
  f2_xsummed :: nat
  f2_tagLen :: nat
  f2_tag :: bytes
  f2_lang :: "fuz2Lang list"

definition newFuz2State :: fuz2State where
  "newFuz2State =
     \<lparr>f2_wlen = 0, f2_w = word_clear, f2_st = StWord, f2_cref = newCref, f2_btotal = 0,
      f2_xsummed = 0, f2_tagLen = 0, f2_tag = word_clear,
      f2_lang = replicate fuz2LangNum \<lparr>l_wsummed = 0, l_wtotal = 0, l_md5 = md5_new\<rparr>\<rparr>"

definition skipWord :: "fuz2State \<Rightarrow> fuz2State" where
  "skipWord f = f\<lparr>f2_wlen := skipWlen\<rparr>"

definition junk :: "fuz2State \<Rightarrow> fuz2State" where
  "junk f = f\<lparr>f2_wlen := skipWlen, f2_st := StWord\<rparr>"

section \<open>One word\<close>

text \<open>One round of the loop of \<^verbatim>\<open>addWord\<close>, for the language number \<open>tbl\<close>.\<close>

definition addWord_lang :: "fuz2Tbl list \<Rightarrow> charset \<Rightarrow> nat \<Rightarrow> fuz2State \<Rightarrow> fuz2State option" where
  "addWord_lang tbls cs tbl f = do {
     t \<leftarrow> idx tbls tbl;
     if ft_cset t \<noteq> None \<and> ft_cset t \<noteq> Some cs then Some f
     else do {
       found \<leftarrow> lookupWord (f2_w f) (f2_wlen f) (ft_words t);
       if found then do {
         lp \<leftarrow> idx (f2_lang f) tbl;
         p \<leftarrow> nslice (f2_w f) 0 (f2_wlen f);
         Some (f\<lparr>f2_lang := (f2_lang f)[tbl :=
           lp\<lparr>l_wtotal := l_wtotal lp + 1, l_md5 := md5_write (l_md5 lp) p,
              l_wsummed := l_wsummed lp + f2_wlen f\<rparr>]\<rparr>)
       }
       else Some f
     }
   }"

definition addWord :: "fuz2Tbl list \<Rightarrow> charset \<Rightarrow> fuz2State \<Rightarrow> fuz2State option" where
  "addWord tbls cs f = fold_opt (addWord_lang tbls cs) [0..<fuz2LangNum] f"

section \<open>The scanner\<close>

text \<open>
  The four cases of the state switch, for the byte \<open>c\<close> at the read position.  The result
  says whether the byte was consumed: \<^verbatim>\<open>pos -= i\<close> after a character reference, and the
  transitions out of a start tag, leave it in place.  The inner loops of the Go code run
  until the input ends or the state changes, so dispatching per byte visits the same states.
\<close>

definition fuz2_word_char :: "fuz2Tbl list \<Rightarrow> charset \<Rightarrow> byte \<Rightarrow> fuz2State \<Rightarrow> fuz2State option" where
  "fuz2_word_char tbls cs c0 f =
     (let c = fold_byte cs c0
      in if c \<ge> fcA then
           (let f = f\<lparr>f2_btotal := f2_btotal f + 1\<rparr>
            in if f2_wlen f < ckWordLen then do {
                 w \<leftarrow> upd (f2_w f) (f2_wlen f) c;
                 Some (f\<lparr>f2_w := w, f2_wlen := f2_wlen f + 1\<rparr>)
               }
               else Some (skipWord f))
         else if c = fcSP then do {
           f \<leftarrow> (if f2_wlen f \<ge> minCkWlen \<and> f2_wlen f \<le> ckWordLen then addWord tbls cs f else Some f);
           Some (f\<lparr>f2_wlen := 0, f2_w := word_clear\<rparr>)
         }
         else
           (let f = f\<lparr>f2_btotal := f2_btotal f + 1\<rparr>
            in if c = fcLT then Some (f\<lparr>f2_tagLen := 0, f2_tag := word_clear, f2_st := StStartTag\<rparr>)
               else Some (junk f)))"

definition fuz2_word :: "fuz2Tbl list \<Rightarrow> charset \<Rightarrow> byte \<Rightarrow> fuz2State \<times> ckCt
    \<Rightarrow> ((fuz2State \<times> ckCt) \<times> bool) option" where
  "fuz2_word tbls cs c s = (case s of (f, ct) \<Rightarrow>
     if cr_st (f2_cref f) \<noteq> CrefIdle \<or> (c = 0x26 \<and> ct = CtHTML) then do {
       (cr, i) \<leftarrow> cref_step c (f2_cref f);
       let f = f\<lparr>f2_cref := cr\<rparr>;
       if i < 0 then Some ((f, ct), True)
       else do {
         f \<leftarrow> fuz2_word_char tbls cs (cr_result cr) f;
         Some ((f, ct), i = 0)
       }
     }
     else do {
       f \<leftarrow> fuz2_word_char tbls cs c f;
       Some ((f, ct), True)
     })"

definition tag_char :: "byte \<Rightarrow> fuz2State \<Rightarrow> bool" where
  "tag_char c f \<longleftrightarrow>
     ((isLower c \<or> isDigit c) \<and> f2_tagLen f < length (f2_tag f))
     \<or> ((c = 0x2f \<or> c = 0x21) \<and> f2_tagLen f = 0)
     \<or> (c = 0x2d \<and> f2_tagLen f \<ge> 1 \<and> f2_tagLen f \<le> 2)"

definition fuz2_start_tag :: "byte \<Rightarrow> fuz2State \<times> ckCt \<Rightarrow> ((fuz2State \<times> ckCt) \<times> bool) option" where
  "fuz2_start_tag c0 s = (case s of (f, ct) \<Rightarrow>
     let c = toLower c0
     in if tag_char c f then do {
          t \<leftarrow> upd (f2_tag f) (f2_tagLen f) c;
          Some ((f\<lparr>f2_tag := t, f2_tagLen := f2_tagLen f + 1, f2_btotal := f2_btotal f + 1\<rparr>, ct), True)
        }
        else
          let ct = (if f2_tagLen f = 4 \<and> ct \<noteq> CtHTML \<and> take 4 (f2_tag f) = str ''html''
                    then CtHTML else ct)
          in if ct = CtHTML \<and> f2_tagLen f > 0 then
               (let f = f\<lparr>f2_xsummed := f2_xsummed f + (f2_tagLen f + 1)\<rparr>
                in if c = 0x3e then
                     Some ((f\<lparr>f2_xsummed := f2_xsummed f + 1, f2_btotal := f2_btotal f + 1,
                              f2_st := StWord\<rparr>, ct), True)
                   else if f2_tagLen f \<ge> 3 \<and> take 3 (f2_tag f) = str ''!--''
                   then Some ((f\<lparr>f2_st := StSkipComment\<rparr>, ct), False)
                   else Some ((f\<lparr>f2_st := StSkipTag\<rparr>, ct), False))
             else Some ((junk f, ct), False))"

definition fuz2_skip_char :: "charset \<Rightarrow> byte \<Rightarrow> fuz2State \<Rightarrow> fuz2State" where
  "fuz2_skip_char cs c f =
     (if c = 0x3e then f\<lparr>f2_xsummed := f2_xsummed f + 1, f2_btotal := f2_btotal f + 1, f2_st := StWord\<rparr>
      else if fold_byte cs c \<noteq> fcSP then
        (let f = f\<lparr>f2_xsummed := f2_xsummed f + 1, f2_btotal := f2_btotal f + 1,
                   f2_tagLen := f2_tagLen f + 1\<rparr>
         in if int (f2_tagLen f) > urlFailsafe then junk f else f)
      else f)"

definition fuz2_skip_tag :: "charset \<Rightarrow> byte \<Rightarrow> fuz2State \<times> ckCt
    \<Rightarrow> ((fuz2State \<times> ckCt) \<times> bool) option" where
  "fuz2_skip_tag cs c s = (case s of (f, ct) \<Rightarrow>
     let f = f\<lparr>f2_btotal := f2_btotal f + 1\<rparr>
     in if cr_st (f2_cref f) \<noteq> CrefIdle \<or> c = 0x26 then do {
          (cr, i) \<leftarrow> cref_step c (f2_cref f);
          let f = f\<lparr>f2_cref := cr\<rparr>;
          if i < 0 then Some ((f, ct), True)
          else Some ((fuz2_skip_char cs (cr_result cr) f, ct), i = 0)
        }
        else Some ((fuz2_skip_char cs c f, ct), True))"

definition fuz2_step :: "fuz2Tbl list \<Rightarrow> charset \<Rightarrow> byte \<Rightarrow> fuz2State \<times> ckCt
    \<Rightarrow> ((fuz2State \<times> ckCt) \<times> bool) option" where
  "fuz2_step tbls cs c s =
     (case f2_st (fst s) of
        StWord \<Rightarrow> fuz2_word tbls cs c s
      | StStartTag \<Rightarrow> fuz2_start_tag c s
      | StSkipTag \<Rightarrow> fuz2_skip_tag cs c s
      | StSkipComment \<Rightarrow> Some ((fuz2_skip_char cs c (fst s), snd s), True))"

text \<open>An unconsumed byte is always paid for: a reference ends, or a start tag does.\<close>

lemma cref_step_done:
  "cref_step uc c = Some (c', i) \<Longrightarrow>
   i = -1 \<or> (i = 0 \<or> i = 1) \<and> cr_st c' = CrefIdle \<and> cr_st c \<noteq> CrefIdle"
  by (cases "cr_st c") (auto simp: cref_step_def boolToInt_def bind_Some_iff split: if_splits)

lemma addWord_lang_cref:
  "addWord_lang tbls cs i f = Some f' \<Longrightarrow> f2_cref f' = f2_cref f \<and> f2_st f' = f2_st f"
  by (auto simp: addWord_lang_def bind_Some_iff split: if_splits)

lemma addWord_cref:
  "addWord tbls cs f = Some f' \<Longrightarrow> f2_cref f' = f2_cref f \<and> f2_st f' = f2_st f"
proof -
  have "f2_cref f' = f2_cref f \<and> f2_st f' = f2_st f"
    if "fold_opt (addWord_lang tbls cs) is f = Some f'" for "is" f
    using that
    by (induction "is" arbitrary: f) (force simp: bind_Some_iff dest: addWord_lang_cref)+
  then show "addWord tbls cs f = Some f' \<Longrightarrow> ?thesis" by (simp add: addWord_def)
qed

lemma fuz2_word_char_cref: "fuz2_word_char tbls cs c f = Some f' \<Longrightarrow> f2_cref f' = f2_cref f"
  by (auto simp: fuz2_word_char_def Let_def bind_Some_iff skipWord_def junk_def
      dest: addWord_cref split: if_splits)

lemma fuz2_skip_char_cref [simp]: "f2_cref (fuz2_skip_char cs c f) = f2_cref f"
  by (simp add: fuz2_skip_char_def Let_def junk_def)

definition fuz2_debt :: "fuz2State \<times> ckCt \<Rightarrow> nat" where
  "fuz2_debt s = (if cr_st (f2_cref (fst s)) \<noteq> CrefIdle then 2 else 0)
               + (if f2_st (fst s) = StStartTag then 1 else 0)"

lemma fuz2_step_debt:
  assumes "fuz2_step tbls cs c s = Some (s', False)"
  shows "fuz2_debt s' < fuz2_debt s"
proof (cases "f2_st (fst s)")
  case StWord
  with assms show ?thesis
    by (cases s) (auto simp: fuz2_step_def fuz2_word_def bind_Some_iff Let_def fuz2_debt_def
        dest!: cref_step_done fuz2_word_char_cref split: if_splits)
next
  case StStartTag
  with assms show ?thesis
    by (cases s) (auto simp: fuz2_step_def fuz2_start_tag_def bind_Some_iff Let_def fuz2_debt_def
        junk_def split: if_splits)
next
  case StSkipTag
  with assms show ?thesis
    by (cases s) (auto simp: fuz2_step_def fuz2_skip_tag_def bind_Some_iff
        Let_def fuz2_debt_def dest!: cref_step_done split: if_splits)
qed (use assms in \<open>simp add: fuz2_step_def\<close>)

function fuz2 :: "fuz2Tbl list \<Rightarrow> charset \<Rightarrow> bytes \<Rightarrow> fuz2State \<times> ckCt
    \<Rightarrow> (fuz2State \<times> ckCt) option" where
  "fuz2 tbls cs [] s = Some s"
| "fuz2 tbls cs (c # bp) s =
     (case fuz2_step tbls cs c s of
        None \<Rightarrow> None
      | Some (s', consumed) \<Rightarrow>
          if consumed then fuz2 tbls cs bp s' else fuz2 tbls cs (c # bp) s')"
  by pat_completeness auto
termination
  by (relation "measures [\<lambda>(tbls, cs, bp, s). length bp, \<lambda>(tbls, cs, bp, s). fuz2_debt s]")
    (auto dest: fuz2_step_debt)

declare fuz2.simps(2) [simp del]

section \<open>The final choice\<close>

text \<open>The loop of \<^verbatim>\<open>final\<close> that picks the language with the most words, the first one on a tie.\<close>

fun fuz2_best :: "fuz2Lang list \<Rightarrow> nat \<Rightarrow> nat list \<Rightarrow> nat" where
  "fuz2_best ls lp [] = lp"
| "fuz2_best ls lp (i # is) =
     fuz2_best ls (if l_wtotal (ls ! lp) < l_wtotal (ls ! i) then i else lp) is"

definition fuz2_final :: "fuz2State \<Rightarrow> ckURL option \<Rightarrow> (bytes \<times> bool) option" where
  "fuz2_final f url =
     (let lp = f2_lang f ! fuz2_best (f2_lang f) 0 [1..<fuz2LangNum];
          zero = replicate 16 0
      in if l_wtotal lp < fuz2FewWords \<and> (l_wsummed lp + f2_xsummed f) * 10 < f2_btotal f
         then Some (zero, False)
         else if l_wtotal lp < fuz2MinWords then
           (case url of
              None \<Rightarrow> Some (zero, False)
            | Some u \<Rightarrow>
                if l_wtotal lp + u_doms u * (fuz2MinWords div 2) \<ge> fuz2MinWords then
                  (let n = int (u_domStart u) - 1
                   in if n > 0 then do {
                        b \<leftarrow> slice (u_domsBuf u) 0 n;
                        Some (md5_sum (md5_write (l_md5 lp) b), True)
                      }
                      else Some (md5_sum (l_md5 lp), True))
                else Some (zero, False))
         else Some (md5_sum (l_md5 lp), True))"

end
