(* ===== verification/Fuz2_Props.thy ===== *)
theory Fuz2_Props
  imports Fuz2
begin

text \<open>
  What is proved about the Fuz2 scanner: it never panics on well-formed dictionaries, it is
  indifferent to how its input is cut into chunks, on plain text it hashes exactly the
  dictionary words, and the final choice is the language with the most of them.
\<close>

section \<open>The scanner never panics\<close>

text \<open>A bucket as \<^verbatim>\<open>lookupWord\<close> expects it: entries of a non-zero length and that many bytes.\<close>

fun word_bucket_ok :: "bytes \<Rightarrow> bool" where
  "word_bucket_ok [] = True"
| "word_bucket_ok (n # r) \<longleftrightarrow> n \<noteq> 0 \<and> unat n \<le> length r \<and> word_bucket_ok (drop (unat n) r)"

fun word_bucket_entries :: "bytes \<Rightarrow> bytes list" where
  "word_bucket_entries [] = []"
| "word_bucket_entries (n # r) =
     (if n = 0 then [] else take (unat n) r # word_bucket_entries (drop (unat n) r))"

definition tbls_ok :: "fuz2Tbl list \<Rightarrow> bool" where
  "tbls_ok tbls \<longleftrightarrow> length tbls = fuz2LangNum
     \<and> list_all (\<lambda>t. ft_words t \<noteq> [] \<and> length (ft_words t) < 2 ^ 32
          \<and> list_all word_bucket_ok (ft_words t)) tbls"

lemma lookupWord_loop_eq:
  assumes "word_bucket_ok rest" "bucket = pre @ rest" "length w = 16" "wlen \<le> 16"
  shows "lookupWord_loop bucket w wlen (length pre)
       = Some (take wlen w \<in> set (word_bucket_entries rest))"
  using assms
proof (induction rest arbitrary: pre rule: word_bucket_ok.induct)
  case 1
  then show ?case by (simp add: lookupWord_loop.simps)
next
  case (2 n r)
  let ?p = "length pre" and ?n = "unat n"
  have n: "0 < ?n" "?n \<le> length r" "word_bucket_ok (drop ?n r)" "n \<noteq> 0"
    using "2.prems"(1) by (auto simp: unat_gt_0)
  have next_entry: "lookupWord_loop bucket w wlen (?p + 1 + ?n)
      = Some (take wlen w \<in> set (word_bucket_entries (drop ?n r)))"
    using "2.IH" [of "pre @ n # take ?n r"] "2.prems" n by simp
  show ?case
  proof (cases "?n = wlen")
    case True
    then show ?thesis
      using "2.prems" n next_entry
      by (subst lookupWord_loop.simps) (auto simp: Let_def nth_append)
  next
    case False
    then have "take wlen w \<noteq> take ?n r"
      using "2.prems" n by (metis length_take min.absorb2)
    with False show ?thesis
      using "2.prems" n next_entry
      by (subst lookupWord_loop.simps) (auto simp: Let_def)
  qed
qed

text \<open>The dictionary a table stands for, as the words of the bucket the hash selects.\<close>

definition in_dict :: "bytes list \<Rightarrow> bytes \<Rightarrow> bool" where
  "in_dict buckets word \<longleftrightarrow>
     word \<in> set (word_bucket_entries (buckets ! unat (word_hash (pad16 word) mod of_nat (length buckets))))"

lemma lookupWord_eq:
  assumes "buckets \<noteq> []" "length buckets < 2 ^ 32" "list_all word_bucket_ok buckets"
    "length w = 16" "wlen \<le> 16"
  shows "lookupWord w wlen buckets = Some (take wlen w \<in> set (word_bucket_entries
           (buckets ! unat (word_hash w mod of_nat (length buckets)))))"
proof -
  let ?i = "unat (word_hash w mod of_nat (length buckets))"
  have i: "?i < length buckets"
    using assms(1,2) by (simp add: unat_mod unat_of_nat)
  with assms(3) have "word_bucket_ok (buckets ! ?i)" by (simp add: list_all_length)
  from lookupWord_loop_eq [OF this, of _ "[]" w wlen] assms i show ?thesis
    by (auto simp: lookupWord_def)
qed

definition f2_ok :: "fuz2State \<Rightarrow> bool" where
  "f2_ok f \<longleftrightarrow> cref_ok (f2_cref f) \<and> length (f2_w f) = 16 \<and> length (f2_tag f) = 16
     \<and> length (f2_lang f) = fuz2LangNum"

lemma newFuz2_ok: "f2_ok newFuz2State"
  by (simp add: f2_ok_def newFuz2State_def cref_ok_def newCref_def word_clear_def)

lemma addWord_lang_returns:
  assumes "tbls_ok tbls" "i < fuz2LangNum" "f2_ok f" "f2_wlen f \<le> 16"
  shows "\<exists>f'. addWord_lang tbls cs i f = Some f' \<and> f2_ok f' \<and> f2_wlen f' = f2_wlen f"
  using assms lookupWord_eq [of "ft_words (tbls ! i)" "f2_w f" "f2_wlen f"]
  by (auto simp: addWord_lang_def tbls_ok_def list_all_length f2_ok_def fuz2LangNum_def)

lemma addWord_returns [returns]:
  assumes "tbls_ok tbls" "f2_ok f" "f2_wlen f \<le> 16"
  shows "\<exists>f'. addWord tbls cs f = Some f' \<and> f2_ok f'"
  using fold_opt_inv [of "\<lambda>f'. f2_ok f' \<and> f2_wlen f' \<le> 16" f "[0..<fuz2LangNum]" "addWord_lang tbls cs"]
    addWord_lang_returns [OF assms(1)] assms
  by (auto simp: addWord_def) metis

lemma fuz2_word_char_returns:
  assumes "tbls_ok tbls" "f2_ok f"
  shows "\<exists>f'. fuz2_word_char tbls cs c f = Some f' \<and> f2_ok f'"
proof -
  obtain f' where "f2_wlen f \<le> 16 \<Longrightarrow> addWord tbls cs f = Some f' \<and> f2_ok f'"
    using addWord_returns [OF assms] by blast
  with assms show ?thesis
    by (auto simp: fuz2_word_char_def Let_def skipWord_def junk_def f2_ok_def word_clear_def
        ckWordLen_def)
qed

lemma f2_ok_cref: "f2_ok f \<Longrightarrow> cref_ok c \<Longrightarrow> f2_ok (f\<lparr>f2_cref := c\<rparr>)"
  by (simp add: f2_ok_def)

lemma fuz2_skip_char_ok: "f2_ok f \<Longrightarrow> f2_ok (fuz2_skip_char cs c f)"
  by (simp add: fuz2_skip_char_def Let_def junk_def f2_ok_def)

lemma tag_char_bound: "tag_char c f \<Longrightarrow> length (f2_tag f) = 16 \<Longrightarrow> f2_tagLen f < 16"
  by (auto simp: tag_char_def)

lemma fuz2_step_returns:
  assumes "tbls_ok tbls" "f2_ok (fst s)"
  shows "\<exists>s' b. fuz2_step tbls cs c s = Some (s', b) \<and> f2_ok (fst s')"
proof -
  obtain f ct where s: "s = (f, ct)" by (cases s)
  with assms have f: "f2_ok f" and cr: "cref_ok (f2_cref f)" by (simp_all add: f2_ok_def)
  obtain c' i where step: "cref_step c (f2_cref f) = Some (c', i)" "cref_ok c'"
    using cref_step_returns [OF cr] by blast
  show ?thesis
  proof (cases "f2_st f")
    case StWord
    obtain f1 f2 where "fuz2_word_char tbls cs c f = Some f1" "f2_ok f1"
      "fuz2_word_char tbls cs (cr_result c') (f\<lparr>f2_cref := c'\<rparr>) = Some f2" "f2_ok f2"
      using fuz2_word_char_returns [OF assms(1)] f f2_ok_cref [OF f step(2)] by metis
    with StWord step f2_ok_cref [OF f step(2)] show ?thesis
      by (auto simp: s fuz2_step_def fuz2_word_def Let_def)
  next
    case StStartTag
    show ?thesis
    proof (cases "tag_char (toLower c) f")
      case True
      with f have "f2_tagLen f < length (f2_tag f)" by (simp add: tag_char_bound f2_ok_def)
      with True StStartTag f show ?thesis
        by (auto simp: s fuz2_step_def fuz2_start_tag_def f2_ok_def)
    next
      case False
      with StStartTag f show ?thesis
        by (auto simp: s fuz2_step_def fuz2_start_tag_def Let_def junk_def f2_ok_def)
    qed
  next
    case StSkipTag
    let ?f = "f\<lparr>f2_btotal := Suc (f2_btotal f)\<rparr>"
    have ok: "f2_ok ?f" "f2_ok (?f\<lparr>f2_cref := c'\<rparr>)"
      using f step(2) by (simp_all add: f2_ok_def)
    note skip = ok(1) [THEN fuz2_skip_char_ok, of cs c]
      ok(2) [THEN fuz2_skip_char_ok, of cs "cr_result c'"]
    from StSkipTag step ok skip show ?thesis
      by (auto simp: s fuz2_step_def fuz2_skip_tag_def Let_def)
  next
    case StSkipComment
    with f show ?thesis by (simp add: s fuz2_step_def fuz2_skip_char_ok) blast
  qed
qed

lemma fuz2_returns [returns]:
  assumes "tbls_ok tbls" "f2_ok (fst s)"
  shows "\<exists>s'. fuz2 tbls cs bp s = Some s' \<and> f2_ok (fst s')"
  using assms
proof (induction tbls cs bp s rule: fuz2.induct)
  case (2 tbls cs c bp s)
  from fuz2_step_returns [OF "2.prems", of cs c] obtain s' b
    where s': "fuz2_step tbls cs c s = Some (s', b)" "f2_ok (fst s')" by blast
  with "2.IH" [OF s'(1) refl] "2.prems" show ?case
    by (cases b) (simp_all add: fuz2.simps(2))
qed simp

lemma fuz2_append: "fuz2 tbls cs (a @ b) s = Option.bind (fuz2 tbls cs a s) (fuz2 tbls cs b)"
  by (induction tbls cs a s rule: fuz2.induct)
    (auto simp: fuz2.simps(2) split: option.splits)

section \<open>What is hashed of plain text\<close>

text \<open>
  The words of a folded text: the maximal runs between spaces, each ended by a space, that
  consist of 3 to 16 letters.  A run with any other byte is not a word.
\<close>

definition fuz2_is_word :: "bytes \<Rightarrow> bool" where
  "fuz2_is_word seg \<longleftrightarrow> list_all (\<lambda>c. fcA \<le> c) seg \<and> minCkWlen \<le> length seg \<and> length seg \<le> ckWordLen"

fun words_from :: "bytes \<Rightarrow> bytes \<Rightarrow> bytes list" where
  "words_from seg [] = []"
| "words_from seg (c # r) =
     (if c = fcSP then (if fuz2_is_word seg then [seg] else []) @ words_from [] r
      else words_from (seg @ [c]) r)"

fun open_seg :: "bytes \<Rightarrow> bytes \<Rightarrow> bytes" where
  "open_seg seg [] = seg"
| "open_seg seg (c # r) = (if c = fcSP then open_seg [] r else open_seg (seg @ [c]) r)"

definition in_lang :: "fuz2Tbl list \<Rightarrow> charset \<Rightarrow> nat \<Rightarrow> bytes \<Rightarrow> bool" where
  "in_lang tbls cs i word \<longleftrightarrow>
     (ft_cset (tbls ! i) = None \<or> ft_cset (tbls ! i) = Some cs) \<and> in_dict (ft_words (tbls ! i)) word"

definition lang_holds :: "fuz2Lang \<Rightarrow> bytes list \<Rightarrow> bool" where
  "lang_holds l ds \<longleftrightarrow> l_wtotal l = length ds \<and> l_wsummed l = sum_list (map length ds)
     \<and> l_md5 l = md5_write md5_new (concat ds)"

definition langs_hold :: "fuz2Tbl list \<Rightarrow> charset \<Rightarrow> fuz2Lang list \<Rightarrow> bytes list \<Rightarrow> bool" where
  "langs_hold tbls cs ls ws \<longleftrightarrow> length ls = fuz2LangNum \<and>
     (\<forall>i < fuz2LangNum. lang_holds (ls ! i) (filter (in_lang tbls cs i) ws))"

lemma lang_holds_add:
  "lang_holds l ds \<Longrightarrow>
   lang_holds (l\<lparr>l_wtotal := l_wtotal l + 1, l_md5 := md5_write (l_md5 l) w,
                l_wsummed := l_wsummed l + length w\<rparr>) (ds @ [w])"
  by (simp add: lang_holds_def md5_write_write)

lemma take_pad16 [simp]: "length seg \<le> 16 \<Longrightarrow> take (length seg) (pad16 seg) = seg"
  "length seg \<le> 16 \<Longrightarrow> length (pad16 seg) = 16"
  by (simp_all add: pad16_def)

lemma addWord_lang_plain:
  assumes "tbls_ok tbls" "i < fuz2LangNum" "f2_w f = pad16 seg" "f2_wlen f = length seg"
    "length seg \<le> 16" "length (f2_lang f) = fuz2LangNum"
  shows "addWord_lang tbls cs i f = Some (if in_lang tbls cs i seg
     then f\<lparr>f2_lang := (f2_lang f)[i := (f2_lang f ! i)\<lparr>l_wtotal := l_wtotal (f2_lang f ! i) + 1,
            l_md5 := md5_write (l_md5 (f2_lang f ! i)) seg,
            l_wsummed := l_wsummed (f2_lang f ! i) + length seg\<rparr>]\<rparr> else f)"
  using assms lookupWord_eq [of "ft_words (tbls ! i)" "f2_w f" "f2_wlen f"]
  by (auto simp: addWord_lang_def tbls_ok_def list_all_length fuz2LangNum_def in_lang_def in_dict_def)

lemma addWord_plain_upto:
  assumes "tbls_ok tbls" "f2_w f = pad16 seg" "f2_wlen f = length seg" "length seg \<le> 16"
    "langs_hold tbls cs (f2_lang f) ws" "n \<le> fuz2LangNum"
  shows "\<exists>ls. fold_opt (addWord_lang tbls cs) [0..<n] f = Some (f\<lparr>f2_lang := ls\<rparr>) \<and> length ls = fuz2LangNum
     \<and> (\<forall>i < fuz2LangNum. lang_holds (ls ! i)
           (filter (in_lang tbls cs i) (if i < n then ws @ [seg] else ws)))"
  using assms(6)
proof (induction n)
  case 0
  with assms(5) show ?case by (intro exI [of _ "f2_lang f"]) (simp add: langs_hold_def)
next
  case (Suc n)
  then obtain ls where ls: "fold_opt (addWord_lang tbls cs) [0..<n] f = Some (f\<lparr>f2_lang := ls\<rparr>)"
      "length ls = fuz2LangNum" "\<And>i. i < fuz2LangNum \<Longrightarrow> lang_holds (ls ! i)
           (filter (in_lang tbls cs i) (if i < n then ws @ [seg] else ws))" by auto
  let ?l = "ls ! n"
  let ?ls = "if in_lang tbls cs n seg then ls[n := ?l\<lparr>l_wtotal := l_wtotal ?l + 1,
      l_md5 := md5_write (l_md5 ?l) seg, l_wsummed := l_wsummed ?l + length seg\<rparr>] else ls"
  have n: "n < fuz2LangNum" using Suc.prems by simp
  have "addWord_lang tbls cs n (f\<lparr>f2_lang := ls\<rparr>) = Some (f\<lparr>f2_lang := ?ls\<rparr>)"
    using addWord_lang_plain [OF assms(1) n, of "f\<lparr>f2_lang := ls\<rparr>" seg cs] assms(2-4) ls(2) by simp
  moreover have "lang_holds (?ls ! i) (filter (in_lang tbls cs i) (if i < Suc n then ws @ [seg] else ws))"
    if i: "i < fuz2LangNum" for i
    using ls(3) [OF i] lang_holds_add [OF ls(3) [OF n], of seg] ls(2) i n
    by (cases "i = n"; cases "i < n") (auto simp: less_Suc_eq)
  ultimately show ?case
    using ls(1,2) by (intro exI [of _ ?ls]) (simp add: fold_opt_append)
qed

lemma addWord_plain:
  assumes "tbls_ok tbls" "f2_w f = pad16 seg" "f2_wlen f = length seg" "length seg \<le> 16"
    "langs_hold tbls cs (f2_lang f) ws"
  shows "\<exists>ls. addWord tbls cs f = Some (f\<lparr>f2_lang := ls\<rparr>) \<and> langs_hold tbls cs ls (ws @ [seg])"
  using addWord_plain_upto [OF assms order_refl]
  by (auto simp: addWord_def langs_hold_def)

text \<open>The scanner in plain text: the open run is in the word buffer unless it is spoilt.\<close>

definition plain :: "fuz2Tbl list \<Rightarrow> charset \<Rightarrow> fuz2State \<Rightarrow> bytes \<Rightarrow> bytes list \<Rightarrow> bool" where
  "plain tbls cs f seg ws \<longleftrightarrow> f2_st f = StWord \<and> cr_st (f2_cref f) = CrefIdle
     \<and> langs_hold tbls cs (f2_lang f) ws
     \<and> (if list_all (\<lambda>c. fcA \<le> c) seg \<and> length seg \<le> 16
        then f2_wlen f = length seg \<and> f2_w f = pad16 seg else f2_wlen f = 17 \<and> length (f2_w f) = 16)"

text \<open>The bytes of a text that are not white space, by which Fuz2 measures its length.\<close>

definition visible :: "charset \<Rightarrow> bytes \<Rightarrow> bytes" where
  "visible cs bp = filter (\<lambda>c. fold_byte cs c \<noteq> fcSP) bp"

lemma pad16_upd: "length seg < 16 \<Longrightarrow> (pad16 seg)[length seg := c] = pad16 (seg @ [c])"
proof -
  assume "length seg < 16"
  then obtain k where "16 - length seg = Suc k" by (cases "16 - length seg") auto
  then show ?thesis by (simp add: pad16_def list_update_append)
qed

lemma plain_step:
  assumes "tbls_ok tbls" "plain tbls cs f seg ws" "ct \<noteq> CtHTML" "fold_byte cs c \<noteq> fcLT"
  shows "\<exists>f'. fuz2_step tbls cs c (f, ct) = Some ((f', ct), True) \<and>
    plain tbls cs f' (open_seg seg [fold_byte cs c]) (ws @ words_from seg [fold_byte cs c])
    \<and> f2_btotal f' = f2_btotal f + length (visible cs [c]) \<and> f2_xsummed f' = f2_xsummed f"
proof -
  let ?d = "fold_byte cs c"
  have st: "fuz2_step tbls cs c (f, ct) = map_option (\<lambda>f'. ((f', ct), True)) (fuz2_word_char tbls cs c f)"
    using assms(2,3) by (cases "fuz2_word_char tbls cs c f")
      (auto simp: fuz2_step_def fuz2_word_def plain_def)
  consider (letter) "fcA \<le> ?d" | (space) "?d = fcSP" | (other) "\<not> fcA \<le> ?d" "?d \<noteq> fcSP" by blast
  then show ?thesis
  proof cases
    case letter
    then have nsp: "?d \<noteq> fcSP" by (auto simp: fuz2_consts)
    consider "list_all (\<lambda>c. fcA \<le> c) seg" "length seg < 16"
      | "list_all (\<lambda>c. fcA \<le> c) seg" "length seg = 16"
      | "\<not> (list_all (\<lambda>c. fcA \<le> c) seg \<and> length seg \<le> 16)" by fastforce
    then show ?thesis
      using letter nsp assms(2)
      by cases (auto simp: st fuz2_word_char_def Let_def plain_def ckWordLen_def skipWord_def
          skipWlen_def pad16_upd visible_def)
  next
    case space
    then have nA: "\<not> fcA \<le> ?d" by (simp add: fuz2_consts)
    show ?thesis
    proof (cases "list_all (\<lambda>c. fcA \<le> c) seg \<and> length seg \<le> 16")
      case True
      then have w: "f2_wlen f = length seg" "f2_w f = pad16 seg" and l: "length seg \<le> 16"
        and h: "langs_hold tbls cs (f2_lang f) ws" using assms(2) by (auto simp: plain_def)
      obtain ls where ls: "addWord tbls cs f = Some (f\<lparr>f2_lang := ls\<rparr>)"
          "langs_hold tbls cs ls (ws @ [seg])"
        using addWord_plain [OF assms(1) w(2,1) l h] by blast
      show ?thesis
        using space nA True ls h w assms(2)
        by (auto simp: st fuz2_word_char_def plain_def fuz2_is_word_def ckWordLen_def
            word_clear_def pad16_def visible_def)
    next
      case False
      then show ?thesis
        using space nA assms(2)
        by (auto simp: st fuz2_word_char_def plain_def fuz2_is_word_def ckWordLen_def
            word_clear_def pad16_def visible_def)
    qed
  next
    case other
    with assms(2,4) show ?thesis
      by (auto simp: st fuz2_word_char_def Let_def plain_def junk_def skipWlen_def ckWordLen_def pad16_def visible_def
          split: if_splits)
  qed
qed

lemma words_from_append: "words_from seg (a @ b) = words_from seg a @ words_from (open_seg seg a) b"
  by (induction seg a rule: words_from.induct) auto

lemma open_seg_append: "open_seg seg (a @ b) = open_seg (open_seg seg a) b"
  by (induction seg a rule: open_seg.induct) auto

lemma plain_run:
  assumes "tbls_ok tbls" "plain tbls cs f seg ws" "ct \<noteq> CtHTML" "\<forall>c \<in> set bp. fold_byte cs c \<noteq> fcLT"
  shows "\<exists>f'. fuz2 tbls cs bp (f, ct) = Some (f', ct) \<and>
    plain tbls cs f' (open_seg seg (map (fold_byte cs) bp)) (ws @ words_from seg (map (fold_byte cs) bp))
    \<and> f2_btotal f' = f2_btotal f + length (visible cs bp) \<and> f2_xsummed f' = f2_xsummed f"
  using assms(2,4)
proof (induction bp arbitrary: f seg ws)
  case (Cons c bp)
  let ?d = "fold_byte cs c"
  from plain_step [OF assms(1) Cons.prems(1) assms(3), of c] Cons.prems(2)
  obtain f1 where f1: "fuz2_step tbls cs c (f, ct) = Some ((f1, ct), True)"
    "plain tbls cs f1 (open_seg seg [?d]) (ws @ words_from seg [?d])"
    "f2_btotal f1 = f2_btotal f + length (visible cs [c])" "f2_xsummed f1 = f2_xsummed f" by auto
  have "visible cs (c # bp) = visible cs [c] @ visible cs bp" by (simp add: visible_def)
  with Cons.IH [OF f1(2)] Cons.prems(2) f1(1,3,4) show ?case
    using words_from_append [of seg "[?d]" "map (fold_byte cs) bp"]
      open_seg_append [of seg "[?d]" "map (fold_byte cs) bp"]
    by (simp add: fuz2.simps(2) add.assoc del: words_from.simps open_seg.simps)
qed (simp add: visible_def)

lemma plain_new: "plain tbls cs newFuz2State [] []"
  using md5h.feed_nil
  by (simp add: plain_def newFuz2State_def newCref_def langs_hold_def lang_holds_def pad16_def word_clear_def)

text \<open>
  C17. On text without markup, each language hashes exactly the words of its dictionary
  among the words of the folded text, in order, and counts them and their bytes.
\<close>
theorem fuz2_plain_text:
  assumes "tbls_ok tbls" "ct \<noteq> CtHTML" "\<forall>c \<in> set bp. fold_byte cs c \<noteq> fcLT"
  shows "\<exists>f. fuz2 tbls cs bp (newFuz2State, ct) = Some (f, ct) \<and>
    (\<forall>i < 4. let ds = filter (in_lang tbls cs i) (words_from [] (map (fold_byte cs) bp));
                l = f2_lang f ! i
      in l_wtotal l = length ds \<and> l_wsummed l = sum_list (map length ds)
         \<and> md5_sum (l_md5 l) = md5_digest (concat ds))"
  using plain_run [OF assms(1) plain_new assms(2,3)]
  by (auto simp: plain_def langs_hold_def fuz2LangNum_def lang_holds_def Let_def md5_sum_digest)

theorem fuz2_plain_text_witness:
  "\<exists>f. fuz2 (replicate 4 \<lparr>ft_words = [[3, 0x74, 0x68, 0x65]], ft_cset = None\<rparr>) Iso1 (str ''The cat '')
         (newFuz2State, CtText) = Some (f, CtText) \<and> l_wtotal (f2_lang f ! 0) = 1
     \<and> md5_sum (l_md5 (f2_lang f ! 0)) = md5_digest (str ''the'')"
proof -
  let ?t = "replicate 4 \<lparr>ft_words = [[3, 0x74, 0x68, 0x65]], ft_cset = None\<rparr>"
  let ?ds = "filter (in_lang ?t Iso1 0) (words_from [] (map (fold_byte Iso1) (str ''The cat '')))"
  have ds: "?ds = [str ''the'']" by code_simp
  have ok: "tbls_ok ?t" by (simp add: tbls_ok_def fuz2LangNum_def list_all_iff)
  have lt: "\<forall>c \<in> set (str ''The cat ''). fold_byte Iso1 c \<noteq> fcLT" by code_simp
  obtain f where f: "fuz2 ?t Iso1 (str ''The cat '') (newFuz2State, CtText) = Some (f, CtText)"
    "\<forall>i < 4. let ds = filter (in_lang ?t Iso1 i) (words_from [] (map (fold_byte Iso1) (str ''The cat '')));
                l = f2_lang f ! i
      in l_wtotal l = length ds \<and> l_wsummed l = sum_list (map length ds)
         \<and> md5_sum (l_md5 l) = md5_digest (concat ds)"
    using fuz2_plain_text [OF ok _ lt, of CtText] by auto
  from f(2) [rule_format, of 0] ds have "l_wtotal (f2_lang f ! 0) = 1
     \<and> md5_sum (l_md5 (f2_lang f ! 0)) = md5_digest (str ''the'')"
    by (simp add: Let_def)
  with f(1) show ?thesis by blast
qed

text \<open>
  C16. With well-formed dictionaries the scanner returns for every input, in every state it
  can be in (markup and character references included), and scanning a text in two chunks
  is the same as scanning it whole.
\<close>
theorem fuz2_total_and_chunked:
  assumes "tbls_ok tbls" "f2_ok (fst s)"
  shows "(\<exists>f ct. fuz2 tbls cs (a @ b) s = Some (f, ct) \<and> f2_ok f) \<and>
    fuz2 tbls cs (a @ b) s = Option.bind (fuz2 tbls cs a s) (fuz2 tbls cs b)"
  using fuz2_returns [OF assms, of cs "a @ b"] by (simp add: fuz2_append)

theorem fuz2_total_and_chunked_witness:
  "\<exists>f ct. fuz2 (replicate 4 \<lparr>ft_words = [[]], ft_cset = None\<rparr>) Iso1 (str ''<a &am'' @ str ''p;>'')
     (newFuz2State, CtHTML) = Some (f, ct) \<and> f2_ok f"
proof -
  have ok: "tbls_ok (replicate 4 \<lparr>ft_words = [[]], ft_cset = None\<rparr>)"
    by (simp add: tbls_ok_def fuz2LangNum_def list_all_iff)
  show ?thesis
    using fuz2_total_and_chunked [OF ok, of "(newFuz2State, CtHTML)" Iso1 "str ''<a &am''" "str ''p;>''"]
    unfolding fst_conv using newFuz2_ok by blast
qed

lemma fuz2_best_in: "fuz2_best ls lp is \<in> insert lp (set is)"
  by (induction ls lp "is" rule: fuz2_best.induct) auto

lemma fuz2_best_max:
  "j \<in> insert lp (set is) \<Longrightarrow> l_wtotal (ls ! j) \<le> l_wtotal (ls ! fuz2_best ls lp is)"
proof (induction ls lp "is" arbitrary: j rule: fuz2_best.induct)
  case (2 ls lp i "is")
  let ?lp = "if l_wtotal (ls ! lp) < l_wtotal (ls ! i) then i else lp"
  have best: "l_wtotal (ls ! ?lp) \<le> l_wtotal (ls ! fuz2_best ls ?lp is)"
    by (rule "2.IH") simp
  have "l_wtotal (ls ! lp) \<le> l_wtotal (ls ! ?lp)" "l_wtotal (ls ! i) \<le> l_wtotal (ls ! ?lp)"
    by auto
  with best "2.IH" [of j] "2.prems" show ?case
    unfolding fuz2_best.simps by fastforce
qed simp

lemma fuz2_best_first:
  "sorted (lp # is) \<Longrightarrow> j \<in> insert lp (set is) \<Longrightarrow> j < fuz2_best ls lp is \<Longrightarrow>
   l_wtotal (ls ! j) < l_wtotal (ls ! fuz2_best ls lp is)"
proof (induction ls lp "is" arbitrary: j rule: fuz2_best.induct)
  case (2 ls lp i "is")
  show ?case
  proof (cases "l_wtotal (ls ! lp) < l_wtotal (ls ! i)")
    case True
    have "sorted (i # is)" using "2.prems"(1) by simp
    with "2.IH" [of j] "2.prems" True fuz2_best_max [of i i "is" ls] show ?thesis by auto
  next
    case False
    have s: "sorted (lp # is)" using "2.prems"(1) by simp
    show ?thesis
    proof (cases "j = i")
      case True
      have b: "fuz2_best ls lp is \<noteq> lp" using "2.prems" True False by auto
      from "2.prems"(1) b have "lp < fuz2_best ls lp is"
        using fuz2_best_in [of ls lp "is"] "2.prems"(3) True False by auto
      with "2.IH" [of lp] s False True show ?thesis by auto
    next
      case False
      with "2.IH" [of j] s "2.prems" \<open>\<not> l_wtotal (ls ! lp) < l_wtotal (ls ! i)\<close> show ?thesis
        by auto
    qed
  qed
qed simp

lemma fuz2_best_spec:
  fixes ls
  defines "b \<equiv> fuz2_best ls 0 [1..<fuz2LangNum]"
  shows "b < 4" "\<forall>j < 4. l_wtotal (ls ! j) \<le> l_wtotal (ls ! b)" "\<forall>j < b. l_wtotal (ls ! j) < l_wtotal (ls ! b)"
proof -
  have s: "insert 0 (set [1..<fuz2LangNum]) = {..<4}" "sorted (0 # [1..<fuz2LangNum])"
    by (auto simp: fuz2LangNum_def)
  show b: "b < 4" unfolding b_def using fuz2_best_in [of ls 0 "[1..<fuz2LangNum]"] by (simp only: s(1)) simp
  show "\<forall>j < 4. l_wtotal (ls ! j) \<le> l_wtotal (ls ! b)"
    unfolding b_def using fuz2_best_max [of _ 0 "[1..<fuz2LangNum]" ls] by (simp only: s(1)) simp
  show "\<forall>j < b. l_wtotal (ls ! j) < l_wtotal (ls ! b)"
    using fuz2_best_first [OF s(2), of _ ls] b unfolding b_def by (simp only: s(1)) simp
qed

end
