(* ===== verification/Puny.thy ===== *)
theory Puny
  imports Url_State
begin

text \<open>
  \<^verbatim>\<open>dcc/puny.go\<close>: Punycode encoding of one host label inside \<^verbatim>\<open>domsBuf\<close>.  The Go function
  has three ways to end: a panic, an early \<^verbatim>\<open>return\<close> that leaves the label alone, and the
  encoded label.  They are the three shapes of \<open>'a option option\<close>: \<open>None\<close>, \<open>Some None\<close> and
  \<open>Some (Some x)\<close>; \<open>proceed\<close> sequences them.  The \<^verbatim>\<open>uint\<close> counters stay far below \<open>2^64\<close> (a
  label has at most 63 characters below \<open>0x110000\<close>), so they are natural numbers.
\<close>

definition utf8Max :: nat where "utf8Max = 0x10ffff"
definition punyBase :: nat where "punyBase = 36"
definition punyTmin :: nat where "punyTmin = 1"
definition punyTmax :: nat where "punyTmax = 26"
definition punySkew :: nat where "punySkew = 38"
definition punyDamp :: nat where "punyDamp = 700"
definition punyInitialBias :: nat where "punyInitialBias = 72"
definition punyInitialN :: nat where "punyInitialN = 0x80"

definition punyPrefix :: bytes where "punyPrefix = [0x78, 0x6e, 0x2d, 0x2d]"

definition punyCode36 :: bytes where
  "punyCode36 = map of_nat ([97..<123] @ [48..<58])"

lemmas puny_consts = punyBase_def punyTmin_def punyTmax_def punySkew_def punyDamp_def

definition proceed :: "'a option option \<Rightarrow> ('a \<Rightarrow> 'b option option) \<Rightarrow> 'b option option" where
  "proceed m f = (case m of None \<Rightarrow> None | Some None \<Rightarrow> Some None | Some (Some x) \<Rightarrow> f x)"

lemma proceed_simps [simp]:
  "proceed None f = None" "proceed (Some None) f = Some None" "proceed (Some (Some x)) f = f x"
  by (simp_all add: proceed_def)

section \<open>The adaptation of RFC 3492\<close>

function adapt_loop :: "nat \<Rightarrow> nat \<Rightarrow> nat \<times> nat" where
  "adapt_loop delta k =
     (if delta > ((punyBase - punyTmin) * punyTmax) div 2
      then adapt_loop (delta div (punyBase - punyTmin)) (k + punyBase) else (delta, k))"
  by pat_completeness auto
termination
  by (relation "measure fst") (auto simp: puny_consts)

declare adapt_loop.simps [simp del]

definition punyAdapt :: "nat \<Rightarrow> nat \<Rightarrow> bool \<Rightarrow> nat" where
  "punyAdapt delta numpoints firsttime =
     (let delta = (if firsttime then delta div punyDamp else delta div 2);
          delta = delta + delta div numpoints;
          (delta, k) = adapt_loop delta 0
      in k + ((punyBase - punyTmin + 1) * delta) div (delta + punySkew))"

section \<open>Decoding the label's UTF-8\<close>

text \<open>One code point at position \<open>i\<close>: its value and the position after it.\<close>

definition utf8_cont :: "byte \<Rightarrow> u32" where
  "utf8_cont c = ucast c XOR 0x80"

definition puny_utf8 :: "bytes \<Rightarrow> nat \<Rightarrow> nat \<Rightarrow> (u32 \<times> nat) option option" where
  "puny_utf8 buf domEnd i = do {
     b \<leftarrow> idx buf i;
     let uc = (ucast b :: u32);
     let i = i + 1;
     if uc AND 0x80 = 0 then Some (Some (uc, i))
     else if uc AND 0xe0 = 0xc0 then
       (let uc = uc AND 0x1f
        in if uc = 0 \<or> i \<ge> domEnd then Some None
           else do {
             c2 \<leftarrow> idx buf i;
             let uc2 = utf8_cont c2;
             if uc2 > 0x3f then Some None
             else let uc = push_bit 6 uc OR uc2
               in if unat uc > utf8Max then Some None else Some (Some (uc, i + 1))
           })
     else if uc AND 0xf0 = 0xe0 then
       (let uc = uc AND 0x0f
        in if uc = 0 \<or> i + 1 \<ge> domEnd then Some None
           else do {
             c2 \<leftarrow> idx buf i;
             c3 \<leftarrow> idx buf (i + 1);
             let uc2 = utf8_cont c2;
             let uc3 = utf8_cont c3;
             if uc2 > 0x3f \<or> uc3 > 0x3f then Some None
             else let uc = push_bit 6 (push_bit 6 uc OR uc2) OR uc3
               in if unat uc > utf8Max then Some None else Some (Some (uc, i + 2))
           })
     else if uc AND 0xf8 = 0xf0 then
       (let uc = uc AND 0x07
        in if uc = 0 \<or> i + 2 \<ge> domEnd then Some None
           else do {
             c2 \<leftarrow> idx buf i;
             c3 \<leftarrow> idx buf (i + 1);
             c4 \<leftarrow> idx buf (i + 2);
             let uc2 = utf8_cont c2;
             let uc3 = utf8_cont c3;
             let uc4 = utf8_cont c4;
             if uc2 > 0x3f \<or> uc3 > 0x3f \<or> uc4 > 0x3f then Some None
             else let uc = push_bit 6 (push_bit 6 (push_bit 6 uc OR uc2) OR uc3) OR uc4
               in if unat uc > utf8Max then Some None else Some (Some (uc, i + 3))
           })
     else Some None
   }"

text \<open>The decoding loop; \<open>acc\<close> holds the \<^verbatim>\<open>unicodeLen\<close> code points found so far.\<close>

function puny_decode :: "bytes \<Rightarrow> nat \<Rightarrow> nat \<Rightarrow> nat list \<Rightarrow> nat list option option" where
  "puny_decode buf domEnd i acc =
     (case puny_utf8 buf domEnd i of
        None \<Rightarrow> None
      | Some None \<Rightarrow> Some None
      | Some (Some (uc, i)) \<Rightarrow>
          if length acc \<ge> urlLabelMax then Some None
          else if i = domEnd then Some (Some (acc @ [unat uc]))
          else puny_decode buf domEnd i (acc @ [unat uc]))"
  by pat_completeness auto
termination
  by (relation "measure (\<lambda>(buf, e, i, acc). urlLabelMax - length acc)") auto

declare puny_decode.simps [simp del]

section \<open>Encoding\<close>

definition punyOut :: "byte \<Rightarrow> bytes \<Rightarrow> bytes option" where
  "punyOut c out = (if length out \<ge> urlLabelMax then None else Some (out @ [c]))"

text \<open>The basic code points, copied first.\<close>

fun puny_basic :: "nat list \<Rightarrow> bytes \<Rightarrow> nat \<Rightarrow> (bytes \<times> nat) option" where
  "puny_basic [] out b = Some (out, b)"
| "puny_basic (uc # us) out b =
     (if uc \<ge> 0x80 then puny_basic us out b
      else Option.bind (punyOut (of_nat uc) out) (\<lambda>out. puny_basic us out (b + 1)))"

definition puny_threshold :: "nat \<Rightarrow> nat \<Rightarrow> nat" where
  "puny_threshold k bias =
     (if k \<le> bias then punyTmin else if k \<ge> bias + punyTmax then punyTmax else k - bias)"

lemma puny_threshold_bounds: "1 \<le> puny_threshold k bias" "puny_threshold k bias \<le> 26"
  by (auto simp: puny_threshold_def puny_consts)

text \<open>The digits of \<^verbatim>\<open>delta\<close>: the loop over \<^verbatim>\<open>k\<close> and the last digit after it.\<close>

function puny_digits :: "nat \<Rightarrow> nat \<Rightarrow> nat \<Rightarrow> bytes \<Rightarrow> bytes option option" where
  "puny_digits bias k q out =
     (let t = puny_threshold k bias
      in if q < t then do {
           c \<leftarrow> idx punyCode36 q;
           Some (punyOut c out)
         }
         else do {
           c \<leftarrow> idx punyCode36 (t + (q - t) mod (punyBase - t));
           case punyOut c out of
             None \<Rightarrow> Some None
           | Some out \<Rightarrow> puny_digits bias (k + punyBase) ((q - t) div (punyBase - t)) out
         })"
  by pat_completeness auto
termination
proof (relation "measure (\<lambda>(bias, k, q, out). q)", goal_cases)
  case (2 bias k q out t)
  then have t: "t \<le> q" "1 \<le> t" "t \<le> 26" using puny_threshold_bounds [of k bias] by auto
  then have "(q - t) div (punyBase - t) < q"
    by (intro le_less_trans [OF div_le_dividend]) simp
  then show ?case by simp
qed simp

declare puny_digits.simps [simp del]

record punySt =
  ps_out :: bytes
  ps_delta :: nat
  ps_bias :: nat
  ps_h :: nat

text \<open>The inner loop over all code points, for the current value \<open>n\<close>.\<close>

fun puny_round :: "nat \<Rightarrow> nat \<Rightarrow> nat list \<Rightarrow> punySt \<Rightarrow> punySt option option" where
  "puny_round n b [] s = Some (Some s)"
| "puny_round n b (uc # us) s =
     (if uc < n then puny_round n b us (s\<lparr>ps_delta := ps_delta s + 1\<rparr>)
      else if uc = n then
        proceed (puny_digits (ps_bias s) punyBase (ps_delta s) (ps_out s))
          (\<lambda>out. puny_round n b us
             (s\<lparr>ps_out := out, ps_bias := punyAdapt (ps_delta s) (ps_h s + 1) (ps_h s = b),
                ps_delta := 0, ps_h := ps_h s + 1\<rparr>))
      else puny_round n b us s)"

definition puny_next :: "nat \<Rightarrow> nat list \<Rightarrow> nat" where
  "puny_next n us = fold (\<lambda>u m. if u < m \<and> u \<ge> n then u else m) (us @ [0]) (utf8Max + 1)"

text \<open>
  The outer loop, at most \<open>fuel\<close> times; \<open>puny_loop_returns\<close> shows that the length of the
  label is enough, since every round encodes a code point.
\<close>

fun puny_loop :: "nat \<Rightarrow> nat \<Rightarrow> nat list \<Rightarrow> nat \<Rightarrow> punySt \<Rightarrow> punySt option option" where
  "puny_loop fuel b us n s =
     (if ps_h s < length us then
        (case fuel of
           0 \<Rightarrow> None
         | Suc fuel \<Rightarrow>
             let m = puny_next n us;
                 s = s\<lparr>ps_delta := ps_delta s + (m - n) * (ps_h s + 1)\<rparr>
             in proceed (puny_round m b us s)
                  (\<lambda>s. puny_loop fuel b us (m + 1) (s\<lparr>ps_delta := ps_delta s + 1\<rparr>)))
      else Some (Some s))"

declare puny_loop.simps [simp del]

definition puny_encode :: "nat list \<Rightarrow> bytes option option" where
  "puny_encode us =
     (case puny_basic us punyPrefix 0 of
        None \<Rightarrow> Some None
      | Some (out, b) \<Rightarrow>
          (case (if b \<noteq> 0 then punyOut 0x2d out else Some out) of
             None \<Rightarrow> Some None
           | Some out \<Rightarrow>
               proceed (puny_loop (length us) b us punyInitialN
                    \<lparr>ps_out = out, ps_delta = 0, ps_bias = punyInitialBias, ps_h = b\<rparr>)
                 (\<lambda>s. Some (Some (ps_out s)))))"

definition punyencode :: "ckURL \<Rightarrow> ckURL option" where
  "punyencode u =
     (let u = clear_flag urlIDN u
      in case proceed (puny_decode (u_domsBuf u) (u_domEnd u) (u_labelStart u) []) puny_encode of
           None \<Rightarrow> None
         | Some None \<Rightarrow> Some u
         | Some (Some puny) \<Rightarrow>
             if u_labelStart u + length puny \<le> urlHostMax
             then Some (u\<lparr>u_domEnd := u_labelStart u + length puny,
                         u_domsBuf := copy_at (u_domsBuf u) (u_labelStart u) puny\<rparr>)
             else Some u)"

end
