(* ===== verification/Puny_Props.thy ===== *)
theory Puny_Props
  imports Puny
begin

text \<open>
  The Punycode encoder returns on every label the URL scanner can hand it: the decoding loop
  stays inside \<^verbatim>\<open>domsBuf\<close>, the alphabet is never indexed out of range, the outer loop ends
  after at most as many rounds as there are characters, and the output fits the label.  ASCII labels
  get their xn-- form; a label with a byte outside ASCII and no continuation byte is left alone.
\<close>

section \<open>Decoding\<close>

lemma puny_utf8_returns:
  assumes "i < length buf" "i < domEnd \<Longrightarrow> domEnd \<le> length buf"
  shows "\<exists>r. puny_utf8 buf domEnd i = Some r \<and>
    (\<forall>uc i'. r = Some (uc, i') \<longrightarrow> unat uc \<le> utf8Max \<and> (i' = i + 1 \<or> i < i' \<and> i' \<le> domEnd))"
proof -
  have b: "unat (ucast (buf ! i) :: u32) \<le> utf8Max"
    unfolding unat_ucast_byte utf8Max_def
    by (rule order_trans [OF less_imp_le [OF unat_byte]]) simp
  show ?thesis
    using assms b by (auto simp: puny_utf8_def Let_def)
qed

lemma puny_decode_returns:
  assumes "length acc \<le> 63" "i < length buf"
    "i < domEnd \<and> domEnd \<le> length buf \<or> domEnd \<le> i \<and> i + (64 - length acc) \<le> length buf"
    "\<forall>u \<in> set acc. u \<le> utf8Max"
  shows "\<exists>r. puny_decode buf domEnd i acc = Some r \<and>
    (\<forall>us. r = Some us \<longrightarrow> length us \<le> 63 \<and> us \<noteq> [] \<and> (\<forall>u \<in> set us. u \<le> utf8Max))"
  using assms
proof (induction buf domEnd i acc rule: puny_decode.induct)
  case (1 buf domEnd i acc)
  obtain r where r: "puny_utf8 buf domEnd i = Some r"
    "\<And>uc i'. r = Some (uc, i') \<Longrightarrow> unat uc \<le> utf8Max \<and> (i' = i + 1 \<or> i < i' \<and> i' \<le> domEnd)"
    using puny_utf8_returns [of i buf domEnd] "1.prems" by auto
  show ?case
  proof (cases r)
    case None
    with r show ?thesis by (simp add: puny_decode.simps)
  next
    case (Some p)
    obtain uc i' where p: "p = (uc, i')" by (cases p)
    with r Some have uc: "unat uc \<le> utf8Max" "i' = i + 1 \<or> i < i' \<and> i' \<le> domEnd" by auto
    consider "length acc \<ge> 63" | "length acc < 63" "i' = domEnd" | "length acc < 63" "i' \<noteq> domEnd"
      by linarith
    then show ?thesis
    proof cases
      case 3
      have "\<exists>r. puny_decode buf domEnd i' (acc @ [unat uc]) = Some r \<and>
        (\<forall>us. r = Some us \<longrightarrow> length us \<le> 63 \<and> us \<noteq> [] \<and> (\<forall>u \<in> set us. u \<le> utf8Max))"
        by (rule "1.IH" [OF r(1) Some p [symmetric]])
          (use "1.prems" 3 uc in \<open>auto simp: urlLabelMax_def\<close>)
      with 3 r Some p show ?thesis
        by (subst puny_decode.simps) (simp add: urlLabelMax_def)
    qed (use "1.prems" r Some p uc in \<open>subst puny_decode.simps; simp add: urlLabelMax_def\<close>)+
  qed
qed

section \<open>Encoding\<close>

lemma punyCode36_length [simp]: "length punyCode36 = 36"
  by (simp add: punyCode36_def)

definition out_ok :: "bytes \<Rightarrow> bool" where
  "out_ok out \<longleftrightarrow> 4 \<le> length out \<and> length out \<le> 63"

lemma punyOut_ok: "punyOut c out = Some out' \<Longrightarrow> out_ok out \<Longrightarrow> out_ok out'"
  by (auto simp: punyOut_def out_ok_def urlLabelMax_def split: if_splits)

lemma puny_basic_ok:
  "puny_basic us out b = Some (out', b') \<Longrightarrow> out_ok out \<Longrightarrow>
   out_ok out' \<and> b' = b + length (filter (\<lambda>u. u < 0x80) us)"
  by (induction us out b arbitrary: out' b' rule: puny_basic.induct)
    (auto simp: bind_Some_iff dest: punyOut_ok split: if_splits)

lemma puny_digits_returns:
  "out_ok out \<Longrightarrow> \<exists>r. puny_digits bias k q out = Some r \<and> (\<forall>out'. r = Some out' \<longrightarrow> out_ok out')"
proof (induction bias k q out rule: puny_digits.induct)
  case (1 bias k q out)
  let ?t = "puny_threshold k bias"
  have t: "1 \<le> ?t" "?t \<le> 26" by (rule puny_threshold_bounds)+
  show ?case
  proof (cases "q < ?t")
    case True
    with t 1 show ?thesis
      by (subst puny_digits.simps) (auto simp: Let_def dest: punyOut_ok)
  next
    case False
    have i: "?t + (q - ?t) mod (punyBase - ?t) < 36"
    proof -
      have "(q - ?t) mod (punyBase - ?t) < punyBase - ?t"
        by (rule mod_less_divisor) (use t in \<open>simp add: puny_consts\<close>)
      with t show ?thesis unfolding punyBase_def by linarith
    qed
    show ?thesis
    proof (cases "punyOut (punyCode36 ! (?t + (q - ?t) mod (punyBase - ?t))) out")
      case None
      with False i show ?thesis
        by (subst puny_digits.simps) (simp add: Let_def)
    next
      case (Some out1)
      with "1.IH" [OF refl False _ Some] "1.prems" i punyOut_ok [OF Some]
      show ?thesis using False by (subst puny_digits.simps) (simp add: Let_def)
    qed
  qed
qed

lemma puny_round_returns:
  "out_ok (ps_out s) \<Longrightarrow> \<exists>r. puny_round n b us s = Some r \<and>
     (\<forall>s'. r = Some s' \<longrightarrow> out_ok (ps_out s') \<and> ps_h s' = ps_h s + length (filter (\<lambda>u. u = n) us))"
proof (induction us arbitrary: s)
  case (Cons uc us)
  obtain r where r: "puny_digits (ps_bias s) punyBase (ps_delta s) (ps_out s) = Some r"
    "\<And>out'. r = Some out' \<Longrightarrow> out_ok out'"
    using puny_digits_returns [OF Cons.prems] by blast
  consider "uc < n" | "uc = n" "r = None" | out where "uc = n" "r = Some out" | "n < uc" by force
  then show ?case
  proof cases
    case 1
    with Cons.IH [of "s\<lparr>ps_delta := ps_delta s + 1\<rparr>"] Cons.prems show ?thesis by simp
  next
    case 3
    with r Cons.IH [of "s\<lparr>ps_out := out, ps_bias := punyAdapt (ps_delta s) (ps_h s + 1) (ps_h s = b),
                ps_delta := 0, ps_h := ps_h s + 1\<rparr>"] show ?thesis by simp
  qed (use r Cons in auto)
qed simp

lemma puny_next_bounds:
  assumes "u \<in> set us" "n \<le> u" "u \<le> utf8Max" "0 < n"
  shows "n \<le> puny_next n us \<and> puny_next n us \<in> set us
    \<and> (\<forall>u \<in> set us. n \<le> u \<longrightarrow> puny_next n us \<le> u)"
proof -
  have *: "let m' = fold (\<lambda>u m. if u < m \<and> u \<ge> n then u else m) vs m in
      (m' = m \<or> m' \<in> set vs \<and> n \<le> m') \<and> m' \<le> m \<and> (\<forall>u \<in> set vs. n \<le> u \<longrightarrow> m' \<le> u)" for vs m
  proof (induction vs arbitrary: m)
    case (Cons v vs)
    from Cons.IH [of "if v < m \<and> v \<ge> n then v else m"] show ?case
      by (auto simp: Let_def split: if_splits)
  qed simp
  from * [of "us @ [0]" "utf8Max + 1"] assms show ?thesis
    by (fastforce simp: puny_next_def Let_def)
qed

lemma filter_less_Suc:
  assumes "n \<le> m" "\<forall>u \<in> set us. n \<le> u \<longrightarrow> (m :: nat) \<le> u"
  shows "length (filter (\<lambda>u. u < Suc m) us) = length (filter (\<lambda>u. u < n) us) + length (filter (\<lambda>u. u = m) us)"
  using assms(2)
proof (induction us)
  case (Cons u us)
  with assms(1) show ?case by (cases "u < n"; cases "u = m") auto
qed simp

lemma puny_loop_returns:
  assumes "out_ok (ps_out s)" "ps_h s = length (filter (\<lambda>u. u < n) us)" "0 < n"
    "\<forall>u \<in> set us. u \<le> utf8Max" "length us - ps_h s \<le> fuel"
  shows "\<exists>r. puny_loop fuel b us n s = Some r \<and> (\<forall>s'. r = Some s' \<longrightarrow> out_ok (ps_out s'))"
  using assms
proof (induction fuel arbitrary: n s)
  case 0
  then show ?case by (simp add: puny_loop.simps)
next
  case (Suc fuel)
  show ?case
  proof (cases "ps_h s < length us")
    case False
    with Suc.prems show ?thesis by (simp add: puny_loop.simps)
  next
    case True
    with Suc.prems(2) have "\<exists>u \<in> set us. \<not> u < n"
      using length_filter_less by (metis filter_True less_irrefl)
    with Suc.prems(3,4) have m: "n \<le> puny_next n us" "puny_next n us \<in> set us"
      "\<forall>u \<in> set us. n \<le> u \<longrightarrow> puny_next n us \<le> u"
      using puny_next_bounds [of _ us n] by (meson not_less)+
    let ?m = "puny_next n us"
    let ?s = "s\<lparr>ps_delta := ps_delta s + (?m - n) * (ps_h s + 1)\<rparr>"
    obtain r where r: "puny_round ?m b us ?s = Some r"
      "\<And>s'. r = Some s' \<Longrightarrow> out_ok (ps_out s') \<and> ps_h s' = ps_h s + length (filter (\<lambda>u. u = ?m) us)"
      using puny_round_returns [of ?s ?m b us] Suc.prems(1) by auto
    show ?thesis
    proof (cases r)
      case None
      with True r show ?thesis by (subst puny_loop.simps) (simp add: Let_def)
    next
      case (Some s')
      have c: "Suc 0 \<le> length (filter (\<lambda>u. u = ?m) us)"
        using m(2) by (auto simp: Suc_le_eq filter_empty_conv)
      have h: "ps_h s' = ps_h s + length (filter (\<lambda>u. u = ?m) us)" "out_ok (ps_out s')"
        using r(2) [OF Some] by auto
      have "\<exists>r. puny_loop fuel b us (?m + 1) (s'\<lparr>ps_delta := ps_delta s' + 1\<rparr>) = Some r
          \<and> (\<forall>s'. r = Some s' \<longrightarrow> out_ok (ps_out s'))"
      proof (rule Suc.IH)
        show "length us - ps_h (s'\<lparr>ps_delta := ps_delta s' + 1\<rparr>) \<le> fuel"
          using c h(1) Suc.prems(5) True by (simp del: One_nat_def)
      qed (use h Suc.prems filter_less_Suc [OF m(1,3)] in auto)
      with True r(1) Some show ?thesis by (subst puny_loop.simps) (simp add: Let_def)
    qed
  qed
qed

lemma puny_encode_returns:
  assumes "\<forall>u \<in> set us. u \<le> utf8Max"
  shows "\<exists>r. puny_encode us = Some r \<and> (\<forall>out. r = Some out \<longrightarrow> out_ok out)"
proof (cases "puny_basic us punyPrefix 0")
  case None
  then show ?thesis by (simp add: puny_encode_def)
next
  case (Some p)
  obtain out b where p: "p = (out, b)" by (cases p)
  have "out_ok punyPrefix" by (simp add: out_ok_def punyPrefix_def)
  with Some p have o: "out_ok out" "b = length (filter (\<lambda>u. u < 0x80) us)"
    using puny_basic_ok [of us punyPrefix 0 out b] by auto
  show ?thesis
  proof (cases "if b \<noteq> 0 then punyOut 0x2d out else Some out")
    case None
    with Some p show ?thesis by (simp add: puny_encode_def)
  next
    case (Some out1)
    with o(1) have o1: "out_ok out1" by (auto dest: punyOut_ok split: if_splits)
    obtain r where "puny_loop (length us) b us punyInitialN
        \<lparr>ps_out = out1, ps_delta = 0, ps_bias = punyInitialBias, ps_h = b\<rparr> = Some r"
      "\<forall>s'. r = Some s' \<longrightarrow> out_ok (ps_out s')"
      using puny_loop_returns [of "\<lparr>ps_out = out1, ps_delta = 0, ps_bias = punyInitialBias, ps_h = b\<rparr>"
          punyInitialN us "length us" b] o1 o(2) assms by (auto simp: punyInitialN_def)
    with Some \<open>puny_basic us punyPrefix 0 = Some p\<close> p show ?thesis
      by (cases r) (auto simp: puny_encode_def)
  qed
qed

text \<open>When the encoder may be called, and what it leaves: only the bytes of the label change.\<close>

lemma punyencode_returns [returns]:
  assumes "length (u_domsBuf u) = domsBufSize" "u_labelStart u < length (u_domsBuf u)"
    "u_labelStart u < u_domEnd u \<and> u_domEnd u \<le> domsBufSize
     \<or> u_domEnd u = u_labelStart u \<and> u_labelStart u + 64 \<le> domsBufSize"
  shows "punyencode u = Some (clear_flag urlIDN u) \<or>
    (\<exists>puny. out_ok puny \<and> u_labelStart u + length puny \<le> urlHostMax \<and>
       punyencode u = Some ((clear_flag urlIDN u)\<lparr>u_domEnd := u_labelStart u + length puny,
          u_domsBuf := copy_at (u_domsBuf u) (u_labelStart u) puny\<rparr>))"
proof -
  obtain r where r: "puny_decode (u_domsBuf u) (u_domEnd u) (u_labelStart u) [] = Some r"
    "\<And>us. r = Some us \<Longrightarrow> \<forall>v \<in> set us. v \<le> utf8Max"
    using puny_decode_returns [of "[]" "u_labelStart u" "u_domsBuf u" "u_domEnd u"] assms by auto
  show ?thesis
  proof (cases r)
    case None
    with r show ?thesis by (simp add: punyencode_def clear_flag_def)
  next
    case (Some us)
    with r puny_encode_returns [of us] obtain q where "puny_encode us = Some q"
      "\<forall>out. q = Some out \<longrightarrow> out_ok out" by blast
    with r Some show ?thesis
      by (cases q) (auto simp: punyencode_def clear_flag_def Let_def)
  qed
qed

section \<open>Which labels are encoded\<close>

text \<open>
  The URL scanner ends a host name at a byte from \<^verbatim>\<open>0x80\<close> to \<^verbatim>\<open>0xbf\<close>, so a label holds
  only the other bytes.  The decoder then rejects every label that is not pure ASCII.
\<close>

definition not_cont :: "byte \<Rightarrow> bool" where
  "not_cont b \<longleftrightarrow> b < 0x80 \<or> 0xc0 \<le> b"

lemma not_cont_table:
  "\<forall>b \<in> set (map of_nat [0..<256]). (b :: byte) < 0x80 \<or> 0xc0 \<le> b \<longrightarrow> \<not> (ucast b :: u32) XOR 0x80 \<le> 0x3f
     \<and> (0xc0 \<le> b \<longrightarrow> (ucast b :: u32) AND 0x80 \<noteq> 0)"
  by code_simp

lemma not_cont_xor: "not_cont b \<Longrightarrow> \<not> utf8_cont b \<le> 0x3f"
  using not_cont_table all_bytes [of b] unfolding not_cont_def utf8_cont_def by blast

lemma high_byte: "0xc0 \<le> b \<Longrightarrow> (ucast (b :: byte) :: u32) AND 0x80 \<noteq> 0"
  using not_cont_table all_bytes [of b] by blast

lemma low_byte: "b < 0x80 \<Longrightarrow> (ucast (b :: byte) :: u32) AND 0x80 = 0"
proof -
  have "\<forall>b \<in> set (map of_nat [0..<256]). (b :: byte) < 0x80 \<longrightarrow> (ucast b :: u32) AND 0x80 = 0"
    by code_simp
  then show "b < 0x80 \<Longrightarrow> (ucast b :: u32) AND 0x80 = 0" using all_bytes [of b] by blast
qed

lemma puny_utf8_ascii:
  "i < length buf \<Longrightarrow> buf ! i < 0x80 \<Longrightarrow> puny_utf8 buf e i = Some (Some (ucast (buf ! i), i + 1))"
  by (simp add: puny_utf8_def low_byte Let_def)

lemma puny_utf8_rejects:
  assumes "i < e" "e \<le> length buf" "0xc0 \<le> buf ! i" "\<forall>j. i < j \<and> j < e \<longrightarrow> not_cont (buf ! j)"
  shows "puny_utf8 buf e i = Some None"
proof -
  have n: "i + k < e \<Longrightarrow> k \<noteq> 0 \<Longrightarrow> 0x3f < utf8_cont (buf ! (i + k))" for k
    using assms(4) not_cont_xor [of "buf ! (i + k)"] by (simp add: not_le)
  have n': "i + 1 < e \<Longrightarrow> 0x3f < utf8_cont (buf ! (i + 1))"
    "i + 2 < e \<Longrightarrow> 0x3f < utf8_cont (buf ! (i + 2))"
    "i + 3 < e \<Longrightarrow> 0x3f < utf8_cont (buf ! (i + 3))"
    using n [of 1] n [of 2] n [of 3] by auto
  have i: "idx buf i = Some (buf ! i)"
    "\<And>k. i + k < e \<Longrightarrow> idx buf (i + k) = Some (buf ! (i + k))"
    using assms(1,2) by simp_all
  note h = high_byte [OF assms(3)]
  have e: "i + 1 + 1 = i + 2" "i + 1 + 2 = i + 3" by simp_all
  have s: "puny_utf8 buf e i = Some None"
    if "e \<le> i + 1 \<or> idx buf (i + 1) = Some (buf ! (i + 1)) \<and> 0x3f < utf8_cont (buf ! (i + 1))"
      "e \<le> i + 2 \<or> idx buf (i + 1) = Some (buf ! (i + 1)) \<and> idx buf (i + 2) = Some (buf ! (i + 2))
         \<and> 0x3f < utf8_cont (buf ! (i + 1))"
      "e \<le> i + 3 \<or> idx buf (i + 1) = Some (buf ! (i + 1)) \<and> idx buf (i + 2) = Some (buf ! (i + 2))
         \<and> idx buf (i + 3) = Some (buf ! (i + 3)) \<and> 0x3f < utf8_cont (buf ! (i + 1))"
    using that unfolding puny_utf8_def Let_def i(1) bind.bind_lunit if_not_P [OF h] e
    by (elim disjE conjE) (simp_all only: bind.bind_lunit simp_thms if_True if_cancel)
  show ?thesis
    by (rule s) (use n' i(2) [of 1] i(2) [of 2] i(2) [of 3] in auto)
qed

lemma puny_decode_rejects:
  assumes "i < e" "e \<le> length buf" "\<exists>j. i \<le> j \<and> j < e \<and> 0x80 \<le> buf ! j"
    "\<forall>j. i \<le> j \<and> j < e \<longrightarrow> not_cont (buf ! j)"
  shows "puny_decode buf e i acc = Some None"
  using assms
proof (induction "e - i" arbitrary: i acc)
  case (Suc k)
  show ?case
  proof (cases "buf ! i < 0x80")
    case True
    with Suc.prems obtain j where j: "i < j" "j < e" "0x80 \<le> buf ! j"
      by (metis le_neq_implies_less not_less)
    have "puny_decode buf e (i + 1) acc' = Some None" for acc'
      by (rule Suc.hyps(1)) (use Suc.hyps(2) Suc.prems j in \<open>auto intro: exI [of _ j]\<close>)
    moreover have "i + 1 \<noteq> e" using j by simp
    ultimately show ?thesis
      using True Suc.prems by (subst puny_decode.simps) (simp add: puny_utf8_ascii)
  next
    case False
    with Suc.prems have "0xc0 \<le> buf ! i" by (auto simp: not_cont_def)
    with Suc.prems have "puny_utf8 buf e i = Some None" by (intro puny_utf8_rejects) auto
    then show ?thesis by (subst puny_decode.simps) simp
  qed
qed simp

text \<open>
  On a label without UTF-8 continuation bytes, but with a byte outside ASCII, \<^verbatim>\<open>punyencode\<close> clears
  \<^verbatim>\<open>urlIDN\<close> and returns with the label and its length as they were.
\<close>

lemma puny_leaves_non_ascii:
  assumes "u_labelStart u < u_domEnd u" "u_domEnd u \<le> length (u_domsBuf u)"
    "\<forall>b \<in> set (drop (u_labelStart u) (take (u_domEnd u) (u_domsBuf u))). b < 0x80 \<or> 0xc0 \<le> b"
    "\<exists>b \<in> set (drop (u_labelStart u) (take (u_domEnd u) (u_domsBuf u))). 0x80 \<le> b"
  shows "punyencode u = Some (clear_flag urlIDN u)"
proof -
  let ?i = "u_labelStart u" and ?e = "u_domEnd u"
  have nth: "drop ?i (take ?e (u_domsBuf u)) ! k = u_domsBuf u ! (?i + k)" if "?i + k < ?e" for k
    using that assms(2) by simp
  have "puny_decode (u_domsBuf u) ?e ?i [] = Some None"
  proof (rule puny_decode_rejects [OF assms(1,2)])
    show "\<exists>j. ?i \<le> j \<and> j < ?e \<and> 0x80 \<le> u_domsBuf u ! j"
      using assms(4,2) by (auto simp: in_set_conv_nth) (metis le_add1 add.commute less_diff_conv)
    show "\<forall>j. ?i \<le> j \<and> j < ?e \<longrightarrow> not_cont (u_domsBuf u ! j)"
    proof (intro allI impI)
      fix j assume j: "?i \<le> j \<and> j < ?e"
      with assms(2) have "u_domsBuf u ! j \<in> set (drop ?i (take ?e (u_domsBuf u)))"
        by (auto simp: in_set_conv_nth intro!: exI [of _ "j - ?i"])
      with assms(3) show "not_cont (u_domsBuf u ! j)" by (auto simp: not_cont_def)
    qed
  qed
  then show ?thesis by (simp add: punyencode_def clear_flag_def)
qed


text \<open>The label as the encoder sees it.\<close>

definition label_of :: "ckURL \<Rightarrow> bytes" where
  "label_of u = drop (u_labelStart u) (take (u_domEnd u) (u_domsBuf u))"

lemma puny_decode_ascii:
  assumes "i < e" "e \<le> length buf" "\<forall>j. i \<le> j \<and> j < e \<longrightarrow> buf ! j < 0x80"
  shows "puny_decode buf e i acc = Some (if length acc + (e - i) \<le> urlLabelMax
    then Some (acc @ map unat (drop i (take e buf))) else None)"
  using assms
proof (induction "e - i" arbitrary: i acc)
  case (Suc k)
  have d: "drop i (take e buf) = buf ! i # drop (i + 1) (take e buf)"
    using Suc.prems by (simp add: Cons_nth_drop_Suc [symmetric])
  have u: "puny_utf8 buf e i = Some (Some (ucast (buf ! i), i + 1))"
    using Suc.prems by (simp add: puny_utf8_ascii)
  show ?case
  proof (cases "i + 1 = e")
    case True
    then show ?thesis using u d Suc.prems by (subst puny_decode.simps) auto
  next
    case False
    have "puny_decode buf e (i + 1) (acc @ [unat (buf ! i)]) = Some (if length (acc @ [unat (buf ! i)]) + (e - (i + 1)) \<le> urlLabelMax
        then Some ((acc @ [unat (buf ! i)]) @ map unat (drop (i + 1) (take e buf))) else None)"
      by (rule Suc.hyps(1)) (use Suc.hyps(2) Suc.prems False in auto)
    with u d False Suc.prems show ?thesis by (subst puny_decode.simps) auto
  qed
qed simp

lemma puny_basic_ascii:
  assumes "\<forall>b \<in> set l. (b :: byte) < 0x80"
  shows "puny_basic (map unat l) out n =
    (if l = [] \<or> length out + length l \<le> urlLabelMax then Some (out @ l, n + length l) else None)"
  using assms
proof (induction l arbitrary: out n)
  case (Cons b l)
  then have "unat b < 128" by (simp add: word_less_nat_alt)
  with Cons show ?case by (auto simp: punyOut_def)
qed simp

text \<open>
  C39. The label the encoder does rewrite is the pure ASCII one: it becomes \<^verbatim>\<open>xn--\<close>, the label
  and a hyphen, if that fits in 63 bytes and in the host name's 256, and otherwise stays.
\<close>

theorem punyencode_ascii:
  assumes "u_labelStart u < u_domEnd u" "u_domEnd u \<le> length (u_domsBuf u)"
    "\<forall>b \<in> set (label_of u). b < 0x80"
  shows "punyencode u = Some
    (if length (label_of u) + 5 \<le> urlLabelMax \<and> u_labelStart u + length (label_of u) + 5 \<le> urlHostMax
     then (clear_flag urlIDN u)\<lparr>u_domEnd := u_labelStart u + length (label_of u) + 5,
       u_domsBuf := copy_at (u_domsBuf u) (u_labelStart u) (punyPrefix @ label_of u @ [0x2d])\<rparr>
     else clear_flag urlIDN u)"
proof -
  let ?l = "label_of u"
  have len: "length ?l = u_domEnd u - u_labelStart u" "?l \<noteq> []"
    using assms(1,2) by (simp_all add: label_of_def)
  have "\<forall>j. u_labelStart u \<le> j \<and> j < u_domEnd u \<longrightarrow> u_domsBuf u ! j < 0x80"
  proof (intro allI impI)
    fix j assume j: "u_labelStart u \<le> j \<and> j < u_domEnd u"
    with assms(2) have "u_domsBuf u ! j \<in> set ?l"
      by (auto simp: label_of_def in_set_conv_nth intro!: exI [of _ "j - u_labelStart u"])
    with assms(3) show "u_domsBuf u ! j < 0x80" by blast
  qed
  then have d: "puny_decode (u_domsBuf u) (u_domEnd u) (u_labelStart u) []
      = Some (if length ?l \<le> urlLabelMax then Some (map unat ?l) else None)"
    using puny_decode_ascii [OF assms(1,2), of "[]"] unfolding len(1) [symmetric] label_of_def [symmetric] by simp
  have "puny_encode (map unat ?l)
      = Some (if length ?l + 5 \<le> urlLabelMax then Some (punyPrefix @ ?l @ [0x2d]) else None)"
    using len(2) puny_basic_ascii [OF assms(3), of punyPrefix 0]
    by (auto simp: puny_encode_def punyOut_def punyPrefix_def urlLabelMax_def puny_loop.simps)
  with d show ?thesis
    by (auto simp: punyencode_def Let_def punyPrefix_def urlLabelMax_def clear_flag_def)
qed

definition ascii_label :: ckURL where
  "ascii_label = newURL\<lparr>u_domEnd := 3, u_flags := urlIDN, u_domsBuf := [0x61, 0x62, 0x63] @ replicate 511 0\<rparr>"

lemma punyencode_ascii_witness:
  "punyencode ascii_label = Some ((clear_flag urlIDN ascii_label)\<lparr>u_domEnd := 8,
     u_domsBuf := copy_at (u_domsBuf ascii_label) 0 (punyPrefix @ [0x61, 0x62, 0x63, 0x2d])\<rparr>)"
proof -
  have l: "label_of ascii_label = [0x61, 0x62, 0x63]"
    by (simp add: label_of_def ascii_label_def newURL_def numeral_3_eq_3)
  have s: "u_labelStart ascii_label = 0" "u_domEnd ascii_label = 3" "length (u_domsBuf ascii_label) = 514"
    by (simp_all add: ascii_label_def newURL_def)
  show ?thesis
    using punyencode_ascii [of ascii_label] by (simp add: l s urlLabelMax_def urlHostMax_def)
qed

text \<open>The sample of RFC 3492's users: \<^verbatim>\<open>buecher\<close> with its umlaut.\<close>

lemma puny_sample: "puny_encode [98, 252, 99, 104, 101, 114]
    = Some (Some [0x78, 0x6e, 0x2d, 0x2d, 98, 99, 104, 101, 114, 45, 107, 118, 97])"
  by (simp add: puny_encode_def puny_loop.simps puny_digits.simps adapt_loop.simps punyAdapt_def
      puny_next_def puny_threshold_def puny_consts punyInitialN_def punyInitialBias_def punyOut_def
      urlLabelMax_def punyPrefix_def utf8Max_def punyCode36_def Let_def upt_rec_numeral)

end
