(* ===== verification/Fuz1.thy ===== *)
theory Fuz1
  imports Puny Fuz2
begin

text \<open>
  \<^verbatim>\<open>dcc/fuz1.go\<close>: the Fuz1 checksum (ckfuz1.c).  Letters of the lower-cased body are collected
  in a line buffer that is summed with MD5; greeting and date lines are dropped; inside a URL
  only the host name is kept, without its third-level labels.  The buffer's end \<^verbatim>\<open>cp\<close>, its last
  line end \<^verbatim>\<open>eol\<close> (-1 when there is none) and the URL positions are Go ints and every slice
  of the buffer is checked, so that \<open>None\<close> is a panic of the code.

  The back pointer \<^verbatim>\<open>f.c\<close> gives the shared URL extractor, passed beside the state, and the
  English word count of Fuz2, the argument \<open>wc\<close>: Fuz2 runs after Fuz1 on every chunk
  (\<^verbatim>\<open>mime.go\<close>), so the count does not change while Fuz1 runs.
\<close>

definition fuz1MaxLine :: int where "fuz1MaxLine = 78"
definition fuz1BufMax :: int where "fuz1BufMax = fuz1MaxLine * 4"
definition httpsLen :: int where "httpsLen = 5"
definition fuz1BufSize :: int where "fuz1BufSize = fuz1BufMax + httpsLen"
definition maxFuz1Len :: int where "maxFuz1Len = 4 * 1024"

lemmas fuz1_consts = fuz1MaxLine_def fuz1BufMax_def httpsLen_def fuz1BufSize_def

datatype urlRes = UrlResFwd | UrlResCkSpace | UrlResSkip

record fuz1State =
  f1_buf :: bytes
  f1_cp :: int
  f1_eol :: int
  f1_total :: int
  f1_md5 :: md5

definition newFuz1State :: fuz1State where
  "newFuz1State = \<lparr>f1_buf = replicate 317 0, f1_cp = 0, f1_eol = -1, f1_total = 0, f1_md5 = md5_new\<rparr>"

type_synonym fuz1Ctx = "fuz1State \<times> ckURL"

section \<open>Summing\<close>

text \<open>At most \<^verbatim>\<open>maxFuz1Len\<close> bytes are summed in all.\<close>

definition addSum :: "int \<Rightarrow> fuz1State \<Rightarrow> fuz1State option" where
  "addSum len f =
     (if len = 0 then Some f
      else let i = maxFuz1Len - (f1_total f + len);
               len = (if i < 0 then len + i else len)
        in if len = 0 then Some f
           else do {
             b \<leftarrow> slice (f1_buf f) 0 len;
             Some (f\<lparr>f1_md5 := md5_write (f1_md5 f) b, f1_total := f1_total f + len\<rparr>)
           })"

definition clearBuf :: "bytes \<Rightarrow> bytes" where
  "clearBuf b = replicate (length b) 0"

definition clearBufFrom :: "bytes \<Rightarrow> int \<Rightarrow> bytes option" where
  "clearBufFrom b from =
     (if from \<ge> int (length b) then Some b
      else if from < 0 then None
      else Some (take (nat from) b @ replicate (length b - nat from) 0))"

definition upd_int :: "bytes \<Rightarrow> int \<Rightarrow> byte \<Rightarrow> bytes option" where
  "upd_int b i c = (if i < 0 then None else upd b (nat i) c)"

section \<open>Host names\<close>

definition resetDomsBuf :: "int \<Rightarrow> ckURL \<Rightarrow> ckURL" where
  "resetDomsBuf urlStart u =
     clear_flag (urlIDN OR urlDOT)
       (u\<lparr>u_start := urlStart, u_tld := -1, u_sld := -1, u_domEnd := u_domStart u,
          u_labelStart := u_domStart u, u_punct := 0, u_dot1 := 0, u_dot2 := 0, u_urlTotal := 0\<rparr>)"

definition urlHostSave :: "byte \<Rightarrow> ckURL \<Rightarrow> ckURL option" where
  "urlHostSave uc u =
     (let u = (if int (u_domEnd u) - int (u_domStart u) \<ge> int urlHostMax
               then (set_flag urlTooLong (resetDomsBuf (-1) u))\<lparr>u_st := UrlIdle\<rparr> else u)
      in if has urlTooLong u then Some u
         else do {
           b \<leftarrow> upd (u_domsBuf u) (u_domEnd u) uc;
           Some (u\<lparr>u_domsBuf := b, u_domEnd := u_domEnd u + 1\<rparr>)
         })"

text \<open>Deleting the third-level label from the Fuz1 buffer, and from \<^verbatim>\<open>domsBuf\<close> for Fuz2.\<close>

definition delete_label_buf :: "ckURL \<Rightarrow> fuz1State \<Rightarrow> fuz1State option" where
  "delete_label_buf u f =
     (if f1_eol f = -1 then Some (f\<lparr>f1_cp := u_start u\<rparr>)
      else let len = f1_cp f - u_sld u
        in do {
          _ \<leftarrow> slice (f1_buf f) (u_start u) (u_start u + len);
          b \<leftarrow> slice (f1_buf f) (u_sld u) (u_sld u + len);
          Some (f\<lparr>f1_buf := copy_at (f1_buf f) (nat (u_start u)) b,
                  f1_eol := (if f1_eol f \<ge> f1_cp f then u_start u + len else f1_eol f),
                  f1_cp := u_start u + len\<rparr>)
        })"

definition delete_label_doms :: "ckURL \<Rightarrow> ckURL option" where
  "delete_label_doms u =
     (let len = int (u_domEnd u) - int (u_dot2 u); a = int (u_domStart u)
      in do {
        _ \<leftarrow> slice (u_domsBuf u) a (a + len);
        b \<leftarrow> slice (u_domsBuf u) (int (u_dot2 u)) (int (u_dot2 u) + len);
        Some (u\<lparr>u_domsBuf := copy_at (u_domsBuf u) (u_domStart u) b, u_domEnd := nat (a + len)\<rparr>)
      })"

definition urlHostEnd :: "nat \<Rightarrow> fuz1Ctx \<Rightarrow> fuz1Ctx option" where
  "urlHostEnd wc s = (case s of (f, u) \<Rightarrow>
     let u = (if u_punct u \<noteq> 0 then u\<lparr>u_domEnd := u_punct u\<rparr> else u)
     in if u_domEnd u \<le> u_domStart u \<or> has urlTooLong u then Some (f, u)
        else do {
          u \<leftarrow> (if has urlIDN u then punyencode u else Some u);
          b \<leftarrow> upd (u_domsBuf u) (u_domEnd u) 0;
          let u = u\<lparr>u_domsBuf := b, u_domEnd := u_domEnd u + 1\<rparr>;
          f \<leftarrow> (if u_dot2 u \<noteq> 0 then delete_label_buf u f else Some f);
          u \<leftarrow> (if u_dot2 u \<noteq> 0 \<and> wc < fuz2MinWords then delete_label_doms u else Some u);
          Some (f, u\<lparr>u_domStart := u_domEnd u, u_doms := u_doms u + 1\<rparr>)
        })"

section \<open>The URL state machine\<close>

text \<open>The states before the host name: \<^verbatim>\<open>http://\<close> or \<^verbatim>\<open>https://\<close>, perhaps after \<^verbatim>\<open>=\<close> and a quote.\<close>

definition url_prefix :: "byte \<Rightarrow> ckURL \<Rightarrow> ckURL" where
  "url_prefix uc u =
     (case u_st u of
        UrlIdle \<Rightarrow>
          if uc = 0x68 then u\<lparr>u_st := UrlT1, u_flags := 0\<rparr>
          else if uc = 0x3d then u\<lparr>u_st := UrlQuote, u_flags := 0\<rparr> else u
      | UrlQuote \<Rightarrow>
          if uc = 0x68 then u\<lparr>u_st := UrlT1\<rparr>
          else if uc = 0x22 then (set_flag urlDQuoted u)\<lparr>u_st := UrlQH\<rparr>
          else if uc = 0x27 then u\<lparr>u_flags := urlSQuoted, u_st := UrlQH\<rparr>
          else u\<lparr>u_st := UrlIdle\<rparr>
      | UrlQH \<Rightarrow> if uc = 0x68 then u\<lparr>u_st := UrlT1\<rparr> else u\<lparr>u_st := UrlIdle\<rparr>
      | UrlT1 \<Rightarrow> if uc = 0x74 then u\<lparr>u_st := UrlT2\<rparr> else u\<lparr>u_st := UrlIdle\<rparr>
      | UrlT2 \<Rightarrow> if uc = 0x74 then u\<lparr>u_st := UrlP\<rparr> else u\<lparr>u_st := UrlIdle\<rparr>
      | UrlP \<Rightarrow> if uc = 0x70 then u\<lparr>u_st := UrlS\<rparr> else u\<lparr>u_st := UrlIdle\<rparr>
      | UrlS \<Rightarrow>
          if uc = 0x73 then u\<lparr>u_st := UrlColon\<rparr>
          else if uc = 0x3a then u\<lparr>u_st := UrlSlash1\<rparr> else u\<lparr>u_st := UrlIdle\<rparr>
      | UrlColon \<Rightarrow> if uc = 0x3a then u\<lparr>u_st := UrlSlash1\<rparr> else u\<lparr>u_st := UrlIdle\<rparr>
      | UrlSlash1 \<Rightarrow> if uc = 0x2f then u\<lparr>u_st := UrlSlash2\<rparr> else u\<lparr>u_st := UrlIdle\<rparr>
      | _ \<Rightarrow> u)"

fun indexByteFrom :: "bytes \<Rightarrow> byte \<Rightarrow> nat \<Rightarrow> nat option" where
  "indexByteFrom [] target limit = None"
| "indexByteFrom (x # xs) target limit =
     (if limit = 0 then None
      else if x = target then Some 0
      else map_option Suc (indexByteFrom xs target (limit - 1)))"

text \<open>Making room for one more host name: the oldest names are dropped.\<close>

function compactDoms :: "ckURL \<Rightarrow> ckURL option" where
  "compactDoms u =
     (if u_domStart u > domsBufSize - urlHostMaxSave
      then (case indexByteFrom (u_domsBuf u) 0 (u_domStart u) of
              None \<Rightarrow> None
            | Some p \<Rightarrow>
                let d = u_domStart u - (p + 1)
                in (case nslice (u_domsBuf u) (p + 1) (p + 1 + d) of
                      None \<Rightarrow> None
                    | Some b \<Rightarrow>
                        compactDoms (u\<lparr>u_domStart := d, u_domsBuf := copy_at (u_domsBuf u) 0 b\<rparr>)))
      else Some u)"
  by pat_completeness auto
termination
  by (relation "measure u_domStart") (auto simp: domsBufSize_def urlHostMaxSave_def)

declare compactDoms.simps [simp del]

definition url_slash2 :: "nat \<Rightarrow> byte \<Rightarrow> ckURL \<Rightarrow> (ckURL \<times> urlRes) option" where
  "url_slash2 wc uc u =
     (if uc = 0x2f then do {
        u \<leftarrow> (if wc \<ge> fuz2MinWords then Some (u\<lparr>u_domStart := 0\<rparr>) else compactDoms u);
        Some (u\<lparr>u_st := UrlSlash3Start\<rparr>, UrlResCkSpace)
      }
      else Some (u\<lparr>u_st := UrlIdle\<rparr>, UrlResFwd))"

definition host_char :: "byte \<Rightarrow> bool" where
  "host_char uc \<longleftrightarrow> 0x61 \<le> uc \<and> uc \<le> 0x7a \<or> 0x30 \<le> uc \<and> uc \<le> 0x39 \<or> uc = 0x2d \<or> uc = 0x5f"

definition user_punct :: "byte \<Rightarrow> bool" where
  "user_punct uc \<longleftrightarrow> uc \<in> set [0x3b, 0x3f, 0x26, 0x3d, 0x24, 0x2b, 0x21, 0x2a, 0x28, 0x29, 0x2c]"

text \<open>
  Saving a character of the host name, and before it the dot that was seen, unless the name
  has already ended at a punctuation mark.
\<close>

definition url_save_dot :: "int \<Rightarrow> ckURL \<Rightarrow> ckURL option" where
  "url_save_dot cp u = do {
     let u = clear_flag urlDOT u;
     u \<leftarrow> (if has urlIDN u then punyencode u else Some u);
     u \<leftarrow> urlHostSave 0x2e u;
     Some (u\<lparr>u_dot2 := u_dot1 u, u_dot1 := u_domEnd u, u_labelStart := u_domEnd u,
             u_sld := u_tld u, u_tld := cp\<rparr>)
   }"

definition url_save :: "byte \<Rightarrow> fuz1Ctx \<Rightarrow> fuz1Ctx option" where
  "url_save uc s = (case s of (f, u) \<Rightarrow>
     if u_punct u = 0 then do {
       u \<leftarrow> (if has urlDOT u then url_save_dot (f1_cp f) u else Some u);
       u \<leftarrow> urlHostSave uc u;
       Some (f, u)
     }
     else Some (f, u))"

text \<open>The host name ends: \<open>q\<close> are the quotes that make the rest of the URL part of it.\<close>

definition url_end :: "nat \<Rightarrow> byte \<Rightarrow> fuz1Ctx \<Rightarrow> fuz1Ctx option" where
  "url_end wc q s = do {
     (f, u) \<leftarrow> urlHostEnd wc s;
     Some (f, u\<lparr>u_st := if has q u then UrlSkippingURL else UrlIdle\<rparr>)
   }"

definition url_slash3 :: "nat \<Rightarrow> byte \<Rightarrow> fuz1Ctx \<Rightarrow> fuz1Ctx option" where
  "url_slash3 wc uc s = (case s of (f, u) \<Rightarrow>
     let u = u\<lparr>u_urlTotal := u_urlTotal u + 1\<rparr>
     in if u_urlTotal u > urlFailsafe then Some (f, u\<lparr>u_st := UrlIdle\<rparr>)
        else if host_char uc then url_save uc (f, u)
        else if uc = 0x2e \<and> u_punct u = 0 then
          Some (f, if has urlDOT u then u\<lparr>u_punct := u_domEnd u\<rparr> else set_flag urlDOT u)
        else if uc = 0x2f \<or> uc = 0x5c then
          map_option (\<lambda>(f, u). (f, u\<lparr>u_st := UrlSkippingURL\<rparr>)) (urlHostEnd wc (f, u))
        else if uc = 0x22 then url_end wc urlSQuoted (f, u)
        else if uc = 0x27 then url_end wc urlDQuoted (f, u)
        else if uc = 0x3c \<or> uc = 0x3e \<or> uc \<le> 0x20 \<or> uc = 0xa0 \<and> \<not> has urlIDN u then
          url_end wc urlQuoted (f, u)
        else if uc = 0x40 \<and> \<not> has urlUsername u then
          Some (f\<lparr>f1_cp := u_start u\<rparr>, (set_flag urlUsername u)\<lparr>u_st := UrlSlash3Start\<rparr>)
        else if uc = 0x3a \<or> user_punct uc \<and> \<not> has urlUsername u then
          url_save uc (f, if u_punct u = 0 then u\<lparr>u_punct := u_domEnd u\<rparr> else u)
        else if uc AND 0xc0 = 0xc0 \<and> u_punct u = 0 then url_save uc (f, set_flag urlIDN u)
        else url_end wc urlQuoted (f, u))"

definition url_skipping :: "byte \<Rightarrow> ckURL \<Rightarrow> ckURL" where
  "url_skipping uc u =
     (let u = u\<lparr>u_urlTotal := u_urlTotal u + 1\<rparr>
      in if uc = 0x22 \<and> \<not> has urlSQuoted u \<or> uc = 0x27 \<and> \<not> has urlDQuoted u
            \<or> uc = 0x3e \<and> \<not> has urlQuoted u \<or> uc = 0x20 \<or> uc = 0x09 \<or> uc = 0x0a \<or> uc = 0x0d
            \<or> uc = 0xa0 \<and> \<not> has urlIDN u \<or> u_urlTotal u > urlFailsafe
         then u\<lparr>u_st := UrlIdle\<rparr> else u)"

text \<open>The \<^verbatim>\<open>switch u.st\<close> of \<^verbatim>\<open>ckURLStep\<close>, on the character a reference may have produced.\<close>

definition url_switch :: "nat \<Rightarrow> byte \<Rightarrow> fuz1Ctx \<Rightarrow> (fuz1Ctx \<times> urlRes) option" where
  "url_switch wc uc s = (case s of (f, u) \<Rightarrow>
     case u_st u of
       UrlSlash2 \<Rightarrow> map_option (\<lambda>(u, r). ((f, u), r)) (url_slash2 wc uc u)
     | UrlSlash3Start \<Rightarrow>
         map_option (\<lambda>s. (s, UrlResFwd))
           (url_slash3 wc uc (f, (resetDomsBuf (f1_cp f) u)\<lparr>u_st := UrlSlash3\<rparr>))
     | UrlSlash3 \<Rightarrow> map_option (\<lambda>s. (s, UrlResFwd)) (url_slash3 wc uc (f, u))
     | UrlSkippingURL \<Rightarrow> Some ((f, url_skipping uc u), UrlResSkip)
     | _ \<Rightarrow> Some ((f, url_prefix uc u), UrlResFwd))"

text \<open>\<^verbatim>\<open>ckURLStep\<close>: the state, what to do with the byte, and whether the byte is read again.\<close>

definition ckURLStep :: "nat \<Rightarrow> byte \<Rightarrow> fuz1Ctx \<Rightarrow> (fuz1Ctx \<times> urlRes \<times> bool) option" where
  "ckURLStep wc uc s = (case s of (f, u) \<Rightarrow>
     if uc = 0x26 \<or> cr_st (u_cref u) \<noteq> CrefIdle then do {
       (cr, i) \<leftarrow> cref_step uc (u_cref u);
       let u = u\<lparr>u_cref := cr\<rparr>;
       if i < 0 then Some ((f, u), UrlResFwd, False)
       else do {
         (s, r) \<leftarrow> url_switch wc (cr_result cr) (f, u);
         Some (s, r, i = 1)
       }
     }
     else do {
       (s, r) \<leftarrow> url_switch wc uc (f, u);
       Some (s, r, False)
     })"

section \<open>The line buffer\<close>

definition dear_word :: "bytes \<Rightarrow> string \<Rightarrow> bool" where
  "dear_word buf w \<longleftrightarrow> length buf \<ge> length w + 1 \<and> take (length w) buf = str w"

definition dearSucker :: "bytes \<Rightarrow> bool" where
  "dearSucker buf \<longleftrightarrow> dear_word buf ''dear'' \<or> dear_word buf ''hello''
     \<or> dear_word buf ''greeting'' \<or> dear_word buf ''date''"

text \<open>
  Making room for a host name at \<^verbatim>\<open>urlResCkSpace\<close>.  An iteration with \<^verbatim>\<open>eol\<close> set unsets it
  and one with it unset empties the buffer, so \<open>ckSpace_iter\<close> runs at most twice.
\<close>

definition ckSpace_iter :: "fuz1State \<Rightarrow> fuz1State option" where
  "ckSpace_iter f =
     (if f1_eol f = -1 then do {
        f \<leftarrow> addSum (f1_cp f) f;
        b \<leftarrow> clearBufFrom (f1_buf f) 0;
        Some (f\<lparr>f1_buf := b, f1_cp := 0\<rparr>)
      }
      else do {
        let len = f1_eol f;
        f \<leftarrow> addSum len f;
        src \<leftarrow> slice (f1_buf f) (f1_eol f) (f1_cp f);
        let cp = f1_cp f - len;
        b \<leftarrow> clearBufFrom (copy_at (f1_buf f) 0 src) cp;
        Some (f\<lparr>f1_buf := b, f1_cp := cp, f1_eol := -1\<rparr>)
      })"

function ckSpace :: "fuz1State \<Rightarrow> fuz1State option" where
  "ckSpace f =
     (if f1_cp f \<ge> fuz1BufSize - int urlHostMax
      then (case ckSpace_iter f of None \<Rightarrow> None | Some f \<Rightarrow> ckSpace f)
      else Some f)"
  by pat_completeness auto
termination
proof (relation "measure (\<lambda>f. if f1_cp f < 61 then 0 else if f1_eol f = -1 then 1 else 2)", goal_cases)
  case (2 f f')
  then show ?case
    by (auto simp: ckSpace_iter_def bind_Some_iff Let_def fuz1_consts urlHostMax_def split: if_splits)
qed simp

declare ckSpace.simps [simp del]

text \<open>A letter is added to the buffer, which is summed when it is full.\<close>

definition fuz1_letter :: "byte \<Rightarrow> fuz1Ctx \<Rightarrow> fuz1Ctx option" where
  "fuz1_letter c s = (case s of (f, u) \<Rightarrow> do {
     b \<leftarrow> upd_int (f1_buf f) (f1_cp f) c;
     let f = f\<lparr>f1_buf := b, f1_cp := f1_cp f + 1\<rparr>;
     if f1_cp f < fuz1BufSize then Some (f, u)
     else do {
       f \<leftarrow> addSum (f1_cp f) f;
       Some (f\<lparr>f1_cp := 0, f1_eol := -1, f1_buf := clearBuf (f1_buf f)\<rparr>, u\<lparr>u_st := UrlIdle\<rparr>)
     }
   })"

text \<open>A line ends: a greeting is dropped, a full buffer is summed.\<close>

definition is_greeting :: "fuz1State \<Rightarrow> bool option" where
  "is_greeting f =
     (if f1_eol f \<noteq> -1 \<and> f1_cp f - f1_eol f > 0 \<and> f1_cp f - f1_eol f \<le> fuz1MaxLine
      then map_option dearSucker (slice (f1_buf f) (f1_eol f) (f1_cp f)) else Some False)"

definition fuz1_newline :: "fuz1Ctx \<Rightarrow> fuz1Ctx option" where
  "fuz1_newline s = (case s of (f, u) \<Rightarrow> do {
     g \<leftarrow> is_greeting f;
     if g then Some (f\<lparr>f1_cp := f1_eol f\<rparr>, u\<lparr>u_st := UrlIdle\<rparr>)
     else if f1_cp f \<ge> fuz1BufSize - (fuz1MaxLine + httpsLen) then do {
       f \<leftarrow> addSum (f1_cp f) f;
       Some (f\<lparr>f1_cp := 0, f1_eol := -1, f1_buf := clearBuf (f1_buf f)\<rparr>, u\<lparr>u_st := UrlIdle\<rparr>)
     }
     else Some (f\<lparr>f1_eol := f1_cp f\<rparr>, u)
   })"

definition fuz1_char :: "byte \<Rightarrow> fuz1Ctx \<Rightarrow> fuz1Ctx option" where
  "fuz1_char c s =
     (if isLower c then fuz1_letter c s
      else if c = 0x0a then fuz1_newline s
      else Some s)"

text \<open>One iteration of the loop of \<^verbatim>\<open>fuz1\<close>, on a lower-cased byte; the flag tells whether the byte is consumed.\<close>

definition fuz1_step :: "nat \<Rightarrow> byte \<Rightarrow> fuz1Ctx \<Rightarrow> (fuz1Ctx \<times> bool) option" where
  "fuz1_step wc c s =
     (if c = 0x68 \<or> c = 0x3d \<or> u_st (snd s) \<noteq> UrlIdle then do {
        ((f, u), r, again) \<leftarrow> ckURLStep wc c s;
        case r of
          UrlResSkip \<Rightarrow> Some ((f, u), \<not> again)
        | UrlResFwd \<Rightarrow> map_option (\<lambda>s. (s, \<not> again)) (fuz1_char c (f, u))
        | UrlResCkSpace \<Rightarrow> do {
            f \<leftarrow> ckSpace f;
            map_option (\<lambda>s. (s, \<not> again)) (fuz1_char c (f, u))
          }
      }
      else map_option (\<lambda>s. (s, True)) (fuz1_char c s))"

text \<open>The end of a chunk: a buffer that ends with its line is summed.\<close>

definition fuz1_chunk_end :: "fuz1Ctx \<Rightarrow> fuz1Ctx option" where
  "fuz1_chunk_end s = (case s of (f, u) \<Rightarrow>
     if f1_cp f \<noteq> 0 \<and> f1_eol f = f1_cp f then do {
       f \<leftarrow> addSum (f1_cp f) f;
       Some (f\<lparr>f1_cp := 0, f1_eol := -1, f1_buf := clearBuf (f1_buf f)\<rparr>, u)
     }
     else Some (f, u))"

text \<open>No operation but the decoder's own step touches the reference decoder.\<close>

lemma set_clear_cref [simp]:
  "u_cref (set_flag fl u) = u_cref u" "u_cref (clear_flag fl u) = u_cref u"
  "u_cref (resetDomsBuf i u) = u_cref u" "u_cref (url_prefix uc u) = u_cref u"
  "u_cref (url_skipping uc u) = u_cref u"
  by (simp_all add: set_flag_def clear_flag_def resetDomsBuf_def url_prefix_def url_skipping_def Let_def
      split: urlSt.split)

lemma punyencode_cref: "punyencode u = Some u' \<Longrightarrow> u_cref u' = u_cref u"
  by (auto simp: punyencode_def Let_def split: option.splits if_splits)

lemma urlHostSave_cref: "urlHostSave uc u = Some u' \<Longrightarrow> u_cref u' = u_cref u"
  by (auto simp: urlHostSave_def Let_def bind_Some_iff split: if_splits)

lemma url_save_cref: "url_save uc s = Some s' \<Longrightarrow> u_cref (snd s') = u_cref (snd s)"
  by (cases s) (auto simp: url_save_def url_save_dot_def bind_Some_iff Let_def
      dest!: urlHostSave_cref punyencode_cref split: if_splits)

lemma compactDoms_cref: "compactDoms u = Some u' \<Longrightarrow> u_cref u' = u_cref u"
proof (induction u rule: compactDoms.induct)
  case (1 u)
  from "1.prems" show ?case
    by (subst (asm) compactDoms.simps) (auto simp: Let_def split: if_splits option.splits dest: "1.IH")
qed

lemma delete_label_doms_cref: "delete_label_doms u = Some u' \<Longrightarrow> u_cref u' = u_cref u"
  by (auto simp: delete_label_doms_def Let_def bind_Some_iff)

lemma urlHostEnd_cref: "urlHostEnd wc s = Some s' \<Longrightarrow> u_cref (snd s') = u_cref (snd s)"
  by (cases s) (auto simp: urlHostEnd_def Let_def bind_Some_iff
      dest!: punyencode_cref delete_label_doms_cref split: if_splits)

lemma url_end_cref: "url_end wc q s = Some s' \<Longrightarrow> u_cref (snd s') = u_cref (snd s)"
  by (auto simp: url_end_def bind_Some_iff dest!: urlHostEnd_cref)

text \<open>The ways a character of the host name is handled.\<close>

definition slash3_end :: "nat \<Rightarrow> fuz1Ctx \<Rightarrow> urlSt \<Rightarrow> fuz1Ctx option" where
  "slash3_end wc s st = map_option (\<lambda>(f, u). (f, u\<lparr>u_st := st\<rparr>)) (urlHostEnd wc s)"

lemma url_end_eq: "\<exists>st \<in> {UrlIdle, UrlSkippingURL}. url_end wc q s = slash3_end wc s st"
proof (cases "urlHostEnd wc s")
  case (Some r)
  then show ?thesis
    by (cases r; cases "has q (snd r)") (auto simp: url_end_def slash3_end_def)
qed (auto simp: url_end_def slash3_end_def)

lemma url_slash3_cases:
  fixes f u
  defines "u1 \<equiv> u\<lparr>u_urlTotal := u_urlTotal u + 1\<rparr>"
  obtains (limit) "url_slash3 wc uc (f, u) = Some (f, u1\<lparr>u_st := UrlIdle\<rparr>)"
  | (host) "url_slash3 wc uc (f, u) = url_save uc (f, u1)" "uc \<noteq> 0x0a"
  | (dot2) "url_slash3 wc uc (f, u) = Some (f, u1\<lparr>u_punct := u_domEnd u\<rparr>)" "u_punct u = 0" "uc \<noteq> 0x0a"
  | (dot) "url_slash3 wc uc (f, u) = Some (f, set_flag urlDOT u1)" "uc \<noteq> 0x0a"
  | (fin) st where "url_slash3 wc uc (f, u) = slash3_end wc (f, u1) st" "st = UrlIdle \<or> st = UrlSkippingURL"
  | (user) "url_slash3 wc uc (f, u) = Some (f\<lparr>f1_cp := u_start u\<rparr>, (set_flag urlUsername u1)\<lparr>u_st := UrlSlash3Start\<rparr>)" "uc \<noteq> 0x0a"
  | (punct) "url_slash3 wc uc (f, u) = url_save uc (f, u1\<lparr>u_punct := u_domEnd u\<rparr>)" "u_punct u = 0" "uc \<noteq> 0x0a"
  | (idn) "url_slash3 wc uc (f, u) = url_save uc (f, set_flag urlIDN u1)" "uc \<noteq> 0x0a"
proof -
  have n: "\<not> host_char 0x0a" by (simp add: host_char_def)
  note r = url_slash3_def Let_def prod.case u1_def [symmetric]
  have fin': thesis if "url_slash3 wc uc (f, u) = url_end wc q (f, u1)" for q
    using that url_end_eq [of wc q "(f, u1)"] fin by auto
  consider "u_urlTotal u1 > urlFailsafe" | "\<not> u_urlTotal u1 > urlFailsafe" "host_char uc"
    | "\<not> u_urlTotal u1 > urlFailsafe" "\<not> host_char uc" by blast
  then show thesis
  proof cases
    case 1
    then show thesis by (intro limit) (simp only: r if_True)
  next
    case 2
    with n have "uc \<noteq> 0x0a" by blast
    moreover have "url_slash3 wc uc (f, u) = url_save uc (f, u1)"
      using 2 by (simp only: r if_True if_False)
    ultimately show thesis by (intro host)
  next
    case 3
    note f = r if_not_P [OF 3(1)] if_not_P [OF 3(2)]
    show thesis
    proof (cases "uc = 0x0a")
      case True
      then have "url_slash3 wc uc (f, u) = url_end wc urlQuoted (f, u1)" unfolding f by simp
      then show thesis by (rule fin')
    next
      case False
      have p: "u_punct u1 = u_punct u" "u_domEnd u1 = u_domEnd u" "u_start u1 = u_start u" by (simp_all add: u1_def)
      have "url_slash3 wc uc (f, u) = Some (f, if has urlDOT u1 then u1\<lparr>u_punct := u_domEnd u\<rparr> else set_flag urlDOT u1) \<and> u_punct u = 0
        \<or> url_slash3 wc uc (f, u) = slash3_end wc (f, u1) UrlSkippingURL
        \<or> url_slash3 wc uc (f, u) = url_end wc urlSQuoted (f, u1)
        \<or> url_slash3 wc uc (f, u) = url_end wc urlDQuoted (f, u1)
        \<or> url_slash3 wc uc (f, u) = url_end wc urlQuoted (f, u1)
        \<or> url_slash3 wc uc (f, u) = Some (f\<lparr>f1_cp := u_start u\<rparr>, (set_flag urlUsername u1)\<lparr>u_st := UrlSlash3Start\<rparr>)
        \<or> url_slash3 wc uc (f, u) = url_save uc (f, u1\<lparr>u_punct := u_domEnd u\<rparr>) \<and> u_punct u = 0
        \<or> url_slash3 wc uc (f, u) = url_save uc (f, u1)
        \<or> url_slash3 wc uc (f, u) = url_save uc (f, set_flag urlIDN u1)"
        unfolding f p slash3_end_def by presburger
      then show thesis
        by (elim disjE conjE)
          (auto intro: fin' limit host dot2 dot fin user punct idn simp: False split: if_splits)
    qed
  qed
qed

lemma url_slash3_cref:
  assumes "url_slash3 wc uc s = Some s'"
  shows "u_cref (snd s') = u_cref (snd s)"
proof -
  obtain f u where s: "s = (f, u)" by (cases s)
  show ?thesis
    using assms unfolding s
    by (cases rule: url_slash3_cases [of wc uc f u])
      (auto simp: slash3_end_def dest!: url_save_cref urlHostEnd_cref)
qed

lemma url_slash2_cref: "url_slash2 wc uc u = Some (u', r) \<Longrightarrow> u_cref u' = u_cref u"
  by (auto simp: url_slash2_def bind_Some_iff dest!: compactDoms_cref split: if_splits)

lemma url_switch_cref: "url_switch wc uc s = Some (s', r) \<Longrightarrow> u_cref (snd s') = u_cref (snd s)"
  by (cases s) (auto simp: url_switch_def dest: url_slash2_cref url_slash3_cref split: urlSt.splits)

lemma ckURLStep_cref:
  assumes "ckURLStep wc uc s = Some (s', r, True)"
  shows "cr_st (u_cref (snd s')) = CrefIdle \<and> cr_st (u_cref (snd s)) \<noteq> CrefIdle"
  using assms
  by (cases s) (auto simp: ckURLStep_def bind_Some_iff Let_def
      dest!: url_switch_cref cref_step_done split: if_splits)

lemma fuz1_char_cref: "fuz1_char c s = Some s' \<Longrightarrow> u_cref (snd s') = u_cref (snd s)"
  by (cases s) (auto simp: fuz1_char_def fuz1_letter_def fuz1_newline_def Let_def bind_Some_iff split: if_splits)

definition fuz1_debt :: "fuz1Ctx \<Rightarrow> nat" where
  "fuz1_debt s = (if cr_st (u_cref (snd s)) = CrefIdle then 0 else 1)"

lemma fuz1_step_debt: "fuz1_step wc c s = Some (s', False) \<Longrightarrow> fuz1_debt s' < fuz1_debt s"
  by (cases s) (auto simp: fuz1_step_def fuz1_debt_def bind_Some_iff
      dest!: ckURLStep_cref fuz1_char_cref split: if_splits urlRes.splits; meson urlRes.exhaust)

text \<open>
  A chunk.  A byte is read again when it ended a character reference, which then is over, so
  the loop ends.
\<close>

function fuz1 :: "nat \<Rightarrow> bytes \<Rightarrow> fuz1Ctx \<Rightarrow> fuz1Ctx option" where
  "fuz1 wc [] s = fuz1_chunk_end s"
| "fuz1 wc (b # bp) s =
     (case fuz1_step wc (toLower b) s of
        None \<Rightarrow> None
      | Some (s', consumed) \<Rightarrow> if consumed then fuz1 wc bp s' else fuz1 wc (b # bp) s')"
  by pat_completeness auto
termination
  by (relation "measures [\<lambda>(wc, bp, s). length bp, \<lambda>(wc, bp, s). fuz1_debt s]")
    (auto dest: fuz1_step_debt)

declare fuz1.simps(2) [simp del]

definition fuz1_final :: "fuz1State \<Rightarrow> bytes \<times> bool" where
  "fuz1_final f = (if f1_total f < 30 then (replicate 16 0, False) else (md5_sum (f1_md5 f), True))"

end
