(* ===== verification/Fuz1_Props.thy ===== *)
theory Fuz1_Props
  imports Fuz1 Puny_Props
begin

text \<open>
  What holds of Fuz1 on text without character references: the positions of the line buffer
  and of \<^verbatim>\<open>domsBuf\<close> stay in order, so no slice panics, in whatever chunks the text comes, and only lower-case
  letters are summed, at most 4096 of them.  With a reference that a line end interrupts the
  order breaks: \<open>fuz1_crash\<close> is a short body on which the code panics.
\<close>

section \<open>The buffer\<close>

definition sum_ok :: "fuz1State \<Rightarrow> bool" where
  "sum_ok f \<longleftrightarrow> (\<exists>w. f1_md5 f = md5_write md5_new w \<and> f1_total f = int (length w)
     \<and> f1_total f \<le> maxFuz1Len \<and> list_all isLower w)"

definition buf_ok :: "fuz1State \<Rightarrow> bool" where
  "buf_ok f \<longleftrightarrow> length (f1_buf f) = 317 \<and> 0 \<le> f1_cp f \<and> f1_cp f < 317
     \<and> (f1_eol f = -1 \<or> 0 \<le> f1_eol f \<and> f1_eol f \<le> f1_cp f)
     \<and> list_all isLower (take (nat (f1_cp f)) (f1_buf f)) \<and> sum_ok f"

lemma addSum_returns:
  assumes "length (f1_buf f) = 317" "0 \<le> n" "n \<le> 317" "list_all isLower (take (nat n) (f1_buf f))" "sum_ok f"
  shows "\<exists>m t. addSum n f = Some (f\<lparr>f1_md5 := m, f1_total := t\<rparr>) \<and> sum_ok (f\<lparr>f1_md5 := m, f1_total := t\<rparr>)"
proof -
  obtain w where w: "f1_md5 f = md5_write md5_new w" "f1_total f = int (length w)"
    "f1_total f \<le> maxFuz1Len" "list_all isLower w" using assms(5) by (auto simp: sum_ok_def)
  define i where "i = maxFuz1Len - (f1_total f + n)"
  define l where "l = (if i < 0 then n + i else n)"
  have l: "0 \<le> l" "l \<le> n" "f1_total f + l \<le> maxFuz1Len" using w assms(2) by (auto simp: l_def i_def)
  have a: "addSum n f = (if n = 0 \<or> l = 0 then Some f
    else Some (f\<lparr>f1_md5 := md5_write (f1_md5 f) (take (nat l) (f1_buf f)), f1_total := f1_total f + l\<rparr>))"
    using l assms(1,3) by (simp add: addSum_def i_def [symmetric] l_def [symmetric])
  have "sum_ok (f\<lparr>f1_md5 := md5_write (f1_md5 f) (take (nat l) (f1_buf f)), f1_total := f1_total f + l\<rparr>)"
  proof -
    have "list_all isLower (take (nat l) (f1_buf f))"
      using assms(4) l(2) by (auto simp: list_all_length)
    then show ?thesis
      using w l assms(1,3) unfolding sum_ok_def
      by (intro exI [of _ "w @ take (nat l) (f1_buf f)"]) (auto simp: md5_write_write)
  qed
  moreover have "f = f\<lparr>f1_md5 := f1_md5 f, f1_total := f1_total f\<rparr>" by simp
  ultimately show ?thesis using a assms(5) by (metis (no_types))
qed

lemma flush_ok:
  assumes "sum_ok f" "length b = 317"
  shows "buf_ok (f\<lparr>f1_cp := 0, f1_eol := -1, f1_buf := b\<rparr>)"
  using assms by (auto simp: buf_ok_def sum_ok_def)

lemma ckSpace_iter_returns:
  assumes "buf_ok f"
  shows "\<exists>f'. ckSpace_iter f = Some f' \<and> buf_ok f' \<and> f1_eol f' = -1 \<and> (f1_eol f = -1 \<longrightarrow> f1_cp f' = 0)"
proof (cases "f1_eol f = -1")
  case True
  obtain m t where a: "addSum (f1_cp f) f = Some (f\<lparr>f1_md5 := m, f1_total := t\<rparr>)"
    "sum_ok (f\<lparr>f1_md5 := m, f1_total := t\<rparr>)"
    using addSum_returns [of f "f1_cp f"] assms by (auto simp: buf_ok_def)
  with True assms show ?thesis
    by (auto simp: ckSpace_iter_def clearBufFrom_def buf_ok_def sum_ok_def)
next
  case False
  let ?e = "f1_eol f" and ?c = "f1_cp f"
  have e: "0 \<le> ?e" "?e \<le> ?c" "?c < 317" and len: "length (f1_buf f) = 317"
    using False assms by (auto simp: buf_ok_def)
  have low: "list_all isLower (take (nat ?c) (f1_buf f))" "sum_ok f" using assms by (auto simp: buf_ok_def)
  obtain m t where a: "addSum ?e f = Some (f\<lparr>f1_md5 := m, f1_total := t\<rparr>)"
    "sum_ok (f\<lparr>f1_md5 := m, f1_total := t\<rparr>)"
    using addSum_returns [of f ?e] low e len by (auto simp: list_all_length)
  have "take (nat (?c - ?e)) (drop (nat ?e) (f1_buf f)) = drop (nat ?e) (take (nat ?c) (f1_buf f))"
    using e by (simp add: take_drop nat_diff_distrib)
  then have "list_all isLower (take (nat (?c - ?e)) (drop (nat ?e) (f1_buf f)))"
    using low(1) by (metis append_take_drop_id list_all_append)
  with False a e len show ?thesis
    by (auto simp: ckSpace_iter_def clearBufFrom_def buf_ok_def sum_ok_def copy_at_def Let_def)
qed

lemma ckSpace_returns:
  assumes "buf_ok f"
  shows "\<exists>f'. ckSpace f = Some f' \<and> buf_ok f' \<and> (f' = f \<or> f1_eol f' = -1) \<and> f1_cp f' < 61"
  using assms
proof (induction f rule: ckSpace.induct)
  case (1 f)
  show ?case
  proof (cases "f1_cp f \<ge> fuz1BufSize - int urlHostMax")
    case True
    obtain f1 where f1: "ckSpace_iter f = Some f1" "buf_ok f1" "f1_eol f1 = -1"
      using ckSpace_iter_returns [OF "1.prems"] by auto
    from "1.IH" [OF True f1(1,2)] f1 True show ?thesis
      by (subst ckSpace.simps) auto
  next
    case False
    with "1.prems" show ?thesis
      by (subst ckSpace.simps) (auto simp: fuz1_consts urlHostMax_def)
  qed
qed

lemma upd_int_letter:
  assumes "buf_ok f" "isLower c"
  shows "\<exists>b. upd_int (f1_buf f) (f1_cp f) c = Some b \<and> length b = 317
    \<and> list_all isLower (take (nat (f1_cp f + 1)) b)"
proof -
  have n: "nat (f1_cp f + 1) = Suc (nat (f1_cp f))" using assms(1) by (auto simp: buf_ok_def)
  have l: "nat (f1_cp f) < length (f1_buf f)" using assms(1) by (auto simp: buf_ok_def)
  then show ?thesis
    using assms by (simp add: upd_int_def buf_ok_def n take_Suc_conv_app_nth not_less)
qed

lemma fuz1_letter_returns:
  assumes "buf_ok f" "isLower c"
  shows "\<exists>f' u'. fuz1_letter c (f, u) = Some (f', u') \<and> buf_ok f' \<and>
    (u' = u\<lparr>u_st := UrlIdle\<rparr> \<or> u' = u \<and> f1_cp f' = f1_cp f + 1 \<and> f1_eol f' = f1_eol f)"
proof -
  obtain b where b: "upd_int (f1_buf f) (f1_cp f) c = Some b" "length b = 317"
    "list_all isLower (take (nat (f1_cp f + 1)) b)" using upd_int_letter [OF assms] by blast
  let ?f = "f\<lparr>f1_buf := b, f1_cp := f1_cp f + 1\<rparr>"
  show ?thesis
  proof (cases "f1_cp f + 1 < fuz1BufSize")
    case True
    with b assms(1) show ?thesis
      by (auto simp: fuz1_letter_def buf_ok_def sum_ok_def fuz1_consts)
  next
    case False
    obtain m t where "addSum (f1_cp ?f) ?f = Some (?f\<lparr>f1_md5 := m, f1_total := t\<rparr>)"
      "sum_ok (?f\<lparr>f1_md5 := m, f1_total := t\<rparr>)"
      using addSum_returns [of ?f "f1_cp ?f"] b assms(1) by (auto simp: buf_ok_def sum_ok_def)
    with False b show ?thesis
      by (auto simp: fuz1_letter_def clearBuf_def Let_def buf_ok_def sum_ok_def)
  qed
qed

lemma is_greeting_returns: "buf_ok f \<Longrightarrow> \<exists>g. is_greeting f = Some g \<and> (g \<longrightarrow> f1_eol f \<noteq> -1)"
  by (auto simp: is_greeting_def buf_ok_def)

lemma fuz1_newline_returns:
  assumes "buf_ok f"
  shows "\<exists>f' u'. fuz1_newline (f, u) = Some (f', u') \<and> buf_ok f' \<and> (u' = u\<lparr>u_st := UrlIdle\<rparr> \<or> u' = u)"
proof -
  obtain g where g: "is_greeting f = Some g" "g \<longrightarrow> f1_eol f \<noteq> -1"
    using is_greeting_returns [OF assms] by blast
  have low: "list_all isLower (take (nat (f1_eol f)) (f1_buf f))" if "f1_eol f \<noteq> -1"
    using assms that by (auto simp: buf_ok_def list_all_length)
  obtain m t where "addSum (f1_cp f) f = Some (f\<lparr>f1_md5 := m, f1_total := t\<rparr>)"
    "sum_ok (f\<lparr>f1_md5 := m, f1_total := t\<rparr>)"
    using addSum_returns [of f "f1_cp f"] assms by (auto simp: buf_ok_def)
  with g assms low show ?thesis
    by (cases g) (auto simp: fuz1_newline_def clearBuf_def buf_ok_def sum_ok_def)
qed

lemma fuz1_chunk_end_returns:
  assumes "buf_ok f"
  shows "\<exists>f'. fuz1_chunk_end (f, u) = Some (f', u) \<and> buf_ok f' \<and> (f1_eol f < f1_cp f \<longrightarrow> f' = f)"
proof -
  obtain m t where "addSum (f1_cp f) f = Some (f\<lparr>f1_md5 := m, f1_total := t\<rparr>)"
    "sum_ok (f\<lparr>f1_md5 := m, f1_total := t\<rparr>)"
    using addSum_returns [of f "f1_cp f"] assms by (auto simp: buf_ok_def)
  with assms show ?thesis
    by (auto simp: fuz1_chunk_end_def clearBuf_def buf_ok_def sum_ok_def)
qed

section \<open>Host names\<close>

definition names_ok :: "ckURL \<Rightarrow> bool" where
  "names_ok u \<longleftrightarrow> length (u_domsBuf u) = domsBufSize \<and> cr_st (u_cref u) = CrefIdle \<and> u_domStart u \<le> domsBufSize
     \<and> (u_domStart u = 0 \<or> u_domsBuf u ! (u_domStart u - 1) = 0)"

definition host_mid :: "ckURL \<Rightarrow> bool" where
  "host_mid u \<longleftrightarrow> names_ok u \<and> \<not> has urlTooLong u \<and> u_domStart u \<le> 257
     \<and> u_domStart u \<le> u_labelStart u \<and> u_labelStart u \<le> u_domEnd u \<and> u_domEnd u \<le> u_domStart u + 256
     \<and> (u_dot1 u = 0 \<or> u_domStart u < u_dot1 u \<and> u_dot1 u \<le> u_labelStart u \<and> u_tld u \<noteq> -1)
     \<and> (u_dot2 u = 0 \<or> u_domStart u < u_dot2 u \<and> u_dot2 u \<le> u_labelStart u \<and> u_sld u \<noteq> -1)"

definition label_ok :: "ckURL \<Rightarrow> bool" where
  "label_ok u \<longleftrightarrow> u_labelStart u < u_domEnd u \<or> u_domEnd u = u_domStart u"

definition host_ok :: "ckURL \<Rightarrow> bool" where
  "host_ok u \<longleftrightarrow> host_mid u \<and> label_ok u \<and> (u_punct u = 0 \<or> u_punct u = u_domEnd u)"

definition pos_ok :: "fuz1State \<Rightarrow> ckURL \<Rightarrow> bool" where
  "pos_ok f u \<longleftrightarrow> 0 \<le> u_start u \<and> f1_eol f < u_start u \<and> u_start u \<le> f1_cp f
     \<and> (u_tld u = -1 \<or> u_start u \<le> u_tld u \<and> u_tld u \<le> f1_cp f)
     \<and> (u_sld u = -1 \<or> u_start u \<le> u_sld u \<and> u_sld u \<le> f1_cp f)"

text \<open>The flags are independent bits.\<close>

lemma has_set_flag:
  "has urlTooLong (set_flag urlDOT u) = has urlTooLong u"
  "has urlTooLong (set_flag urlIDN u) = has urlTooLong u"
  "has urlTooLong (set_flag urlUsername u) = has urlTooLong u"
  "has urlTooLong (set_flag urlDQuoted u) = has urlTooLong u"
  "has urlTooLong (set_flag urlTooLong u)"
  "has urlTooLong (clear_flag urlDOT u) = has urlTooLong u"
  "has urlTooLong (clear_flag urlIDN u) = has urlTooLong u"
  "has urlTooLong (clear_flag (urlIDN OR urlDOT) u) = has urlTooLong u"
proof -
  have "(x :: byte) AND 1 \<noteq> 0 \<longleftrightarrow> bit x 0" for x
    by (simp add: bit_0 even_iff_mod_2_eq_zero and_one_eq odd_iff_mod_2_eq_one)
  then show
    "has urlTooLong (set_flag urlDOT u) = has urlTooLong u"
    "has urlTooLong (set_flag urlIDN u) = has urlTooLong u"
    "has urlTooLong (set_flag urlUsername u) = has urlTooLong u"
    "has urlTooLong (set_flag urlDQuoted u) = has urlTooLong u"
    "has urlTooLong (set_flag urlTooLong u)"
    "has urlTooLong (clear_flag urlDOT u) = has urlTooLong u"
    "has urlTooLong (clear_flag urlIDN u) = has urlTooLong u"
    "has urlTooLong (clear_flag (urlIDN OR urlDOT) u) = has urlTooLong u"
    by (auto simp: has_def set_flag_def clear_flag_def url_flags bit_or_iff bit_and_iff bit_not_iff)
qed

lemmas host_defs = host_ok_def host_mid_def label_ok_def names_ok_def

lemma flag_sel [simp]:
  "u_domsBuf (set_flag fl u) = u_domsBuf u" "u_domsBuf (clear_flag fl u) = u_domsBuf u"
  "u_domStart (set_flag fl u) = u_domStart u" "u_domStart (clear_flag fl u) = u_domStart u"
  "u_domEnd (set_flag fl u) = u_domEnd u" "u_domEnd (clear_flag fl u) = u_domEnd u"
  "u_labelStart (set_flag fl u) = u_labelStart u" "u_labelStart (clear_flag fl u) = u_labelStart u"
  "u_punct (set_flag fl u) = u_punct u" "u_punct (clear_flag fl u) = u_punct u"
  "u_dot1 (set_flag fl u) = u_dot1 u" "u_dot1 (clear_flag fl u) = u_dot1 u"
  "u_dot2 (set_flag fl u) = u_dot2 u" "u_dot2 (clear_flag fl u) = u_dot2 u"
  "u_start (set_flag fl u) = u_start u" "u_start (clear_flag fl u) = u_start u"
  "u_tld (set_flag fl u) = u_tld u" "u_tld (clear_flag fl u) = u_tld u"
  "u_sld (set_flag fl u) = u_sld u" "u_sld (clear_flag fl u) = u_sld u"
  "u_st (set_flag fl u) = u_st u" "u_st (clear_flag fl u) = u_st u"
  "u_urlTotal (set_flag fl u) = u_urlTotal u" "u_urlTotal (clear_flag fl u) = u_urlTotal u"
  by (simp_all add: set_flag_def clear_flag_def)

lemma reset_sel [simp]:
  "u_domsBuf (resetDomsBuf i u) = u_domsBuf u" "u_domStart (resetDomsBuf i u) = u_domStart u"
  "u_domEnd (resetDomsBuf i u) = u_domStart u" "u_labelStart (resetDomsBuf i u) = u_domStart u"
  "u_punct (resetDomsBuf i u) = 0" "u_dot1 (resetDomsBuf i u) = 0" "u_dot2 (resetDomsBuf i u) = 0"
  "u_start (resetDomsBuf i u) = i" "u_tld (resetDomsBuf i u) = -1" "u_sld (resetDomsBuf i u) = -1"
  "u_st (resetDomsBuf i u) = u_st u" "has urlTooLong (resetDomsBuf i u) = has urlTooLong u"
  by (simp_all add: resetDomsBuf_def has_set_flag) (simp add: has_def)

lemma has_update [simp]:
  "has fl (u\<lparr>u_st := a\<rparr>) = has fl u" "has fl (u\<lparr>u_domEnd := b\<rparr>) = has fl u"
  "has fl (u\<lparr>u_domsBuf := c\<rparr>) = has fl u" "has fl (u\<lparr>u_punct := b\<rparr>) = has fl u"
  "has fl (u\<lparr>u_urlTotal := d\<rparr>) = has fl u" "has fl (u\<lparr>u_domStart := b\<rparr>) = has fl u"
  "has fl (u\<lparr>u_dot2 := b\<rparr>) = has fl u" "has fl (u\<lparr>u_dot1 := b\<rparr>) = has fl u"
  "has fl (u\<lparr>u_labelStart := b\<rparr>) = has fl u" "has fl (u\<lparr>u_sld := d\<rparr>) = has fl u"
  "has fl (u\<lparr>u_tld := d\<rparr>) = has fl u" "has fl (u\<lparr>u_doms := b\<rparr>) = has fl u"
  by (simp_all add: has_def)

lemma urlHostSave_tooLong:
  "has urlTooLong u \<Longrightarrow> u_domEnd u = u_domStart u \<Longrightarrow> urlHostSave uc u = Some u"
  by (simp add: urlHostSave_def urlHostMax_def)

definition gave_up :: "ckURL \<Rightarrow> bool" where
  "gave_up u \<longleftrightarrow> names_ok u \<and> u_st u = UrlIdle \<and> has urlTooLong u \<and> u_domEnd u = u_domStart u"

lemma urlHostSave_returns:
  assumes "host_mid u"
  shows "\<exists>u'. urlHostSave uc u = Some u' \<and>
    (gave_up u' \<or> (\<exists>b. u' = u\<lparr>u_domsBuf := b, u_domEnd := u_domEnd u + 1\<rparr> \<and> host_mid u' \<and> label_ok u'))"
proof (cases "u_domEnd u \<ge> u_domStart u + 256")
  case True
  with assms show ?thesis
    by (auto simp: urlHostSave_def urlHostMax_def host_defs gave_up_def has_set_flag)
next
  case False
  with assms have "u_domEnd u < length (u_domsBuf u)" by (auto simp: host_defs domsBufSize_def urlHostMaxSave_def urlHostMax_def)
  moreover from False assms have "u_domStart u = 0 \<or> u_domStart u - 1 < u_domEnd u" by (auto simp: host_defs)
  ultimately show ?thesis
    using False assms by (auto simp: urlHostSave_def urlHostMax_def host_defs Let_def)
qed

lemma punyencode_ok:
  assumes "host_mid u" "label_ok u"
  shows "\<exists>b e. punyencode u = Some ((clear_flag urlIDN u)\<lparr>u_domEnd := e, u_domsBuf := b\<rparr>)
    \<and> host_mid ((clear_flag urlIDN u)\<lparr>u_domEnd := e, u_domsBuf := b\<rparr>)
    \<and> (u_domStart u < u_domEnd u \<longrightarrow> u_domStart u < e)"
proof -
  have "u_labelStart u < u_domEnd u \<and> u_domEnd u \<le> domsBufSize
     \<or> u_domEnd u = u_labelStart u \<and> u_labelStart u + 64 \<le> domsBufSize"
    using assms by (auto simp: host_defs domsBufSize_def urlHostMaxSave_def urlHostMax_def)
  moreover have "length (u_domsBuf u) = domsBufSize" "u_labelStart u < length (u_domsBuf u)"
    using assms by (auto simp: host_defs domsBufSize_def urlHostMaxSave_def urlHostMax_def)
  ultimately consider "punyencode u = Some (clear_flag urlIDN u)"
    | puny where "out_ok puny" "u_labelStart u + length puny \<le> urlHostMax"
       "punyencode u = Some ((clear_flag urlIDN u)\<lparr>u_domEnd := u_labelStart u + length puny,
          u_domsBuf := copy_at (u_domsBuf u) (u_labelStart u) puny\<rparr>)"
    using punyencode_returns by blast
  then show ?thesis
  proof cases
    case 1
    have "clear_flag urlIDN u = (clear_flag urlIDN u)\<lparr>u_domEnd := u_domEnd u, u_domsBuf := u_domsBuf u\<rparr>"
      by (simp add: clear_flag_def)
    moreover have "host_mid (clear_flag urlIDN u)" using assms(1) by (simp add: host_defs has_set_flag)
    ultimately show ?thesis using 1 by metis
  next
    case 2
    have "length (copy_at (u_domsBuf u) (u_labelStart u) puny) = domsBufSize"
      using assms(1) by (simp add: host_defs domsBufSize_def urlHostMaxSave_def urlHostMax_def)
    moreover have "copy_at (u_domsBuf u) (u_labelStart u) puny ! k = u_domsBuf u ! k" if "k < u_labelStart u" for k
      using that assms(1) by (simp add: copy_at_def nth_append host_defs domsBufSize_def urlHostMaxSave_def urlHostMax_def)
    from this [of "u_domStart u - 1"]
    have "u_domStart u \<noteq> 0 \<longrightarrow> copy_at (u_domsBuf u) (u_labelStart u) puny ! (u_domStart u - 1) = u_domsBuf u ! (u_domStart u - 1)"
      using assms(1) by (auto simp: host_defs)
    ultimately show ?thesis
      using 2 assms by (intro exI [of _ "copy_at (u_domsBuf u) (u_labelStart u) puny"] exI [of _ "u_labelStart u + length puny"])
        (auto simp: host_defs has_set_flag out_ok_def urlHostMax_def)
  qed
qed

lemma url_save_dot_returns:
  assumes "host_ok u" "u_punct u = 0" "0 \<le> cp"
  shows "\<exists>u'. url_save_dot cp u = Some u' \<and> (gave_up u' \<or> host_mid u' \<and> u_st u' = u_st u \<and> u_punct u' = 0
     \<and> u_start u' = u_start u \<and> u_tld u' = cp \<and> u_sld u' = u_tld u)"
proof -
  let ?u = "clear_flag urlDOT u"
  have h: "host_mid ?u" "label_ok ?u" using assms(1) by (simp_all add: host_defs has_set_flag)
  obtain b e where p: "(if has urlIDN ?u then punyencode ?u else Some ?u)
      = Some ((if has urlIDN ?u then clear_flag urlIDN ?u else ?u)\<lparr>u_domEnd := e, u_domsBuf := b\<rparr>)"
    "host_mid ((if has urlIDN ?u then clear_flag urlIDN ?u else ?u)\<lparr>u_domEnd := e, u_domsBuf := b\<rparr>)"
  proof (cases "has urlIDN ?u")
    case False
    have "?u\<lparr>u_domEnd := u_domEnd u, u_domsBuf := u_domsBuf u\<rparr> = ?u" by (simp add: clear_flag_def)
    with False h(1) show thesis
      by (intro that [of "u_domsBuf u" "u_domEnd u"]) (simp_all only: if_False)
  qed (use punyencode_ok [OF h] that in auto)
  define v where "v = (if has urlIDN ?u then clear_flag urlIDN ?u else ?u)\<lparr>u_domEnd := e, u_domsBuf := b\<rparr>"
  have v: "host_mid v" "u_st v = u_st u" "u_punct v = 0" "u_start v = u_start u" "u_tld v = u_tld u"
    using p(2) assms(2) by (simp_all add: v_def)
  obtain w where w: "urlHostSave 0x2e v = Some w"
    "gave_up w \<or> (\<exists>b. w = v\<lparr>u_domsBuf := b, u_domEnd := u_domEnd v + 1\<rparr> \<and> host_mid w \<and> label_ok w)"
    using urlHostSave_returns [OF v(1)] by blast
  define x where "x = w\<lparr>u_dot2 := u_dot1 w, u_dot1 := u_domEnd w, u_labelStart := u_domEnd w, u_sld := u_tld w, u_tld := cp\<rparr>"
  have "url_save_dot cp u = Some x"
    by (simp only: url_save_dot_def Let_def p(1) [folded v_def] w(1) bind.bind_lunit x_def)
  moreover have "gave_up x" if "gave_up w" using that by (simp add: gave_up_def names_ok_def x_def)
  moreover have "host_mid x" "u_st x = u_st u" "u_punct x = 0" "u_start x = u_start u" "u_tld x = cp" "u_sld x = u_tld u"
    if "w = v\<lparr>u_domsBuf := b, u_domEnd := u_domEnd v + 1\<rparr>" "host_mid w" for b
    using that v assms(3) by (simp_all add: x_def) (auto simp: host_mid_def names_ok_def)
  ultimately show ?thesis using w(2) by blast
qed

definition slash3_ok :: "fuz1State \<Rightarrow> ckURL \<Rightarrow> bool" where
  "slash3_ok f u \<longleftrightarrow> names_ok u \<and> (u_st u = UrlIdle \<or> u_st u = UrlSlash3 \<and> host_ok u \<and> pos_ok f u)"

lemma url_save_returns:
  assumes "host_mid u" "u_punct u = 0 \<Longrightarrow> label_ok u" "u_punct u \<noteq> 0 \<Longrightarrow> host_ok u" "u_st u = UrlSlash3" "pos_ok f u"
  shows "\<exists>u'. url_save uc (f, u) = Some (f, u') \<and> slash3_ok f u'"
proof (cases "u_punct u = 0")
  case False
  with assms show ?thesis by (simp add: url_save_def slash3_ok_def host_mid_def)
next
  case True
  have hs: "\<exists>u'. urlHostSave uc v = Some u' \<and> slash3_ok f u'"
    if v: "gave_up v \<or> host_mid v \<and> u_st v = UrlSlash3 \<and> u_punct v = 0 \<and> pos_ok f v" for v
  proof (cases "gave_up v")
    case True
    then show ?thesis by (auto simp: gave_up_def slash3_ok_def urlHostSave_tooLong)
  next
    case False
    with v urlHostSave_returns [of v uc] show ?thesis
      by (auto simp: slash3_ok_def gave_up_def host_ok_def pos_ok_def) (auto simp: host_mid_def)
  qed
  show ?thesis
  proof (cases "has urlDOT u")
    case False
    with True hs [of u] assms show ?thesis by (auto simp: url_save_def)
  next
    case dot: True
    have "0 \<le> f1_cp f" using assms(5) by (auto simp: pos_ok_def)
    moreover have "host_ok u" using assms True by (simp add: host_ok_def)
    ultimately obtain v where v: "url_save_dot (f1_cp f) u = Some v"
      "gave_up v \<or> host_mid v \<and> u_st v = UrlSlash3 \<and> u_punct v = 0 \<and> u_start v = u_start u \<and> u_tld v = f1_cp f \<and> u_sld v = u_tld u"
      using url_save_dot_returns [of u "f1_cp f"] True assms(4) by auto
    moreover from this(2) have "gave_up v \<or> host_mid v \<and> u_st v = UrlSlash3 \<and> u_punct v = 0 \<and> pos_ok f v"
      using assms(5) by (auto simp: pos_ok_def)
    ultimately show ?thesis using hs [of v] dot True by (auto simp: url_save_def)
  qed
qed

section \<open>The end of a host name\<close>

lemma delete_label_buf_returns:
  assumes "buf_ok f" "pos_ok f u" "u_sld u \<noteq> -1"
  shows "\<exists>f'. delete_label_buf u f = Some f' \<and> buf_ok f'"
proof -
  have p: "0 \<le> u_start u" "f1_eol f < u_start u" "u_start u \<le> u_sld u" "u_sld u \<le> f1_cp f" "f1_cp f < 317"
    and b: "length (f1_buf f) = 317" "list_all isLower (take (nat (f1_cp f)) (f1_buf f))"
    using assms by (auto simp: pos_ok_def buf_ok_def)
  define B where "B = copy_at (f1_buf f) (nat (u_start u)) (take (nat (f1_cp f - u_sld u)) (drop (nat (u_sld u)) (f1_buf f)))"
  let ?a = "nat (u_start u)" and ?s = "nat (u_sld u)" and ?c = "nat (f1_cp f)"
  have n: "nat (u_start u + (f1_cp f - u_sld u)) = ?a + (?c - ?s)" "nat (f1_cp f - u_sld u) = ?c - ?s"
    using p by auto
  have "list_all isLower (take ?a (f1_buf f))" "list_all isLower (take (?c - ?s) (drop ?s (f1_buf f)))"
    using p b by (auto simp: list_all_length)
  then have "list_all isLower (take ?a (f1_buf f) @ take (?c - ?s) (drop ?s (f1_buf f)))" by simp
  moreover have "take (?a + (?c - ?s)) B = take ?a (f1_buf f) @ take (?c - ?s) (drop ?s (f1_buf f))"
    using p b(1) by (simp add: B_def n copy_at_def)
  ultimately have B: "list_all isLower (take (nat (u_start u + (f1_cp f - u_sld u))) B)" "length B = 317"
    using p b(1) by (simp_all add: n B_def)
  show ?thesis
  proof (cases "f1_eol f = -1")
    case True
    with p b assms(1) show ?thesis
      by (simp add: delete_label_buf_def buf_ok_def sum_ok_def) (auto simp: list_all_length)
  next
    case False
    with p b(1) have "delete_label_buf u f = Some (f\<lparr>f1_buf := B, f1_eol := f1_eol f, f1_cp := u_start u + (f1_cp f - u_sld u)\<rparr>)"
      by (simp add: delete_label_buf_def Let_def B_def)
    moreover have "buf_ok (f\<lparr>f1_buf := B, f1_eol := f1_eol f, f1_cp := u_start u + (f1_cp f - u_sld u)\<rparr>)"
      using B p assms(1) by (simp add: buf_ok_def sum_ok_def)
    ultimately show ?thesis by blast
  qed
qed

lemma delete_label_doms_returns:
  assumes "length (u_domsBuf u) = 514" "u_domStart u < u_dot2 u" "u_dot2 u < u_domEnd u" "u_domEnd u \<le> 514"
    "u_domsBuf u ! (u_domEnd u - 1) = 0"
  shows "\<exists>b e. delete_label_doms u = Some (u\<lparr>u_domsBuf := b, u_domEnd := e\<rparr>) \<and> length b = 514 \<and> e \<le> 514
    \<and> 0 < e \<and> b ! (e - 1) = 0"
proof -
  let ?l = "u_domEnd u - u_dot2 u"
  let ?b = "copy_at (u_domsBuf u) (u_domStart u) (take ?l (drop (u_dot2 u) (u_domsBuf u)))"
  have i: "int (u_domEnd u) - int (u_dot2 u) = int ?l" "nat (int (u_domEnd u) - int (u_dot2 u)) = ?l"
    using assms by simp_all
  have "?b ! (u_domStart u + ?l - 1) = u_domsBuf u ! (u_domEnd u - 1)"
  proof -
    obtain n where "u_domEnd u = Suc (u_dot2 u + n)" using assms(3) less_imp_Suc_add by blast
    with assms show ?thesis by (simp add: copy_at_def nth_append)
  qed
  moreover have "delete_label_doms u = Some (u\<lparr>u_domsBuf := ?b, u_domEnd := u_domStart u + ?l\<rparr>)"
  proof -
    have "slice (u_domsBuf u) (int (u_domStart u)) (int (u_domStart u) + int ?l) \<noteq> None"
      "slice (u_domsBuf u) (int (u_dot2 u)) (int (u_dot2 u) + int ?l) = Some (take ?l (drop (u_dot2 u) (u_domsBuf u)))"
      using assms by (simp_all add: slice_def i(2))
    moreover have "nat (int (u_domStart u) + int ?l) = u_domStart u + ?l" by linarith
    ultimately show ?thesis by (auto simp only: delete_label_doms_def Let_def i(1) bind.bind_lunit)
  qed
  ultimately show ?thesis using assms by (intro exI [of _ ?b] exI [of _ "u_domStart u + ?l"]) simp
qed

lemma urlHostEnd_returns:
  assumes "buf_ok f" "host_ok u" "pos_ok f u"
  shows "\<exists>f' u'. urlHostEnd wc (f, u) = Some (f', u') \<and> buf_ok f' \<and> names_ok u'"
proof -
  have p: "(if u_punct u \<noteq> 0 then u\<lparr>u_domEnd := u_punct u\<rparr> else u) = u"
    using assms(2) by (auto simp: host_ok_def)
  have n: "names_ok u" using assms(2) by (simp add: host_defs)
  show ?thesis
  proof (cases "u_domEnd u \<le> u_domStart u \<or> has urlTooLong u")
    case True
    with assms n show ?thesis unfolding urlHostEnd_def prod.case p Let_def by simp
  next
    case False
    obtain v where v: "(if has urlIDN u then punyencode u else Some u) = Some v" "host_mid v"
      "u_domStart v = u_domStart u" "u_domStart v < u_domEnd v" "u_start v = u_start u" "u_sld v = u_sld u"
      "u_tld v = u_tld u"
    proof (cases "has urlIDN u")
      case True
      with False punyencode_ok [of u] assms(2) that show thesis by (auto simp: host_ok_def)
    qed (use False assms(2) that in \<open>auto simp: host_ok_def\<close>)
    have l: "length (u_domsBuf v) = 514" "u_domEnd v < 514" "u_domStart v \<le> 514" "cr_st (u_cref v) = CrefIdle"
      using v(2) by (auto simp: host_defs domsBufSize_def urlHostMaxSave_def urlHostMax_def)
    define w where "w = v\<lparr>u_domsBuf := (u_domsBuf v)[u_domEnd v := 0], u_domEnd := u_domEnd v + 1\<rparr>"
    have w: "upd (u_domsBuf v) (u_domEnd v) 0 = Some ((u_domsBuf v)[u_domEnd v := 0])"
      "length (u_domsBuf w) = 514" "u_domEnd w \<le> 514" "u_domsBuf w ! (u_domEnd w - 1) = 0"
      "u_dot2 w = u_dot2 v" "cr_st (u_cref w) = CrefIdle" "0 < u_domEnd w"
      using l by (simp_all add: w_def)
    have "u_dot2 w \<noteq> 0 \<longrightarrow> u_domStart w < u_dot2 w \<and> u_dot2 w < u_domEnd w \<and> u_sld w \<noteq> -1"
      using v(2) by (auto simp: w_def host_mid_def)
    moreover have "pos_ok f w" using assms(3) v by (simp add: pos_ok_def w_def)
    ultimately obtain f' where f': "(if u_dot2 w \<noteq> 0 then delete_label_buf w f else Some f) = Some f'" "buf_ok f'"
      using delete_label_buf_returns [OF assms(1)] assms(1) by (cases "u_dot2 w = 0") auto
    obtain b e where d: "(if u_dot2 w \<noteq> 0 \<and> wc < fuz2MinWords then delete_label_doms w else Some w)
        = Some (w\<lparr>u_domsBuf := b, u_domEnd := e\<rparr>)" "length b = 514" "e \<le> 514" "0 < e" "b ! (e - 1) = 0"
    proof (cases "u_dot2 w \<noteq> 0 \<and> wc < fuz2MinWords")
      case True
      with delete_label_doms_returns [OF w(2) _ _ w(3,4)] that
        \<open>u_dot2 w \<noteq> 0 \<longrightarrow> u_domStart w < u_dot2 w \<and> u_dot2 w < u_domEnd w \<and> u_sld w \<noteq> -1\<close>
      show thesis by auto
    next
      case False
      have "w = w\<lparr>u_domsBuf := u_domsBuf w, u_domEnd := u_domEnd w\<rparr>" by simp
      with False w that show thesis by metis
    qed
    define x where "x = w\<lparr>u_domsBuf := b, u_domEnd := e\<rparr>"
    have "urlHostEnd wc (f, u) = Some (f', x\<lparr>u_domStart := u_domEnd x, u_doms := u_doms x + 1\<rparr>)"
      by (simp only: urlHostEnd_def prod.case p Let_def if_not_P [OF False] v(1) w(1) bind.bind_lunit
          w_def [symmetric] f'(1) d(1) x_def [symmetric])
    with f' d w(6) show ?thesis by (simp add: x_def names_ok_def domsBufSize_def urlHostMaxSave_def urlHostMax_def)
  qed
qed

section \<open>The invariant\<close>

text \<open>
  From the first letter of \<^verbatim>\<open>http\<close> on, the last line end lies before the end of the buffer, and
  inside the host name before its start.
\<close>

definition url_ok :: "fuz1State \<Rightarrow> ckURL \<Rightarrow> bool" where
  "url_ok f u \<longleftrightarrow> names_ok u \<and>
     (case u_st u of
        UrlIdle \<Rightarrow> True
      | UrlSkippingURL \<Rightarrow> True
      | UrlQuote \<Rightarrow> \<not> has urlTooLong u
      | UrlQH \<Rightarrow> \<not> has urlTooLong u
      | UrlSlash3Start \<Rightarrow> \<not> has urlTooLong u \<and> u_domStart u \<le> 257 \<and> f1_eol f < f1_cp f
      | UrlSlash3 \<Rightarrow> host_ok u \<and> pos_ok f u
      | _ \<Rightarrow> \<not> has urlTooLong u \<and> f1_eol f < f1_cp f)"

definition fuz1_ok :: "fuz1Ctx \<Rightarrow> bool" where
  "fuz1_ok s \<longleftrightarrow> buf_ok (fst s) \<and> url_ok (fst s) (snd s)"

text \<open>Between the URL step and the treatment of its byte \<open>c\<close>.\<close>

definition url_mid :: "byte \<Rightarrow> fuz1State \<Rightarrow> ckURL \<Rightarrow> bool" where
  "url_mid c f u \<longleftrightarrow> names_ok u \<and>
     (u_st u = UrlIdle \<or> u_st u = UrlSkippingURL
      \<or> c \<noteq> 0x0a \<and> (u_st u = UrlT1 \<and> c = 0x68 \<and> \<not> has urlTooLong u \<or> url_ok f u))"

lemma host_step:
  assumes "pos_ok f u" "f1_cp f' = f1_cp f + 1" "f1_eol f' = f1_eol f"
  shows "pos_ok f' u"
  using assms by (auto simp: pos_ok_def)

lemma url_ok_step:
  assumes "url_ok f u" "f1_cp f' = f1_cp f + 1" "f1_eol f' = f1_eol f"
  shows "url_ok f' u"
  using assms host_step [OF _ assms(2,3)] by (auto simp: url_ok_def split: urlSt.splits)

lemma url_ok_idle: "names_ok u \<Longrightarrow> url_ok f (u\<lparr>u_st := UrlIdle\<rparr>)"
  by (simp add: url_ok_def names_ok_def)

lemma url_mid_names: "url_mid c f u \<Longrightarrow> names_ok u"
  by (simp add: url_mid_def)

lemma fuz1_char_ok:
  assumes "buf_ok f" "url_mid c f u"
  shows "\<exists>s'. fuz1_char c (f, u) = Some s' \<and> fuz1_ok s'"
proof -
  have q: "u_st u = UrlIdle \<or> u_st u = UrlSkippingURL \<Longrightarrow> url_ok f' u" for f'
    using url_mid_names [OF assms(2)] by (auto simp: url_ok_def)
  consider "isLower c" | "\<not> isLower c" "c = 0x0a" | "\<not> isLower c" "c \<noteq> 0x0a" by blast
  then show ?thesis
  proof cases
    case 1
    obtain f' u' where s: "fuz1_letter c (f, u) = Some (f', u')" "buf_ok f'"
      "u' = u\<lparr>u_st := UrlIdle\<rparr> \<or> u' = u \<and> f1_cp f' = f1_cp f + 1 \<and> f1_eol f' = f1_eol f"
      using fuz1_letter_returns [OF assms(1) 1, of u] by blast
    have "url_ok f' u'"
      using s(3)
    proof
      assume "u' = u\<lparr>u_st := UrlIdle\<rparr>"
      then show ?thesis using url_ok_idle url_mid_names [OF assms(2)] by simp
    next
      assume n: "u' = u \<and> f1_cp f' = f1_cp f + 1 \<and> f1_eol f' = f1_eol f"
      consider "u_st u = UrlIdle \<or> u_st u = UrlSkippingURL" | "u_st u = UrlT1" "\<not> has urlTooLong u" | "url_ok f u"
        using assms(2) by (auto simp: url_mid_def)
      then show ?thesis
      proof cases
        case 2
        with n assms url_mid_names [OF assms(2)] show ?thesis by (auto simp: url_ok_def buf_ok_def)
      qed (use n q url_ok_step in auto)
    qed
    with s 1 show ?thesis by (simp add: fuz1_char_def fuz1_ok_def)
  next
    case 2
    with assms(2) have i: "u_st u = UrlIdle \<or> u_st u = UrlSkippingURL" by (auto simp: url_mid_def)
    obtain f' u' where "fuz1_newline (f, u) = Some (f', u')" "buf_ok f'" "u' = u\<lparr>u_st := UrlIdle\<rparr> \<or> u' = u"
      using fuz1_newline_returns [OF assms(1), of u] by blast
    with 2 q [OF i] url_ok_idle [OF url_mid_names [OF assms(2)]] show ?thesis
      by (auto simp: fuz1_char_def fuz1_ok_def)
  next
    case 3
    then have "c \<noteq> 0x68" by (auto simp: isLower_def)
    with assms(2) q have "url_ok f u" by (auto simp: url_mid_def)
    with 3 assms(1) show ?thesis by (simp add: fuz1_char_def fuz1_ok_def)
  qed
qed

section \<open>One step\<close>

lemma indexByteFrom_finds:
  "k < limit \<Longrightarrow> k < length xs \<Longrightarrow> xs ! k = t \<Longrightarrow> \<exists>p. indexByteFrom xs t limit = Some p \<and> p \<le> k"
proof (induction xs t limit arbitrary: k rule: indexByteFrom.induct)
  case (2 x xs target limit)
  show ?case
  proof (cases k)
    case 0
    with "2.prems" show ?thesis by simp
  next
    case (Suc k')
    show ?thesis
    proof (cases "x = target")
      case False
      have "k' < limit - 1" using "2.prems"(1) Suc by arith
      with False "2.IH" [of k'] "2.prems" Suc obtain p where "indexByteFrom xs target (limit - 1) = Some p" "p \<le> k'"
        by auto
      with False "2.prems" Suc show ?thesis by simp
    qed (use "2.prems" in simp)
  qed
qed simp

lemma compactDoms_returns:
  assumes "names_ok u"
  shows "\<exists>b d. compactDoms u = Some (u\<lparr>u_domStart := d, u_domsBuf := b\<rparr>) \<and> d \<le> 257
    \<and> names_ok (u\<lparr>u_domStart := d, u_domsBuf := b\<rparr>)"
  using assms
proof (induction u rule: compactDoms.induct)
  case (1 u)
  show ?case
  proof (cases "u_domStart u > domsBufSize - urlHostMaxSave")
    case False
    with "1.prems" show ?thesis
      by (subst compactDoms.simps)
        (auto simp: domsBufSize_def urlHostMaxSave_def urlHostMax_def intro!: exI [of _ "u_domsBuf u"] exI [of _ "u_domStart u"])
  next
    case True
    have d: "u_domStart u \<noteq> 0" "u_domStart u \<le> 514" "length (u_domsBuf u) = 514" "u_domsBuf u ! (u_domStart u - 1) = 0"
      using "1.prems" True by (auto simp: names_ok_def domsBufSize_def urlHostMaxSave_def urlHostMax_def)
    then obtain p where p: "indexByteFrom (u_domsBuf u) 0 (u_domStart u) = Some p" "p < u_domStart u"
      using indexByteFrom_finds [of "u_domStart u - 1" "u_domStart u" "u_domsBuf u" 0] by force
    let ?d = "u_domStart u - (p + 1)"
    let ?s = "take ?d (drop (p + 1) (u_domsBuf u))"
    let ?u = "u\<lparr>u_domStart := ?d, u_domsBuf := copy_at (u_domsBuf u) 0 ?s\<rparr>"
    have s: "nslice (u_domsBuf u) (p + 1) (p + 1 + ?d) = Some ?s" using p d by (simp add: nslice_def)
    have "?d \<noteq> 0 \<longrightarrow> copy_at (u_domsBuf u) 0 ?s ! (?d - 1) = u_domsBuf u ! (u_domStart u - 1)"
    proof
      assume "?d \<noteq> 0"
      then obtain k where k: "u_domStart u = Suc (p + 1 + k)"
        using p(2) less_imp_Suc_add [of "p + 1" "u_domStart u"] by auto
      with d show "copy_at (u_domsBuf u) 0 ?s ! (?d - 1) = u_domsBuf u ! (u_domStart u - 1)"
        by (simp add: copy_at_def nth_append)
    qed
    then have "names_ok ?u"
      using "1.prems" d p by (auto simp: names_ok_def domsBufSize_def urlHostMaxSave_def urlHostMax_def)
    from "1.IH" [OF True p(1) refl s this] show ?thesis
      by (subst compactDoms.simps) (use True p s in \<open>simp add: Let_def\<close>)
  qed
qed

lemma url_slash3_returns:
  assumes "buf_ok f" "host_ok u" "pos_ok f u" "u_st u = UrlSlash3"
  shows "\<exists>f' u'. url_slash3 wc c (f, u) = Some (f', u') \<and> buf_ok f' \<and> url_mid c f' u'"
proof -
  let ?u = "u\<lparr>u_urlTotal := u_urlTotal u + 1\<rparr>"
  have h: "host_ok ?u" "pos_ok f ?u" "names_ok u" "host_mid ?u" "label_ok ?u"
    using assms by (simp_all add: host_defs pos_ok_def)
  have saved: "\<exists>f' u'. url_save c (f, v) = Some (f', u') \<and> buf_ok f' \<and> url_mid c f' u'"
    if "c \<noteq> 0x0a" "host_ok v" "u_st v = UrlSlash3" "pos_ok f v" for v
  proof -
    have "host_mid v" "label_ok v" using that(2) by (simp_all add: host_ok_def)
    from url_save_returns [OF this(1) this(2) that(2-4), of c] that(1) assms(1) show ?thesis
      by (auto simp: slash3_ok_def url_mid_def url_ok_def)
  qed
  show ?thesis
  proof (cases rule: url_slash3_cases [of wc c f u])
    case limit
    with assms(1) h(3) show ?thesis by (simp add: url_mid_def names_ok_def)
  next
    case host
    with saved [of ?u] h assms(4) show ?thesis by simp
  next
    case dot2
    then show ?thesis
      using h assms by (simp add: url_mid_def url_ok_def host_defs pos_ok_def)
  next
    case dot
    then show ?thesis
      using h assms by (simp add: url_mid_def url_ok_def host_defs pos_ok_def has_set_flag)
  next
    case (fin st)
    obtain f' u' where "urlHostEnd wc (f, ?u) = Some (f', u')" "buf_ok f'" "names_ok u'"
      using urlHostEnd_returns [OF assms(1) h(1,2)] by blast
    with fin show ?thesis by (auto simp: slash3_end_def url_mid_def names_ok_def)
  next
    case user
    have "list_all isLower (take (nat (u_start u)) (f1_buf f))"
      using assms(1,3) by (auto simp: buf_ok_def pos_ok_def list_all_length)
    then have "buf_ok (f\<lparr>f1_cp := u_start u\<rparr>)"
      using assms(1,3) by (auto simp: buf_ok_def pos_ok_def sum_ok_def)
    with user show ?thesis
      using h assms by (simp add: url_mid_def url_ok_def host_defs pos_ok_def has_set_flag)
  next
    case punct
    have "host_ok (?u\<lparr>u_punct := u_domEnd u\<rparr>)" "pos_ok f (?u\<lparr>u_punct := u_domEnd u\<rparr>)"
      using h by (simp_all add: host_defs pos_ok_def)
    with saved [of "?u\<lparr>u_punct := u_domEnd u\<rparr>"] punct assms(4) show ?thesis by simp
  next
    case idn
    have "host_ok (set_flag urlIDN ?u)" "pos_ok f (set_flag urlIDN ?u)"
      using h by (simp_all add: host_defs pos_ok_def has_set_flag)
    with saved [of "set_flag urlIDN ?u"] idn assms(4) show ?thesis by simp
  qed
qed

lemma url_slash2_returns:
  assumes "names_ok u" "\<not> has urlTooLong u" "f1_eol f < f1_cp f"
  shows "\<exists>u' r. url_slash2 wc c u = Some (u', r) \<and>
    (r = UrlResFwd \<and> u_st u' = UrlIdle \<and> names_ok u' \<or>
     r = UrlResCkSpace \<and> c = 0x2f \<and> u_st u' = UrlSlash3Start \<and> url_ok f u')"
proof -
  obtain b d where "compactDoms u = Some (u\<lparr>u_domStart := d, u_domsBuf := b\<rparr>)" "d \<le> 257"
    "names_ok (u\<lparr>u_domStart := d, u_domsBuf := b\<rparr>)"
    using compactDoms_returns [OF assms(1)] by blast
  then show ?thesis
    using assms by (auto simp: url_slash2_def url_ok_def names_ok_def)
qed

lemma has_fresh: "\<not> has fl (u\<lparr>u_flags := 0\<rparr>)" "\<not> has fl (u\<lparr>u_st := a, u_flags := 0\<rparr>)"
  "\<not> has urlTooLong (u\<lparr>u_flags := urlSQuoted\<rparr>)" "\<not> has urlTooLong (u\<lparr>u_st := a, u_flags := urlSQuoted\<rparr>)"
  by (simp_all add: has_def url_flags)

lemma url_prefix_ok:
  assumes "url_ok f u" "u_st u \<notin> {UrlSlash2, UrlSlash3Start, UrlSlash3, UrlSkippingURL}"
  shows "url_mid c f (url_prefix c u)"
  using assms
  by (cases "u_st u")
    (auto simp: url_prefix_def url_mid_def url_ok_def names_ok_def has_set_flag has_fresh)

lemma url_switch_returns:
  assumes "buf_ok f" "url_ok f u"
  shows "\<exists>f' u' r. url_switch wc c (f, u) = Some ((f', u'), r) \<and> buf_ok f' \<and>
    (case r of UrlResSkip \<Rightarrow> url_ok f' u' | UrlResFwd \<Rightarrow> url_mid c f' u'
     | UrlResCkSpace \<Rightarrow> c = 0x2f \<and> u_st u' = UrlSlash3Start \<and> url_ok f' u')"
proof -
  consider "u_st u = UrlSlash2" | "u_st u = UrlSlash3Start" | "u_st u = UrlSlash3" | "u_st u = UrlSkippingURL"
    | "u_st u \<notin> {UrlSlash2, UrlSlash3Start, UrlSlash3, UrlSkippingURL}" by blast
  then show ?thesis
  proof cases
    case 1
    with assms(2) have "names_ok u" "\<not> has urlTooLong u" "f1_eol f < f1_cp f" by (simp_all add: url_ok_def)
    from url_slash2_returns [OF this, of wc c] 1 assms(1) show ?thesis
      by (auto simp: url_switch_def url_mid_def)
  next
    case 2
    let ?u = "(resetDomsBuf (f1_cp f) u)\<lparr>u_st := UrlSlash3\<rparr>"
    have "host_ok ?u" "pos_ok f ?u"
      using 2 assms by (auto simp: url_ok_def host_defs pos_ok_def buf_ok_def)
    with url_slash3_returns [OF assms(1) this, of wc c] 2 show ?thesis
      by (auto simp: url_switch_def)
  next
    case 3
    with assms(2) have "host_ok u" "pos_ok f u" by (simp_all add: url_ok_def)
    with url_slash3_returns [OF assms(1) this 3, of wc c] 3 show ?thesis
      by (auto simp: url_switch_def)
  next
    case 4
    with assms show ?thesis
      by (auto simp: url_switch_def url_skipping_def url_ok_def names_ok_def Let_def)
  next
    case 5
    then have "url_switch wc c (f, u) = Some ((f, url_prefix c u), UrlResFwd)"
      by (cases "u_st u") (simp_all add: url_switch_def)
    with url_prefix_ok [OF assms(2) 5] assms(1) show ?thesis by simp
  qed
qed

lemma fuz1_step_ok:
  assumes "fuz1_ok s" "c \<noteq> 0x26"
  shows "\<exists>s'. fuz1_step wc c s = Some (s', True) \<and> fuz1_ok s'"
proof -
  obtain f u where s: "s = (f, u)" by (cases s)
  have ok: "buf_ok f" "url_ok f u" and idle: "cr_st (u_cref u) = CrefIdle" "names_ok u"
    using assms(1) by (simp_all add: s fuz1_ok_def url_ok_def names_ok_def)
  show ?thesis
  proof (cases "c = 0x68 \<or> c = 0x3d \<or> u_st u \<noteq> UrlIdle")
    case False
    then have "url_mid c f u" using idle(2) by (simp add: url_mid_def)
    with fuz1_char_ok [OF ok(1) this] False show ?thesis by (auto simp: s fuz1_step_def)
  next
    case True
    obtain f' u' r where r: "url_switch wc c (f, u) = Some ((f', u'), r)" "buf_ok f'"
      "case r of UrlResSkip \<Rightarrow> url_ok f' u' | UrlResFwd \<Rightarrow> url_mid c f' u'
        | UrlResCkSpace \<Rightarrow> c = 0x2f \<and> u_st u' = UrlSlash3Start \<and> url_ok f' u'"
      using url_switch_returns [OF ok, of wc c] by blast
    have e: "ckURLStep wc c (f, u) = Some ((f', u'), r, False)"
      using r(1) idle assms(2) by (simp add: ckURLStep_def)
    show ?thesis
    proof (cases r)
      case UrlResFwd
      with r(3) fuz1_char_ok [OF r(2), of c u'] True e show ?thesis by (auto simp: s fuz1_step_def)
    next
      case UrlResSkip
      with r(2,3) True e show ?thesis by (auto simp: s fuz1_step_def fuz1_ok_def)
    next
      case UrlResCkSpace
      obtain f2 where f2: "ckSpace f' = Some f2" "buf_ok f2" "f2 = f' \<or> f1_eol f2 = -1"
        using ckSpace_returns [OF r(2)] by blast
      have "url_mid c f2 u'"
        using f2(2,3) r(3) UrlResCkSpace by (auto simp: url_mid_def url_ok_def buf_ok_def)
      with fuz1_char_ok [OF f2(2), of c u'] f2(1) UrlResCkSpace True e show ?thesis
        by (auto simp: s fuz1_step_def)
    qed
  qed
qed

lemma fuz1_chunk_end_ok: "fuz1_ok s \<Longrightarrow> \<exists>s'. fuz1_chunk_end s = Some s' \<and> fuz1_ok s'"
proof -
  assume ok: "fuz1_ok s"
  obtain f u where s: "s = (f, u)" by (cases s)
  obtain f' where f': "fuz1_chunk_end (f, u) = Some (f', u)" "buf_ok f'" "f1_eol f < f1_cp f \<longrightarrow> f' = f"
    using fuz1_chunk_end_returns [of f u] ok by (auto simp: s fuz1_ok_def)
  have "f1_eol f < f1_cp f \<or> u_st u \<in> {UrlIdle, UrlSkippingURL, UrlQuote, UrlQH}"
    using ok by (cases "u_st u") (auto simp: s fuz1_ok_def url_ok_def pos_ok_def)
  then have "url_ok f' u" using f'(3) ok by (auto simp: s fuz1_ok_def url_ok_def)
  with f' show ?thesis by (simp add: s fuz1_ok_def)
qed

lemma toLower_amp: "toLower b = 0x26 \<longleftrightarrow> b = 0x26"
proof -
  have "\<forall>b \<in> set (map of_nat [0..<256]). toLower b = (0x26 :: byte) \<longleftrightarrow> b = 0x26" by code_simp
  then show ?thesis using all_bytes [of b] by blast
qed

lemma fuz1_returns [returns]:
  assumes "fuz1_ok s" "0x26 \<notin> set bp"
  shows "\<exists>s'. fuz1 wc bp s = Some s' \<and> fuz1_ok s'"
  using assms
proof (induction bp arbitrary: s)
  case (Cons b bp)
  obtain s' where "fuz1_step wc (toLower b) s = Some (s', True)" "fuz1_ok s'"
    using fuz1_step_ok [OF Cons.prems(1), of "toLower b" wc] Cons.prems(2) by (auto simp: toLower_amp)
  with Cons show ?case by (simp add: fuz1.simps(2))
qed (use fuz1_chunk_end_ok in fastforce)

lemma newFuz1_ok: "fuz1_ok (newFuz1State, newURL)"
proof -
  have "md5_write md5_new [] = md5_new" by (simp add: md5_write_def md5_new_def md5_blocks.simps)
  then have "sum_ok newFuz1State"
    by (auto simp: sum_ok_def newFuz1State_def maxFuz1Len_def intro!: exI [of _ "[]"])
  then have "buf_ok newFuz1State" by (simp add: buf_ok_def) (simp add: newFuz1State_def)
  then show ?thesis
    by (simp add: fuz1_ok_def url_ok_def names_ok_def newURL_def newCref_def)
qed

end
