(* ===== verification/Fuz1_Lines.thy ===== *)
theory Fuz1_Lines
  imports Fuz1_Props
begin

text \<open>
  What Fuz1 computes: on text without slashes and references no host name is ever entered and
  the checksum is that of an abstract line machine, which keeps the pending letters as a list
  and the summed ones as another.
\<close>

section \<open>The line machine\<close>

record lineState =
  ln_pend :: bytes
  ln_mark :: "nat option"
  ln_out :: bytes

definition line_new :: lineState where
  "line_new = \<lparr>ln_pend = [], ln_mark = None, ln_out = []\<rparr>"

definition line_flush :: "lineState \<Rightarrow> lineState" where
  "line_flush a = \<lparr>ln_pend = [], ln_mark = None, ln_out = ln_out a @ ln_pend a\<rparr>"

definition greeting_at :: "lineState \<Rightarrow> bool" where
  "greeting_at a = (case ln_mark a of None \<Rightarrow> False
     | Some m \<Rightarrow> length (ln_pend a) - m \<le> 78 \<and> dearSucker (drop m (ln_pend a)))"

definition line_step :: "byte \<Rightarrow> lineState \<Rightarrow> lineState" where
  "line_step c a =
     (if isLower c then
        (let a = a\<lparr>ln_pend := ln_pend a @ [c]\<rparr> in if length (ln_pend a) < 317 then a else line_flush a)
      else if c = 0x0a then
        (if greeting_at a then a\<lparr>ln_pend := take (the (ln_mark a)) (ln_pend a)\<rparr>
         else if length (ln_pend a) \<ge> 234 then line_flush a
         else a\<lparr>ln_mark := Some (length (ln_pend a))\<rparr>)
      else a)"

definition line_chunk :: "bytes \<Rightarrow> lineState \<Rightarrow> lineState" where
  "line_chunk bp a =
     (let a = fold (\<lambda>b. line_step (toLower b)) bp a
      in if ln_pend a \<noteq> [] \<and> ln_mark a = Some (length (ln_pend a)) then line_flush a else a)"

definition line_digest :: "lineState \<Rightarrow> bytes \<times> bool" where
  "line_digest a =
     (if length (ln_out a) < 30 then (replicate 16 0, False)
      else (md5_digest (take 4096 (ln_out a)), True))"

section \<open>The simulation\<close>

definition line_rel :: "fuz1State \<Rightarrow> lineState \<Rightarrow> bool" where
  "line_rel f a \<longleftrightarrow> length (f1_buf f) = 317 \<and> f1_cp f = int (length (ln_pend a)) \<and> length (ln_pend a) < 317
     \<and> ln_pend a = take (length (ln_pend a)) (f1_buf f)
     \<and> f1_eol f = (case ln_mark a of None \<Rightarrow> -1 | Some m \<Rightarrow> int m)
     \<and> (\<forall>m. ln_mark a = Some m \<longrightarrow> m \<le> length (ln_pend a))
     \<and> f1_md5 f = md5_write md5_new (take 4096 (ln_out a))
     \<and> f1_total f = int (min 4096 (length (ln_out a)))"

definition out_rel :: "fuz1State \<Rightarrow> bytes \<Rightarrow> bool" where
  "out_rel f out \<longleftrightarrow> f1_md5 f = md5_write md5_new (take 4096 out) \<and> f1_total f = int (min 4096 (length out))"

lemma addSum_rel:
  assumes "length (f1_buf f) = 317" "n \<le> 317" "out_rel f out"
  shows "\<exists>m t. addSum (int n) f = Some (f\<lparr>f1_md5 := m, f1_total := t\<rparr>)
    \<and> out_rel (f\<lparr>f1_md5 := m, f1_total := t\<rparr>) (out @ take n (f1_buf f))"
proof -
  define l where "l = min n (4096 - min 4096 (length out))"
  have l: "l \<le> n" by (simp add: l_def)
  have t: "f1_total f = int (min 4096 (length out))" using assms(3) by (simp add: out_rel_def)
  have e: "take 4096 (out @ take n (f1_buf f)) = take 4096 out @ take l (f1_buf f)"
    using assms(1,2) by (auto simp: l_def min_def)
  have a: "addSum (int n) f = (if l = 0 then Some f
    else Some (f\<lparr>f1_md5 := md5_write (f1_md5 f) (take l (f1_buf f)), f1_total := f1_total f + int l\<rparr>))"
  proof -
    have "(if maxFuz1Len - (f1_total f + int n) < 0 then int n + (maxFuz1Len - (f1_total f + int n)) else int n) = int l"
      by (auto simp: t l_def maxFuz1Len_def min_def)
    moreover have "n = 0 \<Longrightarrow> l = 0" using l by simp
    ultimately show ?thesis
      using assms(1,2) l by (auto simp: addSum_def Let_def slice_def)
  qed
  show ?thesis
  proof (cases "l = 0")
    case True
    have "f = f\<lparr>f1_md5 := f1_md5 f, f1_total := f1_total f\<rparr>" by simp
    moreover have "out_rel f (out @ take n (f1_buf f))"
      using True assms e by (auto simp: out_rel_def l_def min_def split: if_splits)
    ultimately show ?thesis using a True by (metis (no_types))
  next
    case False
    with a e t assms show ?thesis
      by (auto simp: out_rel_def md5_write_write l_def)
  qed
qed

lemma line_rel_out: "line_rel f a \<Longrightarrow> out_rel f (ln_out a)"
  by (simp add: line_rel_def out_rel_def)

lemma flush_rel:
  assumes "out_rel f out" "length b = 317"
  shows "line_rel (f\<lparr>f1_cp := 0, f1_eol := -1, f1_buf := b\<rparr>) \<lparr>ln_pend = [], ln_mark = None, ln_out = out\<rparr>"
  using assms by (simp add: line_rel_def out_rel_def)

lemma flush_sum:
  assumes "line_rel f a"
  shows "\<exists>m t. addSum (f1_cp f) f = Some (f\<lparr>f1_md5 := m, f1_total := t\<rparr>)
    \<and> out_rel (f\<lparr>f1_md5 := m, f1_total := t\<rparr>) (ln_out a @ ln_pend a)"
  using addSum_rel [OF _ _ line_rel_out [OF assms], of "length (ln_pend a)"] assms
  by (simp add: line_rel_def)

lemma fuz1_letter_rel:
  assumes "line_rel f a" "isLower c"
  shows "\<exists>f' u'. fuz1_letter c (f, u) = Some (f', u') \<and> line_rel f' (line_step c a) \<and> (u' = u \<or> u' = u\<lparr>u_st := UrlIdle\<rparr>)"
proof -
  let ?n = "length (ln_pend a)"
  define b where "b = (f1_buf f)[?n := c]"
  have r: "length (f1_buf f) = 317" "f1_cp f = int ?n" "?n < 317" "ln_pend a = take ?n (f1_buf f)"
    using assms(1) by (auto simp: line_rel_def)
  have b: "upd_int (f1_buf f) (f1_cp f) c = Some b" "length b = 317" "take (Suc ?n) b = ln_pend a @ [c]"
    using r by (simp_all add: upd_int_def b_def take_Suc_conv_app_nth)
  let ?f = "f\<lparr>f1_buf := b, f1_cp := f1_cp f + 1\<rparr>"
  show ?thesis
  proof (cases "Suc ?n < 317")
    case True
    have "line_rel ?f (a\<lparr>ln_pend := ln_pend a @ [c]\<rparr>)"
      using assms(1) b True by (auto simp: line_rel_def)
    moreover have "fuz1_letter c (f, u) = Some (?f, u)"
      using b(1) r(2) True by (simp add: fuz1_letter_def fuz1_consts)
    ultimately show ?thesis using True assms(2) by (auto simp: line_step_def)
  next
    case False
    with r(3) have n: "Suc ?n = 317" by simp
    have "out_rel ?f (ln_out a)" using line_rel_out [OF assms(1)] by (simp add: out_rel_def)
    from addSum_rel [OF _ _ this, of 317] b n obtain m t where m:
      "addSum 317 ?f = Some (?f\<lparr>f1_md5 := m, f1_total := t\<rparr>)"
      "out_rel (?f\<lparr>f1_md5 := m, f1_total := t\<rparr>) (ln_out a @ ln_pend a @ [c])" by auto
    have c: "f1_cp f = 316" using r(2) n by simp
    have "fuz1_letter c (f, u) = Some (?f\<lparr>f1_md5 := m, f1_total := t, f1_cp := 0, f1_eol := -1, f1_buf := clearBuf b\<rparr>,
       u\<lparr>u_st := UrlIdle\<rparr>)"
      using b(1) m(1) by (simp add: fuz1_letter_def c fuz1_consts Let_def)
    moreover have "line_rel (?f\<lparr>f1_md5 := m, f1_total := t, f1_cp := 0, f1_eol := -1, f1_buf := clearBuf b\<rparr>)
        (line_step c a)"
      using flush_rel [OF m(2), of "clearBuf b"] b(2) n assms(2)
      by (simp add: line_step_def line_flush_def clearBuf_def)
    ultimately show ?thesis by blast
  qed
qed

lemma is_greeting_rel:
  assumes "line_rel f a"
  shows "is_greeting f = Some (greeting_at a)"
proof (cases "ln_mark a")
  case None
  with assms show ?thesis by (simp add: is_greeting_def greeting_at_def line_rel_def)
next
  case (Some m)
  have r: "f1_cp f = int (length (ln_pend a))" "f1_eol f = int m" "m \<le> length (ln_pend a)"
    "length (f1_buf f) = 317" "length (ln_pend a) < 317" "ln_pend a = take (length (ln_pend a)) (f1_buf f)"
    using assms Some by (simp_all add: line_rel_def)
  have "take (length (ln_pend a) - m) (drop m (f1_buf f)) = drop m (ln_pend a)"
    by (subst (2) r(6)) (simp add: drop_take)
  then have s: "slice (f1_buf f) (int m) (int (length (ln_pend a))) = Some (drop m (ln_pend a))"
    using r by (simp add: slice_def nat_diff_distrib)
  show ?thesis
  proof (cases "m = length (ln_pend a)")
    case True
    with Some r s show ?thesis
      by (simp add: is_greeting_def greeting_at_def dearSucker_def dear_word_def)
  next
    case False
    with Some r s show ?thesis by (auto simp: is_greeting_def greeting_at_def fuz1MaxLine_def)
  qed
qed

lemma fuz1_newline_rel:
  assumes "line_rel f a"
  shows "\<exists>f' u'. fuz1_newline (f, u) = Some (f', u') \<and> line_rel f' (line_step 0x0a a) \<and> (u' = u \<or> u' = u\<lparr>u_st := UrlIdle\<rparr>)"
proof -
  have l: "\<not> isLower 0x0a" by (simp add: isLower_def)
  have n: "f1_cp f = int (length (ln_pend a))" "length (f1_buf f) = 317" using assms by (simp_all add: line_rel_def)
  consider "greeting_at a" | "\<not> greeting_at a" "length (ln_pend a) \<ge> 234" | "\<not> greeting_at a" "length (ln_pend a) < 234"
    by linarith
  then show ?thesis
  proof cases
    case 1
    then obtain m where m: "ln_mark a = Some m" by (auto simp: greeting_at_def split: option.splits)
    then have "m \<le> length (ln_pend a)" using assms by (simp add: line_rel_def)
    then have "line_rel (f\<lparr>f1_cp := f1_eol f\<rparr>) (a\<lparr>ln_pend := take m (ln_pend a)\<rparr>)"
      using assms m by (auto simp: line_rel_def min_def) (metis min.absorb1 take_take)
    with 1 m l show ?thesis
      by (auto simp: fuz1_newline_def is_greeting_rel [OF assms] line_step_def)
  next
    case 2
    obtain mm t where s: "addSum (f1_cp f) f = Some (f\<lparr>f1_md5 := mm, f1_total := t\<rparr>)"
      "out_rel (f\<lparr>f1_md5 := mm, f1_total := t\<rparr>) (ln_out a @ ln_pend a)"
      using flush_sum [OF assms] by blast
    have "line_rel (f\<lparr>f1_md5 := mm, f1_total := t, f1_cp := 0, f1_eol := -1, f1_buf := clearBuf (f1_buf f)\<rparr>) (line_flush a)"
      using flush_rel [OF s(2), of "clearBuf (f1_buf f)"] n(2) by (simp add: line_flush_def clearBuf_def)
    with 2 s(1) n(1) l show ?thesis
      by (simp add: fuz1_newline_def is_greeting_rel [OF assms] line_step_def fuz1_consts)
  next
    case 3
    have "line_rel (f\<lparr>f1_eol := f1_cp f\<rparr>) (a\<lparr>ln_mark := Some (length (ln_pend a))\<rparr>)"
      using assms by (simp add: line_rel_def)
    with 3 n(1) l show ?thesis
      by (simp add: fuz1_newline_def is_greeting_rel [OF assms] line_step_def fuz1_consts)
  qed
qed

text \<open>Without a slash the URL scanner stays before the host name and saves no name.\<close>

definition before_host :: "ckURL \<Rightarrow> bool" where
  "before_host u \<longleftrightarrow> u_st u \<in> {UrlIdle, UrlQuote, UrlQH, UrlT1, UrlT2, UrlP, UrlS, UrlColon, UrlSlash1}
     \<and> cr_st (u_cref u) = CrefIdle \<and> u_doms u = 0"

lemma url_prefix_before: "before_host u \<Longrightarrow> c \<noteq> 0x2f \<Longrightarrow> before_host (url_prefix c u)"
  by (auto simp: before_host_def url_prefix_def set_flag_def clear_flag_def)

definition ctx_rel :: "fuz1Ctx \<Rightarrow> lineState \<Rightarrow> bool" where
  "ctx_rel s a \<longleftrightarrow> line_rel (fst s) a \<and> before_host (snd s)"

lemma fuz1_char_rel:
  assumes "line_rel f a" "before_host u"
  shows "\<exists>s'. fuz1_char c (f, u) = Some s' \<and> ctx_rel s' (line_step c a)"
proof -
  have i: "before_host (u\<lparr>u_st := UrlIdle\<rparr>)" using assms(2) by (simp add: before_host_def)
  consider "isLower c" | "\<not> isLower c" "c = 0x0a" | "\<not> isLower c" "c \<noteq> 0x0a" by blast
  then show ?thesis
  proof cases
    case 1
    with fuz1_letter_rel [OF assms(1) 1, of u] i assms(2) show ?thesis by (auto simp: fuz1_char_def ctx_rel_def)
  next
    case 2
    with fuz1_newline_rel [OF assms(1), of u] i assms(2) show ?thesis by (auto simp: fuz1_char_def ctx_rel_def)
  qed (use assms in \<open>simp add: fuz1_char_def ctx_rel_def line_step_def\<close>)
qed

lemma fuz1_step_rel:
  assumes "ctx_rel s a" "c \<noteq> 0x2f" "c \<noteq> 0x26"
  shows "\<exists>s'. fuz1_step wc c s = Some (s', True) \<and> ctx_rel s' (line_step c a)"
proof -
  obtain f u where s: "s = (f, u)" by (cases s)
  have r: "line_rel f a" "before_host u" using assms(1) by (simp_all add: s ctx_rel_def)
  have e: "ckURLStep wc c (f, u) = Some ((f, url_prefix c u), UrlResFwd, False)"
    using r(2) assms(3) by (auto simp: ckURLStep_def url_switch_def before_host_def)
  show ?thesis
    using fuz1_char_rel [OF r(1) url_prefix_before [OF r(2) assms(2)], of c] fuz1_char_rel [OF r, of c] e
    by (auto simp: s fuz1_step_def)
qed

lemma toLower_slash: "toLower b = 0x2f \<longleftrightarrow> b = 0x2f"
proof -
  have "\<forall>b \<in> set (map of_nat [0..<256]). toLower b = (0x2f :: byte) \<longleftrightarrow> b = 0x2f" by code_simp
  then show ?thesis using all_bytes [of b] by blast
qed

lemma fuz1_chunk_end_rel:
  assumes "ctx_rel s a"
  shows "\<exists>s'. fuz1_chunk_end s = Some s' \<and> ctx_rel s' (line_chunk [] a)"
proof -
  obtain f u where s: "s = (f, u)" by (cases s)
  have r: "line_rel f a" "before_host u" using assms by (simp_all add: s ctx_rel_def)
  have n: "f1_cp f = int (length (ln_pend a))" "length (f1_buf f) = 317"
    "f1_cp f \<noteq> 0 \<and> f1_eol f = f1_cp f \<longleftrightarrow> ln_pend a \<noteq> [] \<and> ln_mark a = Some (length (ln_pend a))"
    using r(1) by (auto simp: line_rel_def split: option.splits)
  obtain m t where m: "addSum (f1_cp f) f = Some (f\<lparr>f1_md5 := m, f1_total := t\<rparr>)"
      "out_rel (f\<lparr>f1_md5 := m, f1_total := t\<rparr>) (ln_out a @ ln_pend a)"
    using flush_sum [OF r(1)] by blast
  have "line_rel (f\<lparr>f1_md5 := m, f1_total := t, f1_cp := 0, f1_eol := -1, f1_buf := clearBuf (f1_buf f)\<rparr>) (line_flush a)"
    using flush_rel [OF m(2), of "clearBuf (f1_buf f)"] n(2) by (simp add: line_flush_def clearBuf_def)
  with m(1) r show ?thesis
    unfolding s fuz1_chunk_end_def prod.case n(3) line_chunk_def
    by (auto simp: ctx_rel_def)
qed

lemma fuz1_rel:
  assumes "ctx_rel s a" "0x2f \<notin> set bp" "0x26 \<notin> set bp"
  shows "\<exists>s'. fuz1 wc bp s = Some s' \<and> ctx_rel s' (line_chunk bp a)"
  using assms
proof (induction bp arbitrary: s a)
  case Nil
  then show ?case using fuz1_chunk_end_rel by simp
next
  case (Cons b bp)
  obtain s' where s': "fuz1_step wc (toLower b) s = Some (s', True)" "ctx_rel s' (line_step (toLower b) a)"
    using fuz1_step_rel [OF Cons.prems(1), of "toLower b" wc] Cons.prems(2,3) by (auto simp: toLower_amp toLower_slash)
  from Cons.IH [OF s'(2)] Cons.prems s'(1) show ?case
    by (simp add: fuz1.simps(2) line_chunk_def)
qed

lemma new_rel: "ctx_rel (newFuz1State, newURL) line_new"
proof -
  have "md5_write md5_new [] = md5_new" by (simp add: md5_write_def md5_new_def md5_blocks.simps)
  then show ?thesis
    by (simp add: ctx_rel_def line_rel_def before_host_def line_new_def newFuz1State_def newURL_def newCref_def)
qed

lemma final_rel: "line_rel f a \<Longrightarrow> fuz1_final f = line_digest a"
  by (auto simp: fuz1_final_def line_digest_def line_rel_def md5h.final_digest)

definition fuz1_chunks :: "(nat \<times> bytes) list \<Rightarrow> fuz1Ctx \<Rightarrow> fuz1Ctx option" where
  "fuz1_chunks = fold_opt (\<lambda>(wc, bp). fuz1 wc bp)"

definition line_chunks :: "(nat \<times> bytes) list \<Rightarrow> lineState \<Rightarrow> lineState" where
  "line_chunks = fold (\<lambda>(wc, bp). line_chunk bp)"

lemma fuz1_chunks_rel:
  assumes "ctx_rel s a" "\<forall>p \<in> set cs. 0x2f \<notin> set (snd p) \<and> 0x26 \<notin> set (snd p)"
  shows "\<exists>s'. fuz1_chunks cs s = Some s' \<and> ctx_rel s' (line_chunks cs a)"
  using assms
proof (induction cs arbitrary: s a)
  case (Cons p cs)
  obtain s' where s': "fuz1 (fst p) (snd p) s = Some s'" "ctx_rel s' (line_chunk (snd p) a)"
    using fuz1_rel [OF Cons.prems(1), of "snd p" "fst p"] Cons.prems(2) by auto
  with Cons.IH [OF s'(2)] Cons.prems(2) show ?case
    by (cases p) (auto simp: fuz1_chunks_def line_chunks_def)
qed (simp add: fuz1_chunks_def line_chunks_def)

text \<open>
  C14. Fuz1 never panics on text without \<^verbatim>\<open>&\<close>, however the decoders cut it into chunks and
  however many words Fuz2 has counted; what it sums are lower-case letters, at most 4096, and
  the result is their MD5 when there are 30 of them.
\<close>

theorem fuz1_safe:
  assumes "\<forall>(wc, bp) \<in> set cs. 0x26 \<notin> set bp"
  shows "\<exists>f u w. fuz1_chunks cs (newFuz1State, newURL) = Some (f, u) \<and> list_all isLower w
    \<and> length w \<le> 4096
    \<and> fuz1_final f = (if length w < 30 then (replicate 16 0, False) else (md5_digest w, True))"
proof -
  have "\<exists>s'. fuz1_chunks cs (newFuz1State, newURL) = Some s' \<and> fuz1_ok s'"
    unfolding fuz1_chunks_def
    by (rule fold_opt_inv [where I = fuz1_ok]) (use assms fuz1_returns newFuz1_ok in auto)
  then obtain f u where s: "fuz1_chunks cs (newFuz1State, newURL) = Some (f, u)" "sum_ok f"
    by (auto simp: fuz1_ok_def buf_ok_def)
  then obtain w where "f1_md5 f = md5_write md5_new w" "f1_total f = int (length w)"
    "f1_total f \<le> maxFuz1Len" "list_all isLower w" by (auto simp: sum_ok_def)
  with s(1) show ?thesis
    by (intro exI [of _ f] exI [of _ u] exI [of _ w]) (auto simp: fuz1_final_def maxFuz1Len_def md5h.final_digest)
qed

theorem fuz1_safe_witness:
  "\<exists>f u w. fuz1_chunks [(0, str ''http://a.b.c/''), (9, str '' x'')] (newFuz1State, newURL) = Some (f, u)
    \<and> list_all isLower w \<and> length w \<le> 4096
    \<and> fuz1_final f = (if length w < 30 then (replicate 16 0, False) else (md5_digest w, True))"
  by (rule fuz1_safe) (simp add: str_def)

text \<open>
  C15. On text without \<^verbatim>\<open>/\<close> and \<^verbatim>\<open>&\<close>, in any chunks, Fuz1 with its 317-byte buffer, positions
  and incremental MD5 computes what the line machine computes on lists: letters collected,
  greeting lines taken back, a full buffer or line end summed, 4096 letters at most.
\<close>

theorem fuz1_refines_lines:
  assumes "\<forall>(wc, bp) \<in> set cs. 0x2f \<notin> set bp \<and> 0x26 \<notin> set bp"
  shows "\<exists>f u. fuz1_chunks cs (newFuz1State, newURL) = Some (f, u)
    \<and> fuz1_final f = line_digest (line_chunks cs line_new)"
  using fuz1_chunks_rel [OF new_rel, of cs] assms by (force simp: ctx_rel_def final_rel)

theorem fuz1_refines_lines_witness:
  "\<exists>f u. fuz1_chunks [(0, str ''Dear all''), (0, [0x0a])] (newFuz1State, newURL) = Some (f, u)
    \<and> fuz1_final f = line_digest (line_chunks [(0, str ''Dear all''), (0, [0x0a])] line_new)"
  by (rule fuz1_refines_lines) (simp add: str_def)

section \<open>Short texts\<close>

fun text_lines :: "bytes \<Rightarrow> bytes list" where
  "text_lines [] = [[]]"
| "text_lines (c # t) =
     (if c = 0x0a then [] # text_lines t else (c # hd (text_lines t)) # tl (text_lines t))"

lemma text_lines_code [code]:
  "text_lines [] = [[]]"
  "text_lines (c # t) = (let ls = text_lines t in if c = 0x0a then [] # ls else (c # hd ls) # tl ls)"
  by (simp_all add: Let_def)

definition letters :: "bytes \<Rightarrow> bytes" where
  "letters t = filter isLower (map toLower t)"

definition greeting_line :: "bytes \<Rightarrow> bool" where
  "greeting_line l \<longleftrightarrow> length l \<le> 78 \<and> dearSucker l"

definition kept :: "bytes list \<Rightarrow> bytes" where
  "kept ls = concat (filter (\<lambda>l. \<not> greeting_line l) ls)"

lemma kept_Cons: "kept (l # ls) = (if greeting_line l then kept ls else l @ kept ls)"
  by (simp add: kept_def)

lemma kept_Nil [simp]: "kept [] = []"
  by (simp add: kept_def)

text \<open>The letters of the first line and of the later lines that are not greetings.\<close>

definition summed_letters :: "bytes \<Rightarrow> bytes" where
  "summed_letters t =
     (case map letters (text_lines t) of [] \<Rightarrow> [] | l # ls \<Rightarrow> l @ kept ls)"

lemma letters_Cons: "letters (b # t) = letters [b] @ letters t"
  by (simp add: letters_def)

lemma text_lines_ne [simp]: "text_lines t \<noteq> []"
  by (cases t) simp_all

lemma toLower_nl: "toLower b = 0x0a \<longleftrightarrow> b = 0x0a"
proof -
  have "\<forall>b \<in> set (map of_nat [0..<256]). toLower b = (0x0a :: byte) \<longleftrightarrow> b = 0x0a" by code_simp
  then show ?thesis using all_bytes [of b] by blast
qed

definition at_end :: "bytes \<Rightarrow> lineState \<Rightarrow> lineState" where
  "at_end t a = line_step 0x0a (fold (\<lambda>b. line_step (toLower b)) t a)"

lemma greeting_at_mark: "ln_mark a = Some m \<Longrightarrow> greeting_at a = greeting_line (drop m (ln_pend a))"
  by (simp add: greeting_at_def greeting_line_def)

lemma at_end_lines:
  assumes "length (ln_pend a) + length (letters t) < 234" "m \<le> length (ln_pend a)" "ln_mark a = Some m"
    "ls = map letters (text_lines t)"
  shows "at_end t a = a\<lparr>ln_pend := take m (ln_pend a)
      @ kept ((drop m (ln_pend a) @ hd ls) # tl ls),
      ln_mark := Some (length (take m (ln_pend a)
      @ kept ((drop m (ln_pend a) @ hd ls) # tl ls)))\<rparr>"
  using assms
proof (induction t arbitrary: a m ls)
  case Nil
  then show ?case
    by (cases a) (auto simp: at_end_def line_step_def isLower_def greeting_at_mark letters_def kept_Cons)
next
  case (Cons b t)
  let ?ls = "map letters (text_lines t)"
  have hd: "hd ?ls = letters (hd (text_lines t))" "?ls = hd ?ls # tl ?ls"
    by (cases "text_lines t"; use text_lines_ne [of t] in simp)+
  have rec: "at_end (b # t) a = at_end t (line_step (toLower b) a)" by (simp add: at_end_def)
  show ?case
  proof (cases "b = 0x0a")
    case True
    have nl: "\<not> isLower (toLower b)" "toLower b = 0x0a" using True by (simp_all add: toLower_def isLower_def)
    then have len: "length (letters (b # t)) = length (letters t)" by (simp add: letters_def)
    have ls: "hd ls = []" "tl ls = ?ls" using Cons.prems(4) True by (simp_all add: letters_def)
    show ?thesis
    proof (cases "greeting_line (drop m (ln_pend a))")
      case g: True
      have "line_step (toLower b) a = a\<lparr>ln_pend := take m (ln_pend a)\<rparr>"
        using nl g Cons.prems by (simp add: line_step_def greeting_at_mark)
      with Cons.IH [of "a\<lparr>ln_pend := take m (ln_pend a)\<rparr>" m ?ls] Cons.prems len g ls rec hd(2) show ?thesis
        by (simp add: kept_Cons [of "drop m (ln_pend a)"])
    next
      case g: False
      have "line_step (toLower b) a = a\<lparr>ln_mark := Some (length (ln_pend a))\<rparr>"
        using nl g Cons.prems by (simp add: line_step_def greeting_at_mark)
      with Cons.IH [of "a\<lparr>ln_mark := Some (length (ln_pend a))\<rparr>" "length (ln_pend a)" ?ls] Cons.prems len g ls rec hd(2)
      show ?thesis
        by (simp add: kept_Cons [of "drop m (ln_pend a)"])
    qed
  next
    case False
    then have nl: "toLower b \<noteq> 0x0a" by (simp add: toLower_nl)
    have ls: "hd ls = letters [b] @ hd ?ls" "tl ls = tl ?ls"
      using Cons.prems(4) False letters_Cons [of b "hd (text_lines t)"] by (simp_all add: hd(1) map_tl)
    show ?thesis
    proof (cases "isLower (toLower b)")
      case l: True
      then have lb: "letters [b] = [toLower b]" "length (letters (b # t)) = Suc (length (letters t))"
        by (simp_all add: letters_def)
      have "line_step (toLower b) a = a\<lparr>ln_pend := ln_pend a @ [toLower b]\<rparr>"
        using l Cons.prems(1) lb by (simp add: line_step_def)
      with Cons.IH [of "a\<lparr>ln_pend := ln_pend a @ [toLower b]\<rparr>" m ?ls] Cons.prems lb ls rec show ?thesis by simp
    next
      case l: False
      then have lb: "letters [b] = []" "length (letters (b # t)) = length (letters t)"
        by (simp_all add: letters_def)
      have "line_step (toLower b) a = a" using l nl by (simp add: line_step_def)
      with Cons.IH [of a m ?ls] Cons.prems lb ls rec show ?thesis by simp
    qed
  qed
qed

text \<open>The first line, and every line after the buffer has been summed, cannot be a greeting.\<close>

lemma at_end_first:
  assumes "length (ln_pend a) + length (letters t) < 234" "ln_mark a = None" "ls = map letters (text_lines t)"
  shows "\<exists>m. at_end t a = a\<lparr>ln_pend := ln_pend a @ hd ls @ kept (tl ls), ln_mark := m\<rparr>
    \<and> m = Some (length (ln_pend (at_end t a)))"
  using assms
proof (induction t arbitrary: a ls)
  case Nil
  then show ?case
    by (cases a) (auto simp: at_end_def line_step_def isLower_def greeting_at_def letters_def)
next
  case (Cons b t)
  let ?ls = "map letters (text_lines t)"
  have hd: "hd ?ls = letters (hd (text_lines t))" by (simp add: hd_map)
  have rec: "at_end (b # t) a = at_end t (line_step (toLower b) a)" by (simp add: at_end_def)
  show ?case
  proof (cases "b = 0x0a")
    case True
    have nl: "\<not> isLower (toLower b)" "toLower b = 0x0a" using True by (simp_all add: toLower_def isLower_def)
    then have len: "length (letters (b # t)) = length (letters t)" by (simp add: letters_def)
    have ls: "hd ls = []" "tl ls = ?ls" using Cons.prems(3) True by (simp_all add: letters_def)
    let ?a = "a\<lparr>ln_mark := Some (length (ln_pend a))\<rparr>"
    have "line_step (toLower b) a = ?a"
      using nl Cons.prems(1,2) by (simp add: line_step_def greeting_at_def)
    moreover have "hd ?ls # tl ?ls = ?ls" by simp
    ultimately show ?thesis
      using at_end_lines [of ?a t "length (ln_pend a)" ?ls] Cons.prems(1) len rec ls by simp
  next
    case False
    then have nl: "toLower b \<noteq> 0x0a" by (simp add: toLower_nl)
    have ls: "hd ls = letters [b] @ hd ?ls" "tl ls = tl ?ls"
      using Cons.prems(3) False letters_Cons [of b "hd (text_lines t)"] by (simp_all add: hd map_tl)
    show ?thesis
    proof (cases "isLower (toLower b)")
      case l: True
      then have lb: "letters [b] = [toLower b]" "length (letters (b # t)) = Suc (length (letters t))"
        by (simp_all add: letters_def)
      have "line_step (toLower b) a = a\<lparr>ln_pend := ln_pend a @ [toLower b]\<rparr>"
        using l Cons.prems(1) lb by (simp add: line_step_def)
      with Cons.IH [of "a\<lparr>ln_pend := ln_pend a @ [toLower b]\<rparr>" ?ls] Cons.prems lb ls rec show ?thesis by simp
    next
      case l: False
      then have lb: "letters [b] = []" "length (letters (b # t)) = length (letters t)"
        by (simp_all add: letters_def)
      have "line_step (toLower b) a = a" using l nl by (simp add: line_step_def)
      with Cons.IH [of a ?ls] Cons.prems lb ls rec show ?thesis by simp
    qed
  qed
qed

lemma summed_letters_alt:
  "summed_letters t = hd (map letters (text_lines t)) @ kept (tl (map letters (text_lines t)))"
  by (cases "text_lines t") (use text_lines_ne [of t] in \<open>simp_all add: summed_letters_def\<close>)

lemma line_body_short:
  assumes "length (letters t) < 234"
  shows "ln_out (line_chunks [(wc, t), (wc', [0x0a])] line_new) = summed_letters t"
proof -
  define a1 where "a1 = fold (\<lambda>b. line_step (toLower b)) t line_new"
  define S where "S = summed_letters t"
  have nl: "toLower 0x0a = 0x0a" by (simp add: toLower_def)
  obtain m where e0: "line_step 0x0a a1 = \<lparr>ln_pend = S, ln_mark = m, ln_out = []\<rparr>"
    "m = Some (length (ln_pend (line_step 0x0a a1)))"
    using at_end_first [of line_new t "map letters (text_lines t)"] assms
    unfolding S_def summed_letters_alt by (auto simp: at_end_def a1_def [symmetric]) (auto simp: line_new_def a1_def)
  from e0(2) have e: "line_step 0x0a a1 = \<lparr>ln_pend = S, ln_mark = Some (length S), ln_out = []\<rparr>"
    unfolding e0(1) by simp
  show ?thesis
  proof (cases "ln_pend a1 \<noteq> [] \<and> ln_mark a1 = Some (length (ln_pend a1))")
    case True
    then have "\<not> greeting_at a1" by (simp add: greeting_at_def dearSucker_def dear_word_def)
    then have "line_step 0x0a a1 = line_flush a1 \<or> line_step 0x0a a1 = a1\<lparr>ln_mark := Some (length (ln_pend a1))\<rparr>"
      by (simp add: line_step_def isLower_def)
    then have "a1\<lparr>ln_mark := Some (length (ln_pend a1))\<rparr> = \<lparr>ln_pend = S, ln_mark = Some (length S), ln_out = []\<rparr>"
      using e by (auto simp: line_flush_def)
    from arg_cong [OF this, of ln_pend] arg_cong [OF this, of ln_out]
    have p: "ln_pend a1 = S" "ln_out a1 = []" by simp_all
    with True have "line_chunk t line_new = \<lparr>ln_pend = [], ln_mark = None, ln_out = S\<rparr>"
      by (simp add: line_chunk_def a1_def [symmetric] line_flush_def)
    then show ?thesis
      by (simp add: line_chunks_def line_chunk_def nl line_step_def isLower_def greeting_at_def S_def)
  next
    case False
    then have "line_chunk t line_new = a1" by (simp only: line_chunk_def a1_def [symmetric] Let_def if_False)
    then show ?thesis
      by (auto simp: line_chunks_def line_chunk_def nl e line_flush_def S_def Let_def)
  qed
qed

text \<open>
  C30. The whole Fuz1 checksum of a short plain body as \<^verbatim>\<open>computeBody\<close> runs it (the body, then a
  line end): the letters of the first line and of every later line that is not a greeting
  (\<^verbatim>\<open>dear\<close>, \<^verbatim>\<open>hello\<close>, \<^verbatim>\<open>greeting\<close>, \<^verbatim>\<open>date\<close> at its start, at most 78 letters), summed by MD5.
\<close>

theorem fuz1_short_text:
  assumes "0x2f \<notin> set body" "0x26 \<notin> set body" "length (letters body) < 234"
  shows "\<exists>f u. fuz1_chunks [(wc, body), (wc', [0x0a])] (newFuz1State, newURL) = Some (f, u)
    \<and> fuz1_final f = (if length (summed_letters body) < 30 then (replicate 16 0, False)
        else (md5_digest (take 4096 (summed_letters body)), True))"
proof -
  have "\<exists>s'. fuz1_chunks [(wc, body), (wc', [0x0a])] (newFuz1State, newURL) = Some s'
      \<and> ctx_rel s' (line_chunks [(wc, body), (wc', [0x0a])] line_new)"
    by (rule fuz1_chunks_rel [OF new_rel]) (use assms in auto)
  then obtain f u where f: "fuz1_chunks [(wc, body), (wc', [0x0a])] (newFuz1State, newURL) = Some (f, u)"
    "line_rel f (line_chunks [(wc, body), (wc', [0x0a])] line_new)" by (auto simp: ctx_rel_def)
  show ?thesis
    by (intro exI conjI, rule f(1)) (simp only: final_rel [OF f(2)] line_digest_def line_body_short [OF assms(3)])
qed

definition sample_text :: bytes where
  "sample_text = str ''Buy now'' @ [0x0a] @ str ''Dear Sir,'' @ [0x0a] @ str ''Limited Offer'' @ [0x0a]
     @ str ''For all of our members'' @ [0x0a]"

theorem fuz1_short_text_witness:
  "\<exists>f u. fuz1_chunks [(0, sample_text), (0, [0x0a])] (newFuz1State, newURL) = Some (f, u)
    \<and> fuz1_final f = (md5_digest (str ''buynowlimitedofferforallofourmembers''), True)"
proof -
  have s: "summed_letters sample_text = str ''buynowlimitedofferforallofourmembers''" by code_simp
  have "letters sample_text = str ''buynowdearsirlimitedofferforallofourmembers''" by code_simp
  then have "0x2f \<notin> set sample_text" "0x26 \<notin> set sample_text" "length (letters sample_text) < 234"
    by (simp_all add: sample_text_def) (simp_all add: str_def)
  from fuz1_short_text [OF this, of 0 0] show ?thesis by (simp add: s str_def)
qed

end
