(* ===== verification/Url_Hosts.thy ===== *)
theory Url_Hosts
  imports Fuz1_Lines Fuz2_Props
begin

text \<open>
  The host names the URL scanner saves, on any text, with references and malformed URLs: the buffer
  never holds a UTF-8 continuation byte, and the saved names end inside it.  So no UTF-8 label is ever
  Punycode-encoded, and the host names Fuz2 falls back to are always there to be read.
\<close>

section \<open>What the encoder writes\<close>

definition ascii :: "byte \<Rightarrow> bool" where
  "ascii b \<longleftrightarrow> b < 0x80"

lemma ascii_of_nat: "n < 0x80 \<Longrightarrow> ascii (of_nat n)"
  by (simp add: ascii_def word_less_nat_alt unat_of_nat)

lemma code36_ascii: "idx punyCode36 q = Some c \<Longrightarrow> ascii c"
proof -
  assume "idx punyCode36 q = Some c"
  then have "c \<in> set punyCode36" by (auto simp: idx_def split: if_splits)
  moreover have "list_all ascii punyCode36" by code_simp
  ultimately show ?thesis by (simp add: list_all_iff)
qed

lemma punyOut_ascii: "punyOut c out = Some out' \<Longrightarrow> list_all ascii out \<Longrightarrow> ascii c \<Longrightarrow> list_all ascii out'"
  by (auto simp: punyOut_def split: if_splits)

lemma puny_basic_out: "puny_basic us out b = Some (out', b') \<Longrightarrow> list_all ascii out \<Longrightarrow> list_all ascii out'"
proof (induction us out b rule: puny_basic.induct)
  case (2 uc us out b)
  then show ?case by (auto simp: bind_Some_iff not_le dest: punyOut_ascii ascii_of_nat split: if_splits)
qed simp

lemma puny_digits_out: "puny_digits bias k q out = Some (Some out') \<Longrightarrow> list_all ascii out \<Longrightarrow> list_all ascii out'"
proof (induction bias k q out rule: puny_digits.induct)
  case (1 bias k q out)
  from "1.prems" show ?case
    by (subst (asm) puny_digits.simps)
      (auto simp: Let_def bind_Some_iff dest: code36_ascii punyOut_ascii intro: "1.IH" split: if_splits option.splits)
qed

lemma proceed_Some: "proceed m f = Some (Some y) \<longleftrightarrow> (\<exists>x. m = Some (Some x) \<and> f x = Some (Some y))"
  by (auto simp: proceed_def split: option.splits)

lemma puny_round_out: "puny_round n b us s = Some (Some s') \<Longrightarrow> list_all ascii (ps_out s) \<Longrightarrow> list_all ascii (ps_out s')"
  by (induction n b us s rule: puny_round.induct) (auto simp: proceed_Some dest: puny_digits_out split: if_splits)

lemma puny_loop_out: "puny_loop fuel b us n s = Some (Some s') \<Longrightarrow> list_all ascii (ps_out s) \<Longrightarrow> list_all ascii (ps_out s')"
proof (induction fuel arbitrary: n s)
  case 0
  then show ?case by (auto simp: puny_loop.simps split: if_splits)
next
  case (Suc fuel)
  from Suc.prems show ?case
    by (subst (asm) puny_loop.simps)
      (auto simp: Let_def proceed_Some dest!: puny_round_out intro: Suc.IH split: if_splits)
qed

lemma puny_encode_out:
  assumes "puny_encode us = Some (Some out)"
  shows "list_all ascii out"
proof -
  have p: "list_all ascii punyPrefix" "ascii 0x2d" by code_simp+
  show ?thesis
    using assms by (auto simp: puny_encode_def proceed_Some split: option.splits if_splits
        dest!: puny_basic_out [OF _ p(1)] punyOut_ascii [OF _ _ p(2)] puny_loop_out)
qed

section \<open>The buffer of host names\<close>

definition doms_ok :: "ckURL \<Rightarrow> bool" where
  "doms_ok u \<longleftrightarrow> u_domStart u \<le> length (u_domsBuf u) \<and> list_all not_cont (u_domsBuf u)"

lemma not_cont_ascii: "ascii b \<Longrightarrow> not_cont b"
  by (simp add: ascii_def not_cont_def)

lemma ascii_not_cont: "list_all ascii out \<Longrightarrow> list_all not_cont out"
  by (auto simp: list_all_iff not_cont_ascii)

lemma copy_at_all: "list_all P xs \<Longrightarrow> list_all P src \<Longrightarrow> list_all P (copy_at xs a src)"
  by (auto simp: copy_at_def list_all_iff dest: in_set_takeD in_set_dropD)

lemma copy_at_length: "length xs \<le> length (copy_at xs a src)"
  by (auto simp: copy_at_def)

lemma upd_all: "upd xs i x = Some ys \<Longrightarrow> list_all P xs \<Longrightarrow> P x \<Longrightarrow> list_all P ys \<and> length ys = length xs \<and> i < length xs"
  by (auto simp: upd_def list_all_iff split: if_splits dest!: set_update_subset_insert [THEN subsetD])

lemma slice_all: "slice xs a b = Some ys \<Longrightarrow> list_all P xs \<Longrightarrow> list_all P ys \<and> b \<le> int (length xs)"
  by (auto simp: slice_def list_all_iff split: if_splits dest: in_set_takeD in_set_dropD)

lemma nslice_all: "nslice xs a b = Some ys \<Longrightarrow> list_all P xs \<Longrightarrow> list_all P ys \<and> b \<le> length xs"
  by (auto simp: nslice_def list_all_iff split: if_splits dest: in_set_takeD in_set_dropD)

lemma doms_ok_upd [simp]:
  "doms_ok (set_flag fl u) = doms_ok u" "doms_ok (clear_flag fl u) = doms_ok u" "doms_ok (resetDomsBuf i u) = doms_ok u"
  "doms_ok (url_prefix uc u) = doms_ok u" "doms_ok (url_skipping uc u) = doms_ok u"
  "doms_ok (u\<lparr>u_st := st\<rparr>) = doms_ok u" "doms_ok (u\<lparr>u_cref := cr\<rparr>) = doms_ok u"
  "doms_ok (u\<lparr>u_punct := p\<rparr>) = doms_ok u" "doms_ok (u\<lparr>u_urlTotal := t\<rparr>) = doms_ok u"
  "doms_ok (u\<lparr>u_domEnd := e\<rparr>) = doms_ok u"
  by (simp_all add: doms_ok_def set_flag_def clear_flag_def resetDomsBuf_def url_prefix_def url_skipping_def Let_def
      split: urlSt.split)

lemma punyencode_doms: "punyencode u = Some u' \<Longrightarrow> doms_ok u \<Longrightarrow> doms_ok u'"
  by (auto simp: punyencode_def Let_def proceed_Some clear_flag_def doms_ok_def copy_at_all ascii_not_cont
      intro: order_trans [OF _ copy_at_length] dest!: puny_encode_out split: option.splits if_splits)

lemma urlHostSave_doms:
  assumes "urlHostSave uc u = Some u'" "doms_ok u" "not_cont uc"
  shows "doms_ok u'"
  using assms
  by (auto simp: urlHostSave_def Let_def bind_Some_iff doms_ok_def dest!: upd_all split: if_splits)

lemma url_save_doms:
  assumes "url_save uc s = Some s'" "doms_ok (snd s)" "not_cont uc"
  shows "doms_ok (snd s')"
proof -
  have d: "not_cont 0x2e" by (simp add: not_cont_def)
  show ?thesis
    using assms by (cases s) (auto simp: url_save_def url_save_dot_def bind_Some_iff Let_def
        dest!: urlHostSave_doms [OF _ _ d] punyencode_doms urlHostSave_doms split: if_splits,
      (auto simp: doms_ok_def)?)
qed

lemma delete_label_doms_doms:
  assumes "delete_label_doms u = Some u'" "list_all not_cont (u_domsBuf u)"
  shows "list_all not_cont (u_domsBuf u') \<and> u_domEnd u' \<le> length (u_domsBuf u')"
proof -
  let ?len = "int (u_domEnd u) - int (u_dot2 u)"
  obtain a b where s: "slice (u_domsBuf u) (int (u_domStart u)) (int (u_domStart u) + ?len) = Some a"
    "slice (u_domsBuf u) (int (u_dot2 u)) (int (u_dot2 u) + ?len) = Some b"
    "u' = u\<lparr>u_domsBuf := copy_at (u_domsBuf u) (u_domStart u) b, u_domEnd := nat (int (u_domStart u) + ?len)\<rparr>"
    using assms(1) by (auto simp: delete_label_doms_def Let_def bind_Some_iff)
  have "int (u_domStart u) + ?len \<le> int (length (u_domsBuf u))" "list_all not_cont b"
    using slice_all [OF s(1) assms(2)] slice_all [OF s(2) assms(2)] by auto
  then show ?thesis
    using s(3) assms(2) copy_at_length [of "u_domsBuf u" "u_domStart u" b] by (auto simp: copy_at_all)
qed

lemma urlHostEnd_doms:
  assumes "urlHostEnd wc (f, u) = Some (f', u')" "doms_ok u"
  shows "doms_ok u'"
proof -
  define v where "v = (if u_punct u \<noteq> 0 then u\<lparr>u_domEnd := u_punct u\<rparr> else u)"
  have v: "doms_ok v" using assms(2) by (simp add: v_def)
  note e = assms(1) [unfolded urlHostEnd_def prod.case Let_def v_def [symmetric]]
  show ?thesis
  proof (cases "u_domEnd v \<le> u_domStart v \<or> has urlTooLong v")
    case True
    with e v show ?thesis by simp
  next
    case False
    obtain w b x where w: "(if has urlIDN v then punyencode v else Some v) = Some w"
      "upd (u_domsBuf w) (u_domEnd w) 0 = Some b"
      "(if u_dot2 w \<noteq> 0 \<and> wc < fuz2MinWords then delete_label_doms (w\<lparr>u_domsBuf := b, u_domEnd := u_domEnd w + 1\<rparr>)
        else Some (w\<lparr>u_domsBuf := b, u_domEnd := u_domEnd w + 1\<rparr>)) = Some x"
      "u' = x\<lparr>u_domStart := u_domEnd x, u_doms := u_doms x + 1\<rparr>"
      using e unfolding if_not_P [OF False] by (auto simp: bind_Some_iff)
    have "doms_ok w" using w(1) v punyencode_doms by (auto split: if_splits)
    moreover have z: "not_cont 0" by (simp add: not_cont_def)
    ultimately have b: "list_all not_cont b" "u_domEnd w + 1 \<le> length b"
      using upd_all [OF w(2), of not_cont] by (auto simp: doms_ok_def)
    have "list_all not_cont (u_domsBuf x) \<and> u_domEnd x \<le> length (u_domsBuf x)"
    proof (cases "u_dot2 w \<noteq> 0 \<and> wc < fuz2MinWords")
      case True
      with w(3) have d: "delete_label_doms (w\<lparr>u_domsBuf := b, u_domEnd := u_domEnd w + 1\<rparr>) = Some x" by simp
      show ?thesis using delete_label_doms_doms [OF d] b by simp
    next
      case False
      with w(3) b show ?thesis by (auto split: if_splits)
    qed
    then show ?thesis using w(4) by (simp add: doms_ok_def)
  qed
qed

lemma compactDoms_doms: "compactDoms u = Some u' \<Longrightarrow> doms_ok u \<Longrightarrow> doms_ok u'"
proof (induction u rule: compactDoms.induct)
  case (1 u)
  show ?case
  proof (cases "u_domStart u > domsBufSize - urlHostMaxSave")
    case False
    with "1.prems" show ?thesis by (subst (asm) compactDoms.simps) simp
  next
    case True
    obtain p where p: "indexByteFrom (u_domsBuf u) 0 (u_domStart u) = Some p"
      using "1.prems"(1) True by (subst (asm) compactDoms.simps) (auto split: option.splits)
    define d where "d = u_domStart u - (p + 1)"
    obtain b where b: "nslice (u_domsBuf u) (p + 1) (p + 1 + d) = Some b"
      "compactDoms (u\<lparr>u_domStart := d, u_domsBuf := copy_at (u_domsBuf u) 0 b\<rparr>) = Some u'"
      using "1.prems"(1) True p by (subst (asm) compactDoms.simps) (auto simp: d_def Let_def split: option.splits)
    have "list_all not_cont b \<and> d \<le> length (u_domsBuf u)"
      using nslice_all [OF b(1), of not_cont] "1.prems"(2) by (auto simp: doms_ok_def)
    then have "doms_ok (u\<lparr>u_domStart := d, u_domsBuf := copy_at (u_domsBuf u) 0 b\<rparr>)"
      using "1.prems"(2) copy_at_length [of "u_domsBuf u" 0 b] by (auto simp: doms_ok_def copy_at_all)
    with "1.IH" [OF True p d_def b(1)] b(2) show ?thesis by blast
  qed
qed

lemma url_slash2_doms: "url_slash2 wc uc u = Some (u', r) \<Longrightarrow> doms_ok u \<Longrightarrow> doms_ok u'"
  by (auto simp: url_slash2_def bind_Some_iff dest!: compactDoms_doms split: if_splits) (simp add: doms_ok_def)

text \<open>The characters of a host name are letters, digits, the marks below 0x80, and the bytes from 0xc0.\<close>

lemma idn_not_cont: "uc AND 0xc0 = 0xc0 \<Longrightarrow> not_cont uc"
  using word_and_le2 [of uc "0xc0"] by (simp add: not_cont_def)

lemma host_not_cont: "host_char uc \<Longrightarrow> not_cont uc" "user_punct uc \<Longrightarrow> not_cont uc" "not_cont 0x3a"
  by (auto simp: host_char_def user_punct_def not_cont_def word_le_nat_alt word_less_nat_alt)

lemma url_end_doms: "url_end wc q s = Some s' \<Longrightarrow> doms_ok (snd s) \<Longrightarrow> doms_ok (snd s')"
  by (cases s) (auto simp: url_end_def bind_Some_iff dest: urlHostEnd_doms)

lemma url_slash3_doms:
  assumes "url_slash3 wc uc s = Some s'" "doms_ok (snd s)"
  shows "doms_ok (snd s')"
  using assms
  by (cases s) (auto simp: url_slash3_def Let_def host_not_cont idn_not_cont dest: urlHostEnd_doms
      dest!: url_save_doms url_end_doms split: if_splits)

lemma url_switch_doms:
  assumes "url_switch wc uc s = Some (s', r)" "doms_ok (snd s)"
  shows "doms_ok (snd s')"
  using assms
  by (cases s) (auto simp: url_switch_def dest: url_slash2_doms url_slash3_doms split: urlSt.splits)

lemma ckURLStep_doms: "ckURLStep wc uc s = Some (s', r, again) \<Longrightarrow> doms_ok (snd s) \<Longrightarrow> doms_ok (snd s')"
  by (cases s) (auto simp: ckURLStep_def Let_def bind_Some_iff dest!: url_switch_doms split: if_splits)

lemma fuz1_char_doms: "fuz1_char c s = Some s' \<Longrightarrow> doms_ok (snd s) \<Longrightarrow> doms_ok (snd s')"
  by (cases s) (auto simp: fuz1_char_def fuz1_letter_def fuz1_newline_def Let_def bind_Some_iff split: if_splits)

lemma fuz1_step_doms:
  assumes "fuz1_step wc c s = Some (s', b)" "doms_ok (snd s)"
  shows "doms_ok (snd s')"
proof (cases "c = 0x68 \<or> c = 0x3d \<or> u_st (snd s) \<noteq> UrlIdle")
  case True
  obtain f u r again where r: "ckURLStep wc c s = Some ((f, u), r, again)" "doms_ok u"
    using assms True ckURLStep_doms [of wc c s] by (fastforce simp: fuz1_step_def bind_Some_iff)
  show ?thesis
    using assms(1) True r by (cases r) (auto simp: fuz1_step_def bind_Some_iff dest!: fuz1_char_doms)
next
  case False
  with assms show ?thesis by (auto simp: fuz1_step_def dest: fuz1_char_doms)
qed

lemma fuz1_doms: "fuz1 wc bp s = Some s' \<Longrightarrow> doms_ok (snd s) \<Longrightarrow> doms_ok (snd s')"
proof (induction wc bp s rule: fuz1.induct)
  case (1 wc s)
  then show ?case by (cases s) (auto simp: fuz1_chunk_end_def bind_Some_iff split: if_splits)
next
  case (2 wc b bp s)
  obtain s1 consumed where s1: "fuz1_step wc (toLower b) s = Some (s1, consumed)"
    using "2.prems"(1) by (cases "fuz1_step wc (toLower b) s") (auto simp: fuz1.simps(2))
  note ok = fuz1_step_doms [OF s1 "2.prems"(2)]
  show ?case
    using "2.IH"(1) [OF s1 refl _ _ ok] "2.IH"(2) [OF s1 refl _ _ ok] "2.prems"(1) s1
    by (cases consumed) (simp_all add: fuz1.simps(2))
qed

lemma new_doms: "doms_ok newURL"
proof -
  have "list_all not_cont (replicate n 0)" for n by (induction n) (simp_all add: not_cont_def)
  then show ?thesis by (simp add: doms_ok_def newURL_def)
qed

lemma fuz1_chunks_doms:
  assumes "fuz1_chunks cs (newFuz1State, newURL) = Some (f, u)"
  shows "doms_ok u"
proof -
  have "doms_ok (snd s) \<Longrightarrow> fuz1_chunks cs s = Some s' \<Longrightarrow> doms_ok (snd s')" for s s'
    by (induction cs arbitrary: s) (auto simp: fuz1_chunks_def bind_Some_iff dest: fuz1_doms)
  from this [of "(newFuz1State, newURL)" "(f, u)"] assms new_doms show ?thesis by simp
qed

text \<open>
  C38. No UTF-8 host name is ever Punycode-encoded.  Whatever text Fuz1 has read, in whatever chunks and
  with whatever references, the buffer of host names holds no UTF-8 continuation byte; so on every label
  in it that has a byte outside ASCII, \<^verbatim>\<open>punyencode\<close> only clears \<^verbatim>\<open>urlIDN\<close>.  The code calls
  \<^verbatim>\<open>punyencode\<close> on the buffer as the text before the current byte left it.
\<close>

theorem utf8_hosts_not_encoded:
  assumes "fuz1_chunks cs (newFuz1State, newURL) = Some (f, u)"
  shows "(\<forall>b \<in> set (u_domsBuf u). b < 0x80 \<or> 0xc0 \<le> b) \<and>
    (\<forall>v. u_domsBuf v = u_domsBuf u \<and> u_labelStart v < u_domEnd v \<and> u_domEnd v \<le> length (u_domsBuf v)
      \<and> (\<exists>b \<in> set (label_of v). 0x80 \<le> b) \<longrightarrow> punyencode v = Some (clear_flag urlIDN v))"
proof -
  have n: "\<forall>b \<in> set (u_domsBuf u). b < 0x80 \<or> 0xc0 \<le> b"
    using fuz1_chunks_doms [OF assms] by (auto simp: doms_ok_def list_all_iff not_cont_def)
  show ?thesis
  proof (intro conjI allI impI n)
    fix v assume v: "u_domsBuf v = u_domsBuf u \<and> u_labelStart v < u_domEnd v \<and> u_domEnd v \<le> length (u_domsBuf v)
      \<and> (\<exists>b \<in> set (label_of v). 0x80 \<le> b)"
    show "punyencode v = Some (clear_flag urlIDN v)"
    proof (rule puny_leaves_non_ascii)
      show "\<forall>b \<in> set (drop (u_labelStart v) (take (u_domEnd v) (u_domsBuf v))). b < 0x80 \<or> 0xc0 \<le> b"
        using n v by (auto dest!: in_set_dropD in_set_takeD)
    qed (use v in \<open>auto simp: label_of_def\<close>)
  qed
qed

section \<open>The names Fuz2 falls back to\<close>

text \<open>
  C31. The final choice of Fuz2 with the URL state the code passes, after Fuz1 has read any text: the
  language with the most dictionary words, the first of them on a tie.  The checksum is withheld when
  there are fewer than 100 words and less than a tenth of the text is accounted for, or when the words and
  four for each host name do not make 8; with fewer than 8 words the saved host names, without the
  last separator, are hashed after the words.
\<close>

theorem fuz2_choice_with_hosts:
  assumes "fuz1_chunks cs (newFuz1State, newURL) = Some (f, u)" "length (f2_lang z) = 4"
  shows "\<exists>i < 4. let l = f2_lang z ! i; names = take (u_domStart u - 1) (u_domsBuf u) in
    (\<forall>j < 4. l_wtotal (f2_lang z ! j) \<le> l_wtotal l) \<and> (\<forall>j < i. l_wtotal (f2_lang z ! j) < l_wtotal l)
    \<and> fuz2_final z (Some u) = Some
        (if l_wtotal l < 100 \<and> (l_wsummed l + f2_xsummed z) * 10 < f2_btotal z \<or> l_wtotal l + 4 * u_doms u < 8
         then (replicate 16 0, False)
         else if l_wtotal l < 8 then (md5_sum (md5_write (l_md5 l) names), True)
         else (md5_sum (l_md5 l), True))"
proof -
  note b = fuz2_best_spec [of "f2_lang z"]
  have d: "u_domStart u \<le> length (u_domsBuf u)" using fuz1_chunks_doms [OF assms(1)] by (simp add: doms_ok_def)
  have names: "slice (u_domsBuf u) 0 (int (u_domStart u) - 1) = Some (take (u_domStart u - 1) (u_domsBuf u))"
    if "1 < u_domStart u" using that d by (simp add: slice_def nat_diff_distrib)
  show ?thesis
    by (intro exI [of _ "fuz2_best (f2_lang z) 0 [1..<fuz2LangNum]"])
      (use b names in \<open>auto simp: fuz2_final_def Let_def fuz2FewWords_def fuz2MinWords_def md5_sum_write_nil\<close>)
qed

text \<open>Two URLs and no words: the third-level label of the first is dropped.\<close>

lemma two_hosts:
  obtains f u where "fuz1_chunks [(0, str ''http://x.bc.de/ http://f.gh/'')] (newFuz1State, newURL) = Some (f, u)"
    "u_doms u = 2" "u_domStart u = 11" "take 11 (u_domsBuf u) = str ''bc.de'' @ [0] @ str ''f.gh'' @ [0]"
proof -
  have "map_option (\<lambda>(f, u). (u_doms u, u_domStart u, take 11 (u_domsBuf u)))
      (fuz1_chunks [(0, str ''http://x.bc.de/ http://f.gh/'')] (newFuz1State, newURL))
    = Some (2, 11, str ''bc.de'' @ [0] @ str ''f.gh'' @ [0])" by code_simp
  with that show thesis by auto
qed

theorem fuz2_choice_with_hosts_witness:
  "\<exists>f u. fuz1_chunks [(0, str ''http://x.bc.de/ http://f.gh/'')] (newFuz1State, newURL) = Some (f, u)
     \<and> fuz2_final newFuz2State (Some u) = Some (md5_digest (str ''bc.de'' @ [0] @ str ''f.gh''), True)"
proof -
  obtain f u where u: "fuz1_chunks [(0, str ''http://x.bc.de/ http://f.gh/'')] (newFuz1State, newURL) = Some (f, u)"
    "u_doms u = 2" "u_domStart u = 11" "take 11 (u_domsBuf u) = str ''bc.de'' @ [0] @ str ''f.gh'' @ [0]"
    by (rule two_hosts)
  have "take 10 (take 11 (u_domsBuf u)) = str ''bc.de'' @ [0] @ str ''f.gh''" unfolding u(4) by (simp add: str_def)
  then have "take 10 (u_domsBuf u) = str ''bc.de'' @ [0] @ str ''f.gh''" by (simp add: min_def)
  moreover have l: "length (f2_lang newFuz2State) = 4" by (simp add: newFuz2State_def fuz2LangNum_def)
  ultimately show ?thesis
    using fuz2_choice_with_hosts [OF u(1) l] u
    by (auto simp: Let_def newFuz2State_def fuz2LangNum_def md5_sum_digest)
qed

text \<open>In the middle of a host name that begins with a UTF-8 character, whose second byte ends the name.\<close>

theorem utf8_hosts_not_encoded_witness:
  "\<exists>f u. fuz1_chunks [(0, str ''http://'' @ [0xc3] @ str ''x'')] (newFuz1State, newURL) = Some (f, u)
     \<and> has urlIDN u \<and> label_of u = [0xc3] @ str ''x'' \<and> punyencode u = Some (clear_flag urlIDN u)"
proof -
  have "map_option (\<lambda>(f, u). (has urlIDN u, u_labelStart u, u_domEnd u, label_of u))
      (fuz1_chunks [(0, str ''http://'' @ [0xc3] @ str ''x'')] (newFuz1State, newURL)) = Some (True, 0, 2, [0xc3] @ str ''x'')"
    by code_simp
  then obtain f u where u: "fuz1_chunks [(0, str ''http://'' @ [0xc3] @ str ''x'')] (newFuz1State, newURL) = Some (f, u)"
    "has urlIDN u" "u_labelStart u = 0" "u_domEnd u = 2" "label_of u = [0xc3] @ str ''x''" by auto
  have "2 \<le> length (u_domsBuf u)" using arg_cong [OF u(5), of length] u(3,4) by (simp add: label_of_def)
  with utf8_hosts_not_encoded [OF u(1)] u show ?thesis by auto
qed

end
