(* ===== verification/Cks.thy ===== *)
theory Cks
  imports Body_Ck Fuz1 Fuz2
begin

text \<open>
  \<^verbatim>\<open>dcc/cks.go\<close>: the shared checksum context.  The MIME container state is the record
  \<open>mime\<close>; the context \<open>cks\<close> adds the three checksummers and the URL extractor.  The two bits of
  \<^verbatim>\<open>flags\<close> are two Booleans, the C-style enumerations are datatypes.
\<close>

definition ckBndMax :: nat where "ckBndMax = 94"
definition ckBndDim :: nat where "ckBndDim = ckBndMax + 2"
definition ckBndMiss :: nat where "ckBndMiss = ckBndDim + 1"
definition mimeBndNum :: nat where "mimeBndNum = 3"

lemmas bnd_consts = ckBndMax_def ckBndDim_def ckBndMiss_def mimeBndNum_def

datatype mimeCe = CeASCII | CeQP | CeB64

datatype mpSt = MpPreamble | MpBnd | MpHdrs | MpText | MpEpilogue

datatype mhdrSt = MhdrIdle | MhdrCeCt | MhdrCe | MhdrCeWS | MhdrCt | MhdrCtWS | MhdrQP | MhdrB64
  | MhdrText | MhdrHTML | MhdrCsetSkipParam | MhdrCsetSpanWS | MhdrCset | MhdrCsetISO8859
  | MhdrCsetISOX | MhdrMultipart | MhdrBndSkipParam | MhdrBndSpanWS | MhdrBnd | MhdrBndValue

record ckBnd =
  bn_len :: nat
  bn_cmp :: nat
  bn_bnd :: bytes

datatype qpSt = QpIdle | QpEq | Qp1 | QpFail1 | QpFail2 | QpFail3

record qpState =
  qp_x :: byte
  qp_y :: byte
  qp_n :: byte
  qp_state :: qpSt

record b64State =
  b64_quantum :: u32
  b64_cnt :: nat

record mime =
  m_nest :: nat
  m_bnd :: "ckBnd list"
  m_matches :: int
  m_mp :: mpSt
  m_hdr :: mhdrSt
  m_pos :: nat
  m_qp :: qpState
  m_b64 :: b64State
  m_ct :: ckCt
  m_cset :: charset
  m_ce :: mimeCe
  m_bol :: bool
  m_quoted :: bool

record cks =
  c_body :: bodyState
  c_fz1 :: fuz1State
  c_fz2 :: fuz2State
  c_url :: ckURL
  c_m :: mime

definition decodersInit :: "mime \<Rightarrow> mime" where
  "decodersInit m =
     m\<lparr>m_matches := 0, m_bol := True, m_ct := CtText, m_cset := Iso1, m_ce := CeASCII,
       m_qp := (m_qp m)\<lparr>qp_state := QpIdle\<rparr>, m_b64 := (m_b64 m)\<lparr>b64_cnt := 0\<rparr>\<rparr>"

definition zeroBnd :: ckBnd where
  "zeroBnd = \<lparr>bn_len = 0, bn_cmp = 0, bn_bnd = replicate 96 0\<rparr>"

definition newMime :: mime where
  "newMime = decodersInit
     \<lparr>m_nest = 0, m_bnd = replicate 3 zeroBnd, m_matches = 0, m_mp = MpText, m_hdr = MhdrIdle,
      m_pos = 0, m_qp = \<lparr>qp_x = 0, qp_y = 0, qp_n = 0, qp_state = QpIdle\<rparr>,
      m_b64 = \<lparr>b64_quantum = 0, b64_cnt = 0\<rparr>, m_ct = CtText, m_cset = Iso1, m_ce = CeASCII,
      m_bol = False, m_quoted = False\<rparr>"

definition newCks :: cks where
  "newCks = \<lparr>c_body = newBodyState, c_fz1 = newFuz1State, c_fz2 = newFuz2State, c_url = newURL, c_m = newMime\<rparr>"

text \<open>The English word total, which the URL extractor reads.\<close>

definition fz2WordCount :: "cks \<Rightarrow> nat" where
  "fz2WordCount c = l_wtotal (f2_lang (c_fz2 c) ! 0)"

end
