(* ===== verification/Mime_Hdr.thy ===== *)
theory Mime_Hdr
  imports Cks
begin

text \<open>
  The MIME header parser of \<^verbatim>\<open>dcc/mime.go\<close> (ckmime.c): an incremental matcher that notices
  Content-Type and Content-Transfer-Encoding fields and picks up the transfer encoding, the
  content type, the charset and the multipart boundary.  Each case of the state switch of
  \<^verbatim>\<open>parseMimeHdr\<close> is one equation of \<open>hdr_te\<close>, \<open>hdr_ct\<close>, \<open>hdr_cset\<close> or \<open>hdr_bnd\<close>: they take the
  state and the rest of the input and return both, with a flag that is true where the Go code
  returns.  The array accesses of the boundary are checked.
\<close>

type_synonym hdr = "mime \<times> bytes"

definition eqFold :: "bytes \<Rightarrow> bytes \<Rightarrow> bool" where
  "eqFold s b \<longleftrightarrow> map toLower s = map toLower (take (length s) b)"

definition mhMatch :: "mhdrSt \<Rightarrow> mhdrSt \<Rightarrow> string \<Rightarrow> hdr \<Rightarrow> hdr \<times> bool" where
  "mhMatch ok fail tgt s = (case s of (m, b) \<Rightarrow>
     let n = min (length tgt - m_pos m) (length b)
     in if n > 0 \<and> \<not> eqFold (take n (drop (m_pos m) (str tgt))) (take n b)
        then ((m\<lparr>m_hdr := fail\<rparr>, b), False)
        else let m = m\<lparr>m_pos := m_pos m + n\<rparr>; b = drop n b
          in if m_pos m \<ge> length tgt then ((m\<lparr>m_hdr := ok, m_pos := 0\<rparr>, b), True)
             else ((m, b), False))"

definition spanWS :: "bytes \<Rightarrow> bytes" where
  "spanWS b = dropWhile (\<lambda>c. c \<in> set [0x20, 0x09, 0x0d, 0x0a]) b"

text \<open>\<open>skipParam\<close> stops before white space and after a semicolon; the flag says whether it stopped.\<close>

fun skipParam :: "bytes \<Rightarrow> bytes \<times> bool" where
  "skipParam [] = ([], False)"
| "skipParam (c # b) =
     (if c \<in> set [0x20, 0x09, 0x0d, 0x0a] then (c # b, True)
      else if c = 0x3b then (b, True) else skipParam b)"

definition is_ch :: "string \<Rightarrow> byte \<Rightarrow> bool" where
  "is_ch s c \<longleftrightarrow> c \<in> set (str s)"

text \<open>Content-Type or Content-Transfer-Encoding, and the encoding.\<close>

definition hdr_te :: "hdr \<Rightarrow> hdr \<times> bool" where
  "hdr_te s = (case s of (m, bp) \<Rightarrow>
     case m_hdr m of
       MhdrCeCt \<Rightarrow>
         (case mhMatch MhdrCtWS MhdrIdle ''Content-T'' (m, bp) of ((m, bp), r) \<Rightarrow>
            if r then
              (case bp of
                 [] \<Rightarrow> ((m, bp), True)
               | c # _ \<Rightarrow>
                   if is_ch ''rR'' c then ((m\<lparr>m_hdr := MhdrCe\<rparr>, bp), False)
                   else if is_ch ''yY'' c then ((m\<lparr>m_hdr := MhdrCt\<rparr>, bp), False)
                   else ((m\<lparr>m_hdr := MhdrIdle\<rparr>, bp), True))
            else ((m, bp), False))
     | MhdrCe \<Rightarrow> (fst (mhMatch MhdrCeWS MhdrIdle ''ransfer-Encoding:'' (m, bp)), False)
     | MhdrCeWS \<Rightarrow>
         (case spanWS bp of
            [] \<Rightarrow> ((m, []), True)
          | c # b \<Rightarrow>
              if is_ch ''bB'' c then ((m\<lparr>m_hdr := MhdrB64\<rparr>, c # b), False)
              else if is_ch ''qQ'' c then ((m\<lparr>m_hdr := MhdrQP\<rparr>, c # b), False)
              else ((m\<lparr>m_hdr := MhdrIdle\<rparr>, c # b), True))
     | MhdrQP \<Rightarrow>
         (case mhMatch MhdrIdle MhdrIdle ''quoted-printable'' (m, bp) of ((m, bp), r) \<Rightarrow>
            ((if r then m\<lparr>m_ce := CeQP\<rparr> else m, bp), False))
     | _ \<Rightarrow>
         (case mhMatch MhdrIdle MhdrIdle ''base64'' (m, bp) of ((m, bp), r) \<Rightarrow>
            ((if r then m\<lparr>m_ce := CeB64\<rparr> else m, bp), False)))"

text \<open>The content type: text, HTML, multipart, or something else, which is binary.\<close>

definition hdr_ct :: "bool \<Rightarrow> hdr \<Rightarrow> hdr \<times> bool" where
  "hdr_ct inHdrs s = (case s of (m, bp) \<Rightarrow>
     case m_hdr m of
       MhdrCt \<Rightarrow> (fst (mhMatch MhdrCtWS MhdrIdle ''ype:'' (m, bp)), False)
     | MhdrCtWS \<Rightarrow>
         (case spanWS bp of
            [] \<Rightarrow> ((m, []), True)
          | c # b \<Rightarrow>
              if is_ch ''tT'' c then ((m\<lparr>m_hdr := MhdrText\<rparr>, c # b), False)
              else if is_ch ''mM'' c then
                (if inHdrs \<or> m_nest m < mimeBndNum then ((m\<lparr>m_hdr := MhdrMultipart\<rparr>, c # b), False)
                 else ((m\<lparr>m_hdr := MhdrIdle\<rparr>, c # b), False))
              else ((m\<lparr>m_ct := CtBinary, m_hdr := MhdrIdle\<rparr>, c # b), True))
     | MhdrText \<Rightarrow>
         (case mhMatch MhdrHTML MhdrIdle ''text'' (m, bp) of ((m, bp), r) \<Rightarrow>
            ((if r then m\<lparr>m_ct := CtText\<rparr> else m, bp), False))
     | _ \<Rightarrow>
         (case mhMatch MhdrCsetSkipParam MhdrCsetSkipParam ''/html'' (m, bp) of ((m, bp), r) \<Rightarrow>
            ((if r then m\<lparr>m_ct := CtHTML\<rparr> else m, bp), False)))"

text \<open>The charset parameter: only 8859-2 differs from the default.\<close>

fun hdr_isox :: "mime \<Rightarrow> bytes \<Rightarrow> hdr" where
  "hdr_isox m [] = (m, [])"
| "hdr_isox m (ch # bp) =
     (if ch < 0x30 \<or> ch > 0x39 then
        (m\<lparr>m_cset := (if is_ch [CHR 0x22, CHR 0x20, CHR 0x09, CHR 0x3b, CHR 0x0d, CHR 0x0a] ch
                         \<and> m_pos m = 2 then Iso2 else Iso1),
           m_hdr := MhdrIdle\<rparr>, bp)
      else let m = m\<lparr>m_pos := m_pos m * 10 + unat (ch - 0x30)\<rparr>
        in if m_pos m > 99 then (m\<lparr>m_hdr := MhdrIdle\<rparr>, bp) else hdr_isox m bp)"

definition hdr_cset :: "hdr \<Rightarrow> hdr \<times> bool" where
  "hdr_cset s = (case s of (m, bp) \<Rightarrow>
     case m_hdr m of
       MhdrCsetSkipParam \<Rightarrow>
         (case skipParam bp of (b, r) \<Rightarrow> ((if r then m\<lparr>m_hdr := MhdrCsetSpanWS\<rparr> else m, b), False))
     | MhdrCsetSpanWS \<Rightarrow>
         (let b = spanWS bp in ((if b \<noteq> [] then m\<lparr>m_hdr := MhdrCset\<rparr> else m, b), False))
     | MhdrCset \<Rightarrow> (fst (mhMatch MhdrCsetISO8859 MhdrCsetSkipParam ''charset='' (m, bp)), False)
     | MhdrCsetISO8859 \<Rightarrow>
         (let bp = (if m_pos m = 0 \<and> bp \<noteq> [] \<and> hd bp = 0x22 then tl bp else bp)
          in (fst (mhMatch MhdrCsetISOX MhdrIdle ''iso-8859-'' (m, bp)), False))
     | _ \<Rightarrow> (hdr_isox m bp, True))"

text \<open>
  The boundary parameter.  \<open>hdr_bndvalue\<close> is the inner loop: it copies the value into \<open>bnd\<close>
  and ends by returning, or, with the flag true, by finishing the boundary.
\<close>

fun hdr_bndvalue :: "mime \<Rightarrow> ckBnd \<Rightarrow> bytes \<Rightarrow> ((mime \<times> ckBnd \<times> bytes) \<times> bool) option" where
  "hdr_bndvalue m bnd [] = Some ((m, bnd, []), False)"
| "hdr_bndvalue m bnd (ch # bp) =
     (if ch = 0x0a then Some ((m, bnd, bp), True)
      else if ch = 0x0d then hdr_bndvalue m bnd bp
      else if (ch = 0x20 \<or> ch = 0x09 \<or> ch = 0x3b) \<and> \<not> m_quoted m then Some ((m, bnd, bp), True)
      else if ch = 0x22 then hdr_bndvalue (m\<lparr>m_quoted := \<not> m_quoted m\<rparr>) bnd bp
      else (case upd (bn_bnd bnd) (m_pos m) ch of
              None \<Rightarrow> None
            | Some b \<Rightarrow>
                let bnd = bnd\<lparr>bn_bnd := b\<rparr>; m = m\<lparr>m_pos := m_pos m + 1\<rparr>
                in if m_pos m \<ge> ckBndMax then Some ((m\<lparr>m_hdr := MhdrIdle\<rparr>, bnd, bp), False)
                   else hdr_bndvalue m bnd bp))"

definition hdr_bnd :: "bool \<Rightarrow> hdr \<Rightarrow> (hdr \<times> bool) option" where
  "hdr_bnd inHdrs s = (case s of (m, bp) \<Rightarrow>
     case m_hdr m of
       MhdrMultipart \<Rightarrow>
         Some (fst (mhMatch MhdrBndSkipParam MhdrIdle ''multipart'' (m\<lparr>m_hdr := MhdrText\<rparr>, bp)), False)
     | MhdrBndSkipParam \<Rightarrow>
         (case skipParam bp of (b, r) \<Rightarrow> Some ((if r then m\<lparr>m_hdr := MhdrBndSpanWS\<rparr> else m, b), False))
     | MhdrBndSpanWS \<Rightarrow>
         (let b = spanWS bp in Some ((if b \<noteq> [] then m\<lparr>m_hdr := MhdrBnd\<rparr> else m, b), False))
     | MhdrBnd \<Rightarrow>
         (case mhMatch MhdrBndValue MhdrBndSkipParam ''boundary='' (m, bp) of ((m, bp), r) \<Rightarrow>
            if r then do {
              let m = (if inHdrs then m\<lparr>m_nest := 0, m_matches := 1\<rparr> else m);
              bnd \<leftarrow> idx (m_bnd m) (m_nest m);
              b \<leftarrow> upd (bn_bnd bnd) 0 0x2d;
              b \<leftarrow> upd b 1 0x2d;
              Some ((m\<lparr>m_quoted := False, m_bnd := (m_bnd m)[m_nest m := bnd\<lparr>bn_bnd := b\<rparr>], m_pos := 2\<rparr>, bp), False)
            }
            else Some ((m, bp), False))
     | _ \<Rightarrow> do {
         bnd \<leftarrow> idx (m_bnd m) (m_nest m);
         ((m, bnd, bp), fin) \<leftarrow> hdr_bndvalue m bnd bp;
         if fin then
           Some ((m\<lparr>m_bnd := (m_bnd m)[m_nest m := bnd\<lparr>bn_len := m_pos m, bn_cmp := 0\<rparr>],
                    m_nest := m_nest m + 1, m_hdr := MhdrIdle\<rparr>, bp), False)
         else Some ((m\<lparr>m_bnd := (m_bnd m)[m_nest m := bnd]\<rparr>, bp), True)
       })"

definition hdr_step :: "bool \<Rightarrow> hdr \<Rightarrow> (hdr \<times> bool) option" where
  "hdr_step inHdrs s =
     (if m_hdr (fst s) = MhdrIdle then Some (s, True)
      else if m_hdr (fst s) \<in> {MhdrCeCt, MhdrCe, MhdrCeWS, MhdrQP, MhdrB64} then Some (hdr_te s)
      else if m_hdr (fst s) \<in> {MhdrCt, MhdrCtWS, MhdrText, MhdrHTML} then Some (hdr_ct inHdrs s)
      else if m_hdr (fst s) \<in> {MhdrCsetSkipParam, MhdrCsetSpanWS, MhdrCset, MhdrCsetISO8859, MhdrCsetISOX}
        then Some (hdr_cset s)
      else hdr_bnd inHdrs s)"

section \<open>The loop ends\<close>

text \<open>
  A round of the loop that consumes nothing moves on to a state of smaller rank.  The states
  that look for a parameter form a cycle, whose order depends on whether white space comes next.
\<close>

lemma mhMatch_cases:
  assumes "b \<noteq> []"
  obtains (ok) b' where "mhMatch ok fail tgt (m, b) = ((m\<lparr>m_hdr := ok, m_pos := 0\<rparr>, b'), True)" "b' = b \<or> length b' < length b"
  | (fail) "mhMatch ok fail tgt (m, b) = ((m\<lparr>m_hdr := fail\<rparr>, b), False)"
  | (more) "mhMatch ok fail tgt (m, b) = ((m\<lparr>m_pos := m_pos m + length b\<rparr>, []), False)"
proof -
  let ?n = "min (length tgt - m_pos m) (length b)"
  consider "?n > 0 \<and> \<not> eqFold (take ?n (drop (m_pos m) (str tgt))) (take ?n b)"
    | "\<not> (?n > 0 \<and> \<not> eqFold (take ?n (drop (m_pos m) (str tgt))) (take ?n b))" "length tgt \<le> m_pos m + ?n"
    | "\<not> (?n > 0 \<and> \<not> eqFold (take ?n (drop (m_pos m) (str tgt))) (take ?n b))" "m_pos m + ?n < length tgt"
    by linarith
  then show thesis
  proof cases
    case 1
    show thesis by (rule fail) (unfold mhMatch_def prod.case Let_def if_P [OF 1], rule refl)
  next
    case 2
    have "mhMatch ok fail tgt (m, b) = ((m\<lparr>m_hdr := ok, m_pos := 0\<rparr>, drop ?n b), True)"
      unfolding mhMatch_def prod.case Let_def if_not_P [OF 2(1)] using 2(2) by simp
    then show thesis by (rule ok) (cases ?n, use assms in auto)
  next
    case 3
    then have n: "?n = length b" by (auto simp: min_def split: if_splits)
    show thesis
      by (rule more) (unfold mhMatch_def prod.case Let_def if_not_P [OF 3(1)], use 3(2) n in simp)
  qed
qed

definition head_ws :: "bytes \<Rightarrow> bool" where
  "head_ws b \<longleftrightarrow> b \<noteq> [] \<and> hd b \<in> set [0x20, 0x09, 0x0d, 0x0a]"

definition hdr_rank :: "hdr \<Rightarrow> nat" where
  "hdr_rank s =
     (case m_hdr (fst s) of
        MhdrIdle \<Rightarrow> 0 | MhdrCeCt \<Rightarrow> 11 | MhdrCe \<Rightarrow> 10 | MhdrCeWS \<Rightarrow> 9 | MhdrCt \<Rightarrow> 10 | MhdrCtWS \<Rightarrow> 9
      | MhdrQP \<Rightarrow> 1 | MhdrB64 \<Rightarrow> 1 | MhdrText \<Rightarrow> 8 | MhdrHTML \<Rightarrow> 7
      | MhdrCsetSkipParam \<Rightarrow> if head_ws (snd s) then 2 else 1
      | MhdrCsetSpanWS \<Rightarrow> if head_ws (snd s) then 1 else 6
      | MhdrCset \<Rightarrow> 5 | MhdrCsetISO8859 \<Rightarrow> 2 | MhdrCsetISOX \<Rightarrow> 1 | MhdrMultipart \<Rightarrow> 8
      | MhdrBndSkipParam \<Rightarrow> if head_ws (snd s) then 2 else 1
      | MhdrBndSpanWS \<Rightarrow> if head_ws (snd s) then 1 else 6
      | MhdrBnd \<Rightarrow> 5 | MhdrBndValue \<Rightarrow> 1)"

definition hdr_less :: "hdr \<Rightarrow> hdr \<Rightarrow> bool" where
  "hdr_less s' s \<longleftrightarrow> length (snd s') < length (snd s) \<or> snd s' = snd s \<and> hdr_rank s' < hdr_rank s"

lemma spanWS_cases: "b \<noteq> [] \<Longrightarrow> (head_ws b \<and> length (spanWS b) < length b) \<or> (\<not> head_ws b \<and> spanWS b = b)"
proof (cases b)
  case (Cons c r)
  then show ?thesis
    using length_dropWhile_le [of "\<lambda>c. c \<in> set [0x20, 0x09, 0x0d, 0x0a]" r]
    by (auto simp: spanWS_def head_ws_def)
qed simp

lemma length_skipParam: "length (fst (skipParam b)) \<le> length b"
  by (induction b) auto

lemma skipParam_cases:
  assumes "b \<noteq> []"
  shows "(head_ws b \<and> skipParam b = (b, True)) \<or> (\<not> head_ws b \<and> length (fst (skipParam b)) < length b)"
proof (cases b)
  case (Cons c r)
  then show ?thesis using length_skipParam [of r] by (auto simp: head_ws_def)
qed (use assms in simp)

lemma hdr_bndvalue_length:
  "hdr_bndvalue m bnd bp = Some ((m', bnd', bp'), r) \<Longrightarrow> bp \<noteq> [] \<Longrightarrow> length bp' < length bp"
proof (induction m bnd bp arbitrary: m' bnd' bp' r rule: hdr_bndvalue.induct)
  case (2 m bnd ch bp)
  then show ?case
    by (cases "bp = []") (fastforce simp: Let_def less_Suc_eq split: if_splits option.splits)+
qed simp

lemmas hdr_less_defs = hdr_less_def hdr_rank_def

lemma hdr_te_less:
  assumes "hdr_te (m, bp) = (s', False)" "bp \<noteq> []" "m_hdr m \<in> {MhdrCeCt, MhdrCe, MhdrCeWS, MhdrQP, MhdrB64}"
  shows "hdr_less s' (m, bp)"
proof -
  consider "m_hdr m = MhdrCeCt" | "m_hdr m = MhdrCe" | "m_hdr m = MhdrCeWS" | "m_hdr m = MhdrQP" | "m_hdr m = MhdrB64"
    using assms(3) by blast
  then show ?thesis
  proof cases
    case 1
    then show ?thesis
      using assms(1,2) by (cases rule: mhMatch_cases [OF assms(2), of MhdrCtWS MhdrIdle "''Content-T''" m])
        (auto simp: hdr_te_def hdr_less_defs split: list.splits if_splits)
  next
    case 2
    then show ?thesis
      using assms(1,2) by (cases rule: mhMatch_cases [OF assms(2), of MhdrCeWS MhdrIdle "''ransfer-Encoding:''" m])
        (auto simp: hdr_te_def hdr_less_defs)
  next
    case 3
    then show ?thesis
      using assms(1) spanWS_cases [OF assms(2)]
      by (auto simp: hdr_te_def hdr_less_defs split: list.splits if_splits)
  next
    case 4
    then show ?thesis
      using assms(1,2) by (cases rule: mhMatch_cases [OF assms(2), of MhdrIdle MhdrIdle "''quoted-printable''" m])
        (auto simp: hdr_te_def hdr_less_defs)
  next
    case 5
    then show ?thesis
      using assms(1,2) by (cases rule: mhMatch_cases [OF assms(2), of MhdrIdle MhdrIdle "''base64''" m])
        (auto simp: hdr_te_def hdr_less_defs)
  qed
qed

lemma hdr_ct_less:
  assumes "hdr_ct inHdrs (m, bp) = (s', False)" "bp \<noteq> []" "m_hdr m \<in> {MhdrCt, MhdrCtWS, MhdrText, MhdrHTML}"
  shows "hdr_less s' (m, bp)"
proof -
  consider "m_hdr m = MhdrCt" | "m_hdr m = MhdrCtWS" | "m_hdr m = MhdrText" | "m_hdr m = MhdrHTML"
    using assms(3) by blast
  then show ?thesis
  proof cases
    case 1
    then show ?thesis
      using assms(1,2) by (cases rule: mhMatch_cases [OF assms(2), of MhdrCtWS MhdrIdle "''ype:''" m])
        (auto simp: hdr_ct_def hdr_less_defs)
  next
    case 2
    then show ?thesis
      using assms(1) spanWS_cases [OF assms(2)]
      by (auto simp: hdr_ct_def hdr_less_defs split: list.splits if_splits)
  next
    case 3
    then show ?thesis
      using assms(1,2) by (cases rule: mhMatch_cases [OF assms(2), of MhdrHTML MhdrIdle "''text''" m])
        (auto simp: hdr_ct_def hdr_less_defs)
  next
    case 4
    then show ?thesis
      using assms(1,2) by (cases rule: mhMatch_cases [OF assms(2), of MhdrCsetSkipParam MhdrCsetSkipParam "''/html''" m])
        (auto simp: hdr_ct_def hdr_less_defs)
  qed
qed

lemma hdr_cset_less:
  assumes "hdr_cset (m, bp) = (s', False)" "bp \<noteq> []"
    "m_hdr m \<in> {MhdrCsetSkipParam, MhdrCsetSpanWS, MhdrCset, MhdrCsetISO8859, MhdrCsetISOX}"
  shows "hdr_less s' (m, bp)"
proof -
  consider "m_hdr m = MhdrCsetSkipParam" | "m_hdr m = MhdrCsetSpanWS" | "m_hdr m = MhdrCset"
    | "m_hdr m = MhdrCsetISO8859" | "m_hdr m = MhdrCsetISOX" using assms(3) by blast
  then show ?thesis
  proof cases
    case 1
    then show ?thesis
      using assms(1) skipParam_cases [OF assms(2)]
      by (auto simp: hdr_cset_def hdr_less_defs split: prod.splits if_splits)
  next
    case 2
    then show ?thesis
      using assms spanWS_cases [OF assms(2)]
      by (auto simp: hdr_cset_def hdr_less_defs Let_def)
  next
    case 3
    then show ?thesis
      using assms(1,2) by (cases rule: mhMatch_cases [OF assms(2), of MhdrCsetISO8859 MhdrCsetSkipParam "''charset=''" m])
        (auto simp: hdr_cset_def hdr_less_defs)
  next
    case 4
    let ?b = "if m_pos m = 0 \<and> bp \<noteq> [] \<and> hd bp = 0x22 then tl bp else bp"
    have s': "s' = fst (mhMatch MhdrCsetISOX MhdrIdle ''iso-8859-'' (m, ?b))"
      using assms(1) 4 by (auto simp: hdr_cset_def Let_def)
    have b: "length ?b < length bp \<or> ?b = bp" using assms(2) by simp
    show ?thesis
    proof (cases "?b = []")
      case True
      then show ?thesis
        unfolding s' using assms(2) 4 by (auto simp: mhMatch_def hdr_less_defs Let_def)
    next
      case False
      then show ?thesis
        unfolding s' using b 4
        by (cases rule: mhMatch_cases [OF False, of MhdrCsetISOX MhdrIdle "''iso-8859-''" m])
          (auto simp: hdr_less_defs simp del: length_tl split: if_splits)
    qed
  next
    case 5
    then show ?thesis using assms(1) by (simp add: hdr_cset_def)
  qed
qed

lemma hdr_bnd_less:
  assumes "hdr_bnd inHdrs (m, bp) = Some (s', False)" "bp \<noteq> []"
    "m_hdr m \<in> {MhdrMultipart, MhdrBndSkipParam, MhdrBndSpanWS, MhdrBnd, MhdrBndValue}"
  shows "hdr_less s' (m, bp)"
proof -
  consider "m_hdr m = MhdrMultipart" | "m_hdr m = MhdrBndSkipParam" | "m_hdr m = MhdrBndSpanWS"
    | "m_hdr m = MhdrBnd" | "m_hdr m = MhdrBndValue" using assms(3) by blast
  then show ?thesis
  proof cases
    case 1
    then show ?thesis
      using assms(1,2) by (cases rule: mhMatch_cases [OF assms(2), of MhdrBndSkipParam MhdrIdle "''multipart''" "m\<lparr>m_hdr := MhdrText\<rparr>"])
        (auto simp: hdr_bnd_def hdr_less_defs)
  next
    case 2
    then show ?thesis
      using assms(1) skipParam_cases [OF assms(2)]
      by (auto simp: hdr_bnd_def hdr_less_defs split: prod.splits if_splits)
  next
    case 3
    then show ?thesis
      using assms spanWS_cases [OF assms(2)]
      by (auto simp: hdr_bnd_def hdr_less_defs Let_def)
  next
    case 4
    then show ?thesis
      using assms(1,2) by (cases rule: mhMatch_cases [OF assms(2), of MhdrBndValue MhdrBndSkipParam "''boundary=''" m])
        (auto simp: hdr_bnd_def hdr_less_defs bind_Some_iff Let_def split: if_splits)
  next
    case 5
    then show ?thesis
      using assms(1,2) by (auto simp: hdr_bnd_def hdr_less_def bind_Some_iff split: if_splits dest: hdr_bndvalue_length)
  qed
qed

lemma hdr_step_less:
  assumes "hdr_step inHdrs s = Some (s', False)" "snd s \<noteq> []"
  shows "hdr_less s' s"
proof -
  obtain m bp where s: "s = (m, bp)" by (cases s)
  show ?thesis
    using assms hdr_te_less [of m bp s'] hdr_ct_less [of inHdrs m bp s'] hdr_cset_less [of m bp s']
      hdr_bnd_less [of inHdrs m bp s']
    unfolding s hdr_step_def by (cases "m_hdr m") simp_all
qed

function hdr_loop :: "bool \<Rightarrow> hdr \<Rightarrow> mime option" where
  "hdr_loop inHdrs s =
     (if snd s = [] then Some (fst s)
      else case hdr_step inHdrs s of
             None \<Rightarrow> None
           | Some (s', ret) \<Rightarrow> if ret then Some (fst s') else hdr_loop inHdrs s')"
  by pat_completeness auto
termination
  by (relation "measures [\<lambda>(i, s). length (snd s), \<lambda>(i, s). hdr_rank s]")
    (auto dest!: hdr_step_less simp: hdr_less_def)

declare hdr_loop.simps [simp del]

section \<open>A field\<close>

text \<open>\<^verbatim>\<open>parseMimeHdr\<close>: at the start of a line a new field begins, and a blank line is reported.\<close>

definition parseMimeHdr :: "bytes \<Rightarrow> bool \<Rightarrow> mime \<Rightarrow> (mime \<times> bool) option" where
  "parseMimeHdr bp inHdrs m =
     (if m_bol m \<and> \<not> inHdrs then
        (case bp of
           [] \<Rightarrow> Some (m, False)
         | ch # r \<Rightarrow>
             let bp = (if ch = 0x0d then r else bp)
             in (case bp of
                   [] \<Rightarrow> Some (m, False)
                 | ch # _ \<Rightarrow>
                     if ch = 0x0a then Some (m, True)
                     else let m = (if ch \<noteq> 0x20 \<and> ch \<noteq> 0x09 then m\<lparr>m_hdr := MhdrCeCt, m_pos := 0\<rparr> else m);
                              m = m\<lparr>m_bol := False\<rparr>
                       in map_option (\<lambda>m. (m, False)) (hdr_loop inHdrs (m, bp))))
      else map_option (\<lambda>m. (m, False)) (hdr_loop inHdrs (m, bp)))"

definition ckMimeHdr :: "bytes \<Rightarrow> mime \<Rightarrow> mime option" where
  "ckMimeHdr hdr m = do {
     (m, _) \<leftarrow> parseMimeHdr hdr True (m\<lparr>m_hdr := MhdrCeCt, m_pos := 0\<rparr>);
     (m, _) \<leftarrow> (if m_hdr m \<noteq> MhdrIdle then parseMimeHdr [0x0a] True m else Some (m, False));
     Some (m\<lparr>m_mp := (if m_nest m \<noteq> 0 then MpPreamble else m_mp m), m_bol := True\<rparr>)
   }"

end
