(* ===== verification/Mime_Hdr_Props.thy ===== *)
theory Mime_Hdr_Props
  imports Mime_Hdr Fuz1_Props
begin

text \<open>
  The MIME header parser on hostile input: it always returns, boundaries stay inside their
  arrays and nesting inside \<^verbatim>\<open>mimeBnd\<close>; and what the two header fields it knows set.
\<close>

section \<open>Bounds\<close>

definition bnd_ok :: "ckBnd \<Rightarrow> bool" where
  "bnd_ok b \<longleftrightarrow> length (bn_bnd b) = 96 \<and> bn_len b < 94 \<and> (bn_cmp b = ckBndMiss \<or> bn_cmp b \<le> bn_len b + 2)"

definition in_bnd :: "mhdrSt \<Rightarrow> bool" where
  "in_bnd st \<longleftrightarrow> st \<in> {MhdrMultipart, MhdrBndSkipParam, MhdrBndSpanWS, MhdrBnd, MhdrBndValue}"

lemma in_bnd_simps [simp]:
  "\<not> in_bnd MhdrIdle" "\<not> in_bnd MhdrCeCt" "\<not> in_bnd MhdrCe" "\<not> in_bnd MhdrCeWS" "\<not> in_bnd MhdrCt"
  "\<not> in_bnd MhdrCtWS" "\<not> in_bnd MhdrQP" "\<not> in_bnd MhdrB64" "\<not> in_bnd MhdrText" "\<not> in_bnd MhdrHTML"
  "\<not> in_bnd MhdrCsetSkipParam" "\<not> in_bnd MhdrCsetSpanWS" "\<not> in_bnd MhdrCset"
  "\<not> in_bnd MhdrCsetISO8859" "\<not> in_bnd MhdrCsetISOX"
  by (simp_all add: in_bnd_def)

definition mime_ok :: "bool \<Rightarrow> mime \<Rightarrow> bool" where
  "mime_ok inHdrs m \<longleftrightarrow> length (m_bnd m) = 3 \<and> list_all bnd_ok (m_bnd m) \<and> m_nest m \<le> 3
     \<and> (inHdrs \<longrightarrow> m_nest m \<le> 1) \<and> (in_bnd (m_hdr m) \<longrightarrow> m_nest m < 3)
     \<and> (m_hdr m = MhdrBndValue \<longrightarrow> 2 \<le> m_pos m \<and> m_pos m < 94 \<and> (inHdrs \<longrightarrow> m_nest m = 0))"

lemma mime_ok_cong:
  "mime_ok i m \<Longrightarrow> m_bnd m' = m_bnd m \<Longrightarrow> m_nest m' = m_nest m \<Longrightarrow> m_hdr m' \<noteq> MhdrBndValue \<Longrightarrow>
   (in_bnd (m_hdr m') \<longrightarrow> in_bnd (m_hdr m)) \<Longrightarrow> mime_ok i m'"
  by (auto simp: mime_ok_def)

lemma mhMatch_keeps:
  "mhMatch ok fail tgt (m, b) = ((m', b'), r) \<Longrightarrow> m_bnd m' = m_bnd m \<and> m_nest m' = m_nest m
     \<and> (m_hdr m' = ok \<or> m_hdr m' = fail \<or> m_hdr m' = m_hdr m)"
  by (auto simp: mhMatch_def Let_def split: if_splits)

lemma fst_mhMatch:
  "fst (mhMatch ok fail tgt (m, b)) = (m', b') \<Longrightarrow> m_bnd m' = m_bnd m \<and> m_nest m' = m_nest m
     \<and> (m_hdr m' = ok \<or> m_hdr m' = fail \<or> m_hdr m' = m_hdr m)"
  by (cases "mhMatch ok fail tgt (m, b)") (auto dest: mhMatch_keeps)

lemma mhMatch_keeps_fst [simp]:
  "m_bnd (fst (fst (mhMatch ok fail tgt (m, b)))) = m_bnd m"
  "m_nest (fst (fst (mhMatch ok fail tgt (m, b)))) = m_nest m"
  by (cases "mhMatch ok fail tgt (m, b)", cases "fst (mhMatch ok fail tgt (m, b))", auto dest: mhMatch_keeps)+

lemma mhMatch_hdr_fst:
  "\<not> in_bnd ok \<Longrightarrow> \<not> in_bnd fail \<Longrightarrow> \<not> in_bnd (m_hdr m) \<Longrightarrow> \<not> in_bnd (m_hdr (fst (fst (mhMatch ok fail tgt (m, b)))))"
  by (cases "mhMatch ok fail tgt (m, b)", cases "fst (mhMatch ok fail tgt (m, b))") (auto dest: mhMatch_keeps)

lemma mhMatch_ok:
  assumes "mime_ok i m" "m_hdr m \<noteq> MhdrBndValue" "ok \<noteq> MhdrBndValue" "fail \<noteq> MhdrBndValue" "b \<noteq> []"
    "in_bnd ok \<longrightarrow> in_bnd (m_hdr m)" "in_bnd fail \<longrightarrow> in_bnd (m_hdr m)"
  shows "mime_ok i (fst (fst (mhMatch ok fail tgt (m, b))))"
  using assms by (cases rule: mhMatch_cases [OF assms(5), of ok fail tgt m]) (auto intro: mime_ok_cong [OF assms(1)])

lemma hdr_isox_ok: "mime_ok i m \<Longrightarrow> \<not> in_bnd (m_hdr m) \<Longrightarrow> mime_ok i (fst (hdr_isox m bp))"
proof (induction m bp rule: hdr_isox.induct)
  case (2 m ch bp)
  have "mime_ok i (m\<lparr>m_pos := p\<rparr>)" for p using "2.prems" by (auto simp: mime_ok_def in_bnd_def)
  with 2 show ?case
    by (auto simp: Let_def in_bnd_def intro: mime_ok_cong [OF "2.prems"(1)])
qed simp

lemma hdr_bndvalue_returns:
  assumes "length (bn_bnd b) = 96" "2 \<le> m_pos m" "m_pos m < 94" "m_hdr m = MhdrBndValue"
  shows "\<exists>m' b' bp' r. hdr_bndvalue m b bp = Some ((m', b', bp'), r) \<and> length (bn_bnd b') = 96
    \<and> bn_len b' = bn_len b \<and> bn_cmp b' = bn_cmp b \<and> m_bnd m' = m_bnd m \<and> m_nest m' = m_nest m
    \<and> (m_hdr m' = MhdrBndValue \<and> 2 \<le> m_pos m' \<and> m_pos m' < 94 \<or> m_hdr m' = MhdrIdle \<and> \<not> r)"
  using assms
proof (induction m b bp rule: hdr_bndvalue.induct)
  case (2 m b ch bp)
  have u: "upd (bn_bnd b) (m_pos m) ch = Some ((bn_bnd b)[m_pos m := ch])" using "2.prems" by simp
  consider "ch = 0x0a" | "ch \<noteq> 0x0a" "ch = 0x0d" | "ch \<noteq> 0x0a" "ch \<noteq> 0x0d" "(ch = 0x20 \<or> ch = 0x09 \<or> ch = 0x3b) \<and> \<not> m_quoted m"
    | "ch \<noteq> 0x0a" "ch \<noteq> 0x0d" "\<not> ((ch = 0x20 \<or> ch = 0x09 \<or> ch = 0x3b) \<and> \<not> m_quoted m)" "ch = 0x22"
    | "ch \<noteq> 0x0a" "ch \<noteq> 0x0d" "\<not> ((ch = 0x20 \<or> ch = 0x09 \<or> ch = 0x3b) \<and> \<not> m_quoted m)" "ch \<noteq> 0x22" by blast
  then show ?case
  proof cases
    case 5
    show ?thesis
    proof (cases "m_pos m + 1 \<ge> ckBndMax")
      case True
      with 5 u "2.prems" show ?thesis by (auto simp: Let_def)
    next
      case False
      then have "m_pos m + 1 < 94" by (simp add: ckBndMax_def)
      with "2.IH"(3) [OF 5 u refl refl] False "2.prems" 5 u show ?thesis by (auto simp: Let_def)
    qed
  qed (use "2.prems" "2.IH"(1,2) in auto)
qed auto

lemma bnd_at: "mime_ok i m \<Longrightarrow> m_nest m < 3 \<Longrightarrow> idx (m_bnd m) (m_nest m) = Some (m_bnd m ! m_nest m) \<and> bnd_ok (m_bnd m ! m_nest m)"
  by (auto simp: mime_ok_def list_all_length)

lemma bnd_put:
  assumes "length (m_bnd m) = 3" "list_all bnd_ok (m_bnd m)" "bnd_ok b"
  shows "length ((m_bnd m)[k := b]) = 3" "list_all bnd_ok ((m_bnd m)[k := b])"
  using assms set_update_subset_insert [of "m_bnd m" k b] by (auto simp: list_all_iff)

lemma hdr_bnd_returns:
  assumes "mime_ok i m" "bp \<noteq> []" "in_bnd (m_hdr m)"
  shows "\<exists>m' bp' r. hdr_bnd i (m, bp) = Some ((m', bp'), r) \<and> mime_ok i m'"
proof -
  have n: "m_nest m < 3" using assms by (simp add: mime_ok_def)
  note at = bnd_at [OF assms(1) n]
  consider "m_hdr m = MhdrMultipart" | "m_hdr m = MhdrBndSkipParam" | "m_hdr m = MhdrBndSpanWS"
    | "m_hdr m = MhdrBnd" | "m_hdr m = MhdrBndValue" using assms(3) by (auto simp: in_bnd_def)
  then show ?thesis
  proof cases
    case 1
    then show ?thesis
      using assms(1,2) by (cases rule: mhMatch_cases [OF assms(2), of MhdrBndSkipParam MhdrIdle "''multipart''" "m\<lparr>m_hdr := MhdrText\<rparr>"])
        (auto simp: hdr_bnd_def mime_ok_def in_bnd_def)
  next
    case 2
    then show ?thesis
      using assms(1) by (auto simp: hdr_bnd_def mime_ok_def in_bnd_def split: prod.split)
  next
    case 3
    then show ?thesis
      using assms(1) by (auto simp: hdr_bnd_def mime_ok_def in_bnd_def Let_def)
  next
    case 4
    show ?thesis
    proof (cases rule: mhMatch_cases [OF assms(2), of MhdrBndValue MhdrBndSkipParam "''boundary=''" m])
      case (1 b')
      define m1 where "m1 = (if i then m\<lparr>m_hdr := MhdrBndValue, m_pos := 0\<rparr>\<lparr>m_nest := 0, m_matches := 1\<rparr> else m\<lparr>m_hdr := MhdrBndValue, m_pos := 0\<rparr>)"
      have m1: "length (m_bnd m1) = 3" "list_all bnd_ok (m_bnd m1)" "m_nest m1 < 3" "i \<longrightarrow> m_nest m1 = 0" "m_hdr m1 = MhdrBndValue"
        using assms(1) n by (auto simp: m1_def mime_ok_def)
      let ?b = "m_bnd m1 ! m_nest m1"
      have b: "idx (m_bnd m1) (m_nest m1) = Some ?b" "length (bn_bnd ?b) = 96" "bnd_ok ?b"
        using m1(1,2,3) by (auto simp: list_all_length bnd_ok_def)
      have "bnd_ok (?b\<lparr>bn_bnd := (bn_bnd ?b)[0 := 0x2d, 1 := 0x2d]\<rparr>)"
        using b(3) by (simp add: bnd_ok_def)
      with bnd_put [OF m1(1,2) this] m1 b 4 1 show ?thesis
        by (auto simp: hdr_bnd_def m1_def [symmetric] Let_def mime_ok_def in_bnd_def)
    next
      case 2
      with 4 assms(1) show ?thesis by (auto simp: hdr_bnd_def mime_ok_def in_bnd_def)
    next
      case 3
      with 4 assms(1) show ?thesis by (auto simp: hdr_bnd_def mime_ok_def in_bnd_def)
    qed
  next
    case 5
    let ?b = "m_bnd m ! m_nest m"
    have p: "2 \<le> m_pos m" "m_pos m < 94" "length (bn_bnd ?b) = 96" "i \<longrightarrow> m_nest m = 0"
      using assms(1) 5 at by (auto simp: mime_ok_def bnd_ok_def)
    obtain m' b' bp' r where v: "hdr_bndvalue m ?b bp = Some ((m', b', bp'), r)" "length (bn_bnd b') = 96"
      "bn_len b' = bn_len ?b" "bn_cmp b' = bn_cmp ?b" "m_bnd m' = m_bnd m" "m_nest m' = m_nest m"
      "m_hdr m' = MhdrBndValue \<and> 2 \<le> m_pos m' \<and> m_pos m' < 94 \<or> m_hdr m' = MhdrIdle \<and> \<not> r"
      using hdr_bndvalue_returns [OF p(3,1,2) 5] by blast
    have ok: "bnd_ok b'" "m_pos m' < 94 \<longrightarrow> bnd_ok (b'\<lparr>bn_len := m_pos m', bn_cmp := 0\<rparr>)"
      using v(2,3,4) at by (auto simp: bnd_ok_def)
    show ?thesis
      using v 5 at p(4) n assms(1) bnd_put [of m "b'"] bnd_put [of m "b'\<lparr>bn_len := m_pos m', bn_cmp := 0\<rparr>"] ok
      by (cases r) (auto simp: hdr_bnd_def mime_ok_def in_bnd_def)
  qed
qed

lemma split_state: "P (fst (fst x)) \<Longrightarrow> \<exists>m b r. x = ((m, b), r) \<and> P m"
  by (cases x; cases "fst x") auto

lemma hdr_step_returns:
  assumes "mime_ok i m" "bp \<noteq> []"
  shows "\<exists>m' bp' r. hdr_step i (m, bp) = Some ((m', bp'), r) \<and> mime_ok i m'"
proof (cases "in_bnd (m_hdr m)")
  case True
  with hdr_bnd_returns [OF assms True] show ?thesis by (auto simp: hdr_step_def in_bnd_def)
next
  case False
  define Q where "Q = mime_ok i"
  have upd: "Q m'" if "m_bnd m' = m_bnd m" "m_nest m' = m_nest m" "\<not> in_bnd (m_hdr m')" for m'
    using mime_ok_cong [OF assms(1) that(1,2)] that(3) by (auto simp: in_bnd_def Q_def)
  have upd': "Q (m\<lparr>m_hdr := MhdrMultipart\<rparr>)" if "i \<or> m_nest m < mimeBndNum"
    using assms(1) that by (auto simp: mime_ok_def in_bnd_def mimeBndNum_def Q_def)
  have iso: "Q (fst (hdr_isox m b))" if "m_hdr m = MhdrCsetISOX" for b
    unfolding Q_def by (rule hdr_isox_ok) (use assms(1) that in \<open>auto simp: in_bnd_def\<close>)
  have te: "Q (fst (fst (hdr_te (m, bp))))"
    if "m_hdr m \<in> {MhdrCeCt, MhdrCe, MhdrCeWS, MhdrQP, MhdrB64}"
    using that by (cases "m_hdr m")
      (auto simp: hdr_te_def mhMatch_hdr_fst intro!: upd split: list.split prod.split dest!: mhMatch_keeps)
  have ct: "Q (fst (fst (hdr_ct i (m, bp))))"
    if "m_hdr m \<in> {MhdrCt, MhdrCtWS, MhdrText, MhdrHTML}"
    using that by (cases "m_hdr m")
      (auto simp: hdr_ct_def mhMatch_hdr_fst intro!: upd upd' split: list.split prod.split dest!: mhMatch_keeps)
  have cs: "Q (fst (fst (hdr_cset (m, bp))))"
    if st: "m_hdr m \<in> {MhdrCsetSkipParam, MhdrCsetSpanWS, MhdrCset, MhdrCsetISO8859, MhdrCsetISOX}"
    using st by (cases "m_hdr m")
      (auto simp: hdr_cset_def mhMatch_hdr_fst Let_def iso intro!: upd split: prod.split dest!: mhMatch_keeps)
  show ?thesis
    using False split_state [of Q, OF te] split_state [of Q, OF ct] split_state [of Q, OF cs] assms(1)
    unfolding hdr_step_def Q_def [symmetric]
    by (cases "m_hdr m") (auto simp: in_bnd_def Q_def)
qed

lemma hdr_loop_returns: "mime_ok i (fst s) \<Longrightarrow> \<exists>m'. hdr_loop i s = Some m' \<and> mime_ok i m'"
proof (induction i s rule: hdr_loop.induct)
  case (1 i s)
  show ?case
  proof (cases "snd s = []")
    case False
    obtain m' bp' r where st: "hdr_step i s = Some ((m', bp'), r)" "mime_ok i m'"
      using hdr_step_returns [OF _ False, of i "fst s"] "1.prems" by auto
    show ?thesis
      using "1.IH" [OF False st(1) refl] st False by (subst hdr_loop.simps) (cases r; simp)
  qed (use "1.prems" in \<open>simp add: hdr_loop.simps\<close>)
qed

lemma parseMimeHdr_returns:
  assumes "mime_ok i m"
  shows "\<exists>m' r. parseMimeHdr bp i m = Some (m', r) \<and> mime_ok i m'"
proof -
  have l: "\<exists>m'. hdr_loop i (m1, b) = Some m' \<and> mime_ok i m'" if "mime_ok i m1" for m1 b
    using hdr_loop_returns [of i "(m1, b)"] that by simp
  have "mime_ok i (m\<lparr>m_hdr := MhdrCeCt, m_pos := 0, m_bol := False\<rparr>)" "mime_ok i (m\<lparr>m_bol := False\<rparr>)"
    using assms by (auto simp: mime_ok_def in_bnd_def)
  from l [OF this(1)] l [OF this(2)] l [OF assms] assms show ?thesis
    by (fastforce simp: parseMimeHdr_def Let_def split: list.split)
qed

lemma ckMimeHdr_returns:
  assumes "mime_ok True m"
  shows "\<exists>m'. ckMimeHdr hdr m = Some m' \<and> mime_ok True m'"
proof -
  have "mime_ok True (m\<lparr>m_hdr := MhdrCeCt, m_pos := 0\<rparr>)" using assms by (auto simp: mime_ok_def in_bnd_def)
  from parseMimeHdr_returns [OF this, of hdr] obtain m1 r1
    where m1: "parseMimeHdr hdr True (m\<lparr>m_hdr := MhdrCeCt, m_pos := 0\<rparr>) = Some (m1, r1)" "mime_ok True m1" by blast
  obtain m2 r2 where m2: "(if m_hdr m1 \<noteq> MhdrIdle then parseMimeHdr [0x0a] True m1 else Some (m1, False)) = Some (m2, r2)"
    "mime_ok True m2"
    using parseMimeHdr_returns [OF m1(2), of "[0x0a]"] m1(2) by (cases "m_hdr m1 = MhdrIdle") auto
  have "mime_ok True (m2\<lparr>m_mp := a, m_bol := True\<rparr>)" for a using m2(2) by (simp add: mime_ok_def)
  with m1(1) m2(1) show ?thesis by (simp add: ckMimeHdr_def)
qed

lemma newMime_ok: "mime_ok True newMime"
  by (simp add: mime_ok_def newMime_def decodersInit_def zeroBnd_def bnd_ok_def in_bnd_def list_all_iff)

text \<open>
  C28. Whatever header fields a message has, noticing them never panics and leaves a state in
  which every boundary lies in its 96-byte array with a length below 94, at most one multipart
  level is open, and the header parser's position is inside the boundary it is filling.
\<close>

theorem header_fields_safe: "\<exists>m. fold_opt ckMimeHdr hdrs newMime = Some m \<and> mime_ok True m"
  by (rule fold_opt_inv [where I = "mime_ok True"]) (use newMime_ok ckMimeHdr_returns in auto)

section \<open>What a field sets\<close>

definition ieq :: "bytes \<Rightarrow> string \<Rightarrow> bool" where
  "ieq b s \<longleftrightarrow> map toLower b = map toLower (str s)"

lemma ieq_length: "ieq b s \<Longrightarrow> length b = length s"
  unfolding ieq_def by (drule map_eq_imp_length_eq) simp

lemma mhMatch_whole:
  assumes "m_pos m = 0" "length tgt \<le> length b" "tgt \<noteq> []"
  shows "mhMatch ok fail tgt (m, b) =
    (if ieq (take (length tgt) b) tgt then ((m\<lparr>m_hdr := ok, m_pos := 0\<rparr>, drop (length tgt) b), True)
     else ((m\<lparr>m_hdr := fail\<rparr>, b), False))"
  using assms by (simp add: mhMatch_def eqFold_def ieq_def Let_def min_def eq_commute [of "map toLower (str tgt)"])

lemma key_lengths: "length ''Content-T'' = 9" "length ''ransfer-Encoding:'' = 17"
  by simp_all

lemma hdr_loop_idle: "m_hdr m = MhdrIdle \<Longrightarrow> hdr_loop i (m, b) = Some m"
  by (simp add: hdr_loop.simps hdr_step_def)

definition field_done :: "mime \<Rightarrow> mime" where
  "field_done m = m\<lparr>m_mp := (if m_nest m \<noteq> 0 then MpPreamble else m_mp m), m_bol := True\<rparr>"

lemma ckMimeHdr_idle:
  assumes "hdr_loop True (m\<lparr>m_hdr := MhdrCeCt, m_pos := 0\<rparr>, hdr) = Some m'" "m_hdr m' = MhdrIdle"
  shows "ckMimeHdr hdr m = Some (field_done m')"
  using assms by (simp add: ckMimeHdr_def parseMimeHdr_def field_done_def)

text \<open>
  A header field of at least nine bytes whose name does not start with \<^verbatim>\<open>Content-T\<close>, in
  upper or lower case, leaves the MIME state alone: encoding, type, charset and boundaries
  stay as they were, and only the parser is back at the start of a line.
\<close>

theorem other_fields_ignored:
  assumes "9 \<le> length hdr" "map toLower (take 9 hdr) \<noteq> map toLower (str ''Content-T'')"
  shows "ckMimeHdr hdr m = Some (field_done (m\<lparr>m_hdr := MhdrIdle, m_pos := 0\<rparr>))"
proof (rule ckMimeHdr_idle)
  let ?m = "m\<lparr>m_hdr := MhdrCeCt, m_pos := 0\<rparr>"
  have "mhMatch MhdrCtWS MhdrIdle ''Content-T'' (?m, hdr) = ((?m\<lparr>m_hdr := MhdrIdle\<rparr>, hdr), False)"
    using mhMatch_whole [of ?m "''Content-T''" hdr, unfolded key_lengths] assms by (simp add: ieq_def)
  then have "hdr_step True (?m, hdr) = Some ((?m\<lparr>m_hdr := MhdrIdle\<rparr>, hdr), False)"
    by (simp add: hdr_step_def hdr_te_def)
  then show "hdr_loop True (?m, hdr) = Some (m\<lparr>m_hdr := MhdrIdle, m_pos := 0\<rparr>)"
    using assms(1) by (subst hdr_loop.simps) (auto simp: hdr_loop_idle)
qed simp

theorem other_fields_ignored_witness:
  "ckMimeHdr (str ''Subject: base64'') newMime = Some (field_done (newMime\<lparr>m_hdr := MhdrIdle, m_pos := 0\<rparr>))"
  by (rule other_fields_ignored) (simp_all add: str_def toLower_def)

text \<open>A transfer encoding the parser knows: its keyword and its first letter.\<close>

definition known_ce :: "mimeCe \<Rightarrow> string \<Rightarrow> bool" where
  "known_ce ce v \<longleftrightarrow> (ce = CeB64 \<and> v = ''base64'') \<or> (ce = CeQP \<and> v = ''quoted-printable'')"

lemma is_ch_lower:
  "toLower c = 0x72 \<Longrightarrow> is_ch ''rR'' c" "toLower c = 0x62 \<Longrightarrow> is_ch ''bB'' c \<and> \<not> c \<in> set [0x20, 0x09, 0x0d, 0x0a]"
  "toLower c = 0x71 \<Longrightarrow> is_ch ''qQ'' c \<and> \<not> is_ch ''bB'' c \<and> \<not> c \<in> set [0x20, 0x09, 0x0d, 0x0a]"
proof -
  have "\<forall>c \<in> set (map of_nat [0..<256]). (toLower c = (0x72 :: byte) \<longrightarrow> is_ch ''rR'' c)
      \<and> (toLower c = 0x62 \<longrightarrow> is_ch ''bB'' c \<and> \<not> c \<in> set [0x20, 0x09, 0x0d, 0x0a])
      \<and> (toLower c = 0x71 \<longrightarrow> is_ch ''qQ'' c \<and> \<not> is_ch ''bB'' c \<and> \<not> c \<in> set [0x20, 0x09, 0x0d, 0x0a])"
    by code_simp
  then show "toLower c = 0x72 \<Longrightarrow> is_ch ''rR'' c" "toLower c = 0x62 \<Longrightarrow> is_ch ''bB'' c \<and> \<not> c \<in> set [0x20, 0x09, 0x0d, 0x0a]"
    "toLower c = 0x71 \<Longrightarrow> is_ch ''qQ'' c \<and> \<not> is_ch ''bB'' c \<and> \<not> c \<in> set [0x20, 0x09, 0x0d, 0x0a]"
    using all_bytes [of c] by blast+
qed

lemma spanWS_append:
  "\<forall>c \<in> set ws. c \<in> set [0x20, 0x09, 0x0d, 0x0a] \<Longrightarrow> \<not> c \<in> set [0x20, 0x09, 0x0d, 0x0a] \<Longrightarrow> spanWS (ws @ c # r) = c # r"
  by (induction ws) (auto simp: spanWS_def)

lemma hdr_loop_step: "b \<noteq> [] \<Longrightarrow> hdr_step i (m, b) = Some (s', False) \<Longrightarrow> hdr_loop i (m, b) = hdr_loop i s'"
  by (subst hdr_loop.simps) simp

text \<open>
  A Content-Transfer-Encoding field is understood in any mixture of cases and with any
  white space before the value: \<^verbatim>\<open>base64\<close> and \<^verbatim>\<open>quoted-printable\<close> set the decoder, whatever
  follows them, and nothing else of the MIME state.
\<close>

theorem transfer_encoding_field:
  assumes "ieq name ''Content-Transfer-Encoding:''" "\<forall>c \<in> set ws. c \<in> set [0x20, 0x09, 0x0d, 0x0a]"
    "known_ce ce kw" "ieq val kw"
  shows "ckMimeHdr (name @ ws @ val @ rest) m
    = Some (field_done (m\<lparr>m_hdr := MhdrIdle, m_pos := 0, m_ce := ce\<rparr>))"
proof (rule ckMimeHdr_idle)
  let ?m = "m\<lparr>m_hdr := MhdrCeCt, m_pos := 0\<rparr>"
  let ?b = "name @ ws @ val @ rest"
  have ln: "length name = 26" using ieq_length [OF assms(1)] by simp
  have n1: "ieq (take 9 ?b) ''Content-T''" "ieq (take 17 (drop 9 ?b)) ''ransfer-Encoding:''" "drop 9 ?b \<noteq> []"
  proof -
    have "map toLower (take 9 name) = take 9 (map toLower (str ''Content-Transfer-Encoding:''))"
      "map toLower (take 17 (drop 9 name)) = take 17 (drop 9 (map toLower (str ''Content-Transfer-Encoding:'')))"
      using assms(1) by (simp_all add: ieq_def take_map [symmetric] drop_map [symmetric])
    then show "ieq (take 9 ?b) ''Content-T''" "ieq (take 17 (drop 9 ?b)) ''ransfer-Encoding:''" "drop 9 ?b \<noteq> []"
      using ln by (simp_all add: ieq_def) (simp_all add: str_def)
  qed
  obtain c r where c: "drop 9 ?b = c # r" using n1(3) by (cases "drop 9 ?b") auto
  have "toLower c = 0x72"
    using arg_cong [OF n1(2) [unfolded ieq_def c], of hd] by (simp add: str_def toLower_def)
  then have "is_ch ''rR'' c" by (rule is_ch_lower)
  then have s1: "hdr_step True (?m, ?b) = Some ((m\<lparr>m_hdr := MhdrCe, m_pos := 0\<rparr>, drop 9 ?b), False)"
    using mhMatch_whole [of ?m "''Content-T''" ?b MhdrCtWS MhdrIdle, unfolded key_lengths] n1(1) ln c by (simp add: hdr_step_def hdr_te_def)
  have s2: "hdr_step True (m\<lparr>m_hdr := MhdrCe, m_pos := 0\<rparr>, drop 9 ?b)
      = Some ((m\<lparr>m_hdr := MhdrCeWS, m_pos := 0\<rparr>, ws @ val @ rest), False)"
    using mhMatch_whole [of "m\<lparr>m_hdr := MhdrCe, m_pos := 0\<rparr>" "''ransfer-Encoding:''" "drop 9 ?b" MhdrCeWS MhdrIdle, unfolded key_lengths] n1(2) ln
    by (simp add: hdr_step_def hdr_te_def)
  define st where "st = (if ce = CeB64 then MhdrB64 else MhdrQP)"
  obtain d v where d: "val = d # v" using assms(3,4) ieq_length [OF assms(4)] by (cases val) (auto simp: known_ce_def)
  have dv: "toLower d = (if ce = CeB64 then 0x62 else 0x71)"
    using assms(3) arg_cong [OF assms(4) [unfolded ieq_def d], of hd]
    by (auto simp: known_ce_def str_def) (simp_all add: toLower_def)
  have dw: "\<not> d \<in> set [0x20, 0x09, 0x0d, 0x0a]" using dv is_ch_lower(2,3) [of d] by (auto split: if_splits)
  have s3: "hdr_step True (m\<lparr>m_hdr := MhdrCeWS, m_pos := 0\<rparr>, ws @ val @ rest)
      = Some ((m\<lparr>m_hdr := st, m_pos := 0\<rparr>, val @ rest), False)"
    using spanWS_append [OF assms(2) dw, of "v @ rest"] d dv is_ch_lower(2,3) [of d]
    by (auto simp: hdr_step_def hdr_te_def st_def split: if_splits)
  have lv: "length val = length kw" "kw \<noteq> []" using ieq_length [OF assms(4)] assms(3) by (auto simp: known_ce_def)
  have "mhMatch MhdrIdle MhdrIdle kw (m\<lparr>m_hdr := st, m_pos := 0\<rparr>, val @ rest)
      = ((m\<lparr>m_hdr := MhdrIdle, m_pos := 0\<rparr>, rest), True)"
    using mhMatch_whole [of "m\<lparr>m_hdr := st, m_pos := 0\<rparr>" kw "val @ rest" MhdrIdle MhdrIdle] lv assms(4) by simp
  then have s4: "hdr_step True (m\<lparr>m_hdr := st, m_pos := 0\<rparr>, val @ rest)
      = Some ((m\<lparr>m_hdr := MhdrIdle, m_pos := 0, m_ce := ce\<rparr>, rest), False)"
    using assms(3) by (auto simp: hdr_step_def hdr_te_def st_def known_ce_def)
  have "ws @ val @ rest \<noteq> []" "val @ rest \<noteq> []" "?b \<noteq> []" using d by simp_all
  then show "hdr_loop True (?m, ?b) = Some (m\<lparr>m_hdr := MhdrIdle, m_pos := 0, m_ce := ce\<rparr>)"
    using hdr_loop_step [OF _ s1] hdr_loop_step [OF n1(3) s2] hdr_loop_step [OF _ s3] hdr_loop_step [OF _ s4]
    by (simp add: hdr_loop_idle)
qed simp

theorem transfer_encoding_field_witness:
  "ckMimeHdr (str ''content-TRANSFER-encoding:'' @ str '' '' @ str ''Base64'' @ [0x0a]) newMime
     = Some (field_done (newMime\<lparr>m_hdr := MhdrIdle, m_pos := 0, m_ce := CeB64\<rparr>))"
  by (rule transfer_encoding_field [where kw = "''base64''"])
    (simp_all add: ieq_def str_def toLower_def known_ce_def)

end
