(* ===== verification/Mime_Decode.thy ===== *)
theory Mime_Decode
  imports Mime_Hdr_Props Fuz2_Props
begin

text \<open>
  The transfer decoders of \<^verbatim>\<open>dcc/mime.go\<close> (\<^verbatim>\<open>qpDecode\<close>, \<^verbatim>\<open>b64Decode\<close>) and \<^verbatim>\<open>decodeSum\<close>, which
  decodes the body a buffer at a time and feeds each piece to the three checksummers.  The
  output buffer is the list of the bytes written so far, its capacity \<open>cap\<close> is checked at every
  write.  A decoder returns its new state, the bytes written and the input it has not read
  (Go returns the count of the bytes read).

  \<open>decodeSum_with\<close> takes the Fuz1 operation as an argument, because Fuz1 is the one checksummer
  that can panic; \<open>decodeSum\<close> is its instance for \<open>fuz1\<close>.
\<close>

section \<open>Quoted-printable\<close>

definition put :: "nat \<Rightarrow> bytes \<Rightarrow> bytes \<Rightarrow> bytes option" where
  "put cap out e = (if length out + length e \<le> cap then Some (out @ e) else None)"

lemma put_eq_Some: "put cap out e = Some o' \<longleftrightarrow> length out + length e \<le> cap \<and> o' = out @ e"
  by (auto simp: put_def)

definition qp_hex :: "byte \<Rightarrow> byte option" where
  "qp_hex c =
     (if 0x30 \<le> c \<and> c \<le> 0x39 then Some (c - 0x30)
      else if 0x61 \<le> c \<and> c \<le> 0x66 then Some (c - (0x61 - 10))
      else if 0x41 \<le> c \<and> c \<le> 0x46 then Some (c - (0x41 - 10))
      else None)"

text \<open>One iteration: the new state, the byte written if any, and whether the input byte was read.\<close>

definition qp_step :: "byte \<Rightarrow> qpState \<Rightarrow> (qpState \<times> bytes) \<times> bool" where
  "qp_step c q =
     (case qp_state q of
        QpIdle \<Rightarrow> if c \<noteq> 0x3d then ((q, [c]), True) else ((q\<lparr>qp_state := QpEq\<rparr>, []), True)
      | QpEq \<Rightarrow>
          (let q = q\<lparr>qp_x := c\<rparr>
           in if c = 0x0d then ((q\<lparr>qp_state := Qp1\<rparr>, []), True)
              else if c = 0x0a then ((q\<lparr>qp_state := QpIdle\<rparr>, []), True)
              else (case qp_hex c of
                      Some n \<Rightarrow> ((q\<lparr>qp_n := n, qp_state := Qp1\<rparr>, []), True)
                    | None \<Rightarrow> ((q\<lparr>qp_state := QpFail1\<rparr>, [0x3d]), True)))
      | Qp1 \<Rightarrow>
          (let q = q\<lparr>qp_y := c\<rparr>
           in if qp_x q = 0x0d then
                (if c = 0x0a then ((q\<lparr>qp_state := QpIdle\<rparr>, []), True)
                 else ((q\<lparr>qp_state := QpFail2\<rparr>, [0x3d]), True))
              else (case qp_hex c of
                      Some v \<Rightarrow> ((q\<lparr>qp_state := QpIdle\<rparr>, [push_bit 4 (qp_n q) OR v]), True)
                    | None \<Rightarrow> ((q\<lparr>qp_state := QpFail2\<rparr>, [0x3d]), True)))
      | QpFail1 \<Rightarrow> ((q\<lparr>qp_state := QpIdle\<rparr>, [qp_x q]), False)
      | QpFail2 \<Rightarrow> ((q\<lparr>qp_state := QpFail3\<rparr>, [qp_x q]), False)
      | QpFail3 \<Rightarrow> ((q\<lparr>qp_state := QpIdle\<rparr>, [qp_y q]), False))"

definition qp_debt :: "qpState \<Rightarrow> nat" where
  "qp_debt q = (case qp_state q of QpFail1 \<Rightarrow> 1 | QpFail2 \<Rightarrow> 2 | QpFail3 \<Rightarrow> 1 | _ \<Rightarrow> 0)"

lemma qp_step_debt: "qp_step c q = ((q', e), False) \<Longrightarrow> qp_debt q' < qp_debt q"
  by (auto simp: qp_step_def qp_debt_def Let_def split: qpSt.splits if_splits option.splits)

text \<open>The same run without a buffer: what the input means from a state.\<close>

function qp_run :: "qpState \<Rightarrow> bytes \<Rightarrow> qpState \<times> bytes" where
  "qp_run q [] = (q, [])"
| "qp_run q (c # r) =
     (case qp_step c q of ((q', e), consumed) \<Rightarrow>
        (case qp_run q' (if consumed then r else c # r) of (q2, d) \<Rightarrow> (q2, e @ d)))"
  by pat_completeness auto
termination
  by (relation "measures [\<lambda>(q, xs). length xs, \<lambda>(q, xs). qp_debt q]")
    (auto dest: qp_step_debt [OF sym] split: if_splits)

function qp_loop :: "nat \<Rightarrow> qpState \<Rightarrow> bytes \<Rightarrow> bytes \<Rightarrow> (qpState \<times> bytes \<times> bytes) option" where
  "qp_loop cap q [] out = Some (q, out, [])"
| "qp_loop cap q (c # r) out =
     (case qp_step c q of ((q', e), consumed) \<Rightarrow>
        let r' = (if consumed then r else c # r)
        in if e = [] then qp_loop cap q' r' out
           else (case put cap out e of
                   None \<Rightarrow> None
                 | Some out' \<Rightarrow> if length out' \<ge> cap then Some (q', out', r') else qp_loop cap q' r' out'))"
  by pat_completeness auto
termination
  by (relation "measures [\<lambda>(cap, q, xs, out). length xs, \<lambda>(cap, q, xs, out). qp_debt q]")
    (auto dest: qp_step_debt [OF sym] split: if_splits)

declare qp_run.simps(2) [simp del] qp_loop.simps(2) [simp del]

definition qpDecode :: "nat \<Rightarrow> qpState \<Rightarrow> bytes \<Rightarrow> (qpState \<times> bytes \<times> bytes) option" where
  "qpDecode cap q inp = (if cap = 0 then Some (q, [], inp) else qp_loop cap q inp [])"

section \<open>Base64\<close>

definition base64Decode :: bytes where
  "base64Decode =
    [0x40, 0x40, 0x40, 0x40, 0x40, 0x40, 0x40, 0x40, 0x40, 0x40, 0x40, 0x40, 0x40, 0x40, 0x40, 0x40,
     0x40, 0x40, 0x40, 0x40, 0x40, 0x40, 0x40, 0x40, 0x40, 0x40, 0x40, 0x40, 0x40, 0x40, 0x40, 0x40,
     0x40, 0x40, 0x40, 0x40, 0x40, 0x40, 0x40, 0x40, 0x40, 0x40, 0x40, 62, 0x40, 0x40, 0x40, 63,
     52, 53, 54, 55, 56, 57, 58, 59, 60, 61, 0x40, 0x40, 0x40, 0x41, 0x40, 0x40,
     0x40, 0, 1, 2, 3, 4, 5, 6, 7, 8, 9, 10, 11, 12, 13, 14,
     15, 16, 17, 18, 19, 20, 21, 22, 23, 24, 25, 0x40, 0x40, 0x40, 0x40, 0x40,
     0x40, 26, 27, 28, 29, 30, 31, 32, 33, 34, 35, 36, 37, 38, 39, 40,
     41, 42, 43, 44, 45, 46, 47, 48, 49, 50, 51, 0x40, 0x40, 0x40, 0x40, 0x40]"

definition b64Bad :: byte where "b64Bad = 0x40"
definition b64Eq :: byte where "b64Eq = 0x41"

text \<open>The bytes a padding sign completes, and one more sextet.\<close>

definition b64_eq :: "b64State \<Rightarrow> bytes" where
  "b64_eq q =
     (if b64_cnt q = 2 then [ucast (drop_bit 4 (b64_quantum q))]
      else if b64_cnt q = 3 then [ucast (drop_bit 10 (b64_quantum q)), ucast (drop_bit 2 (b64_quantum q))]
      else [])"

definition b64_add :: "byte \<Rightarrow> b64State \<Rightarrow> b64State \<times> bytes" where
  "b64_add v q =
     (let q = q\<lparr>b64_quantum := push_bit 6 (b64_quantum q) OR ucast v, b64_cnt := b64_cnt q + 1\<rparr>
      in if b64_cnt q \<ge> 4
         then (q\<lparr>b64_cnt := 0\<rparr>,
               [ucast (drop_bit 16 (b64_quantum q)), ucast (drop_bit 8 (b64_quantum q)), ucast (b64_quantum q)])
         else (q, []))"

text \<open>The value of an input byte, if it is one the decoder reads.\<close>

definition b64_value :: "byte \<Rightarrow> byte option" where
  "b64_value c =
     (if unat c \<ge> 128 then None
      else let v = base64Decode ! unat c in if v = b64Bad then None else Some v)"

definition b64_read :: "nat \<Rightarrow> byte \<Rightarrow> b64State \<Rightarrow> bytes \<Rightarrow> ((b64State \<times> bytes) \<times> bool) option" where
  "b64_read cap v q out = do {
     ((q, out), stop) \<leftarrow>
       (if v = b64Eq then do {
          out \<leftarrow> put cap out (b64_eq q);
          Some ((q\<lparr>b64_cnt := 0\<rparr>, out), length out \<ge> cap - 3)
        }
        else Some ((q, out), False));
     if stop then Some ((q, out), True)
     else case b64_add v q of (q, e) \<Rightarrow>
       if e = [] then Some ((q, out), False)
       else do {
         out \<leftarrow> put cap out e;
         Some ((q, out), length out \<ge> cap - 3)
       }
   }"

fun b64_loop :: "nat \<Rightarrow> b64State \<Rightarrow> bytes \<Rightarrow> bytes \<Rightarrow> (b64State \<times> bytes \<times> bytes) option" where
  "b64_loop cap q [] out = Some (q, out, [])"
| "b64_loop cap q (c # r) out =
     (case b64_value c of
        None \<Rightarrow> b64_loop cap q r out
      | Some v \<Rightarrow>
          (case b64_read cap v q out of
             None \<Rightarrow> None
           | Some ((q', out'), stop) \<Rightarrow> if stop then Some (q', out', r) else b64_loop cap q' r out'))"

definition b64Decode :: "nat \<Rightarrow> b64State \<Rightarrow> bytes \<Rightarrow> (b64State \<times> bytes \<times> bytes) option" where
  "b64Decode cap q inp = (if cap < 3 then Some (q, [], inp) else b64_loop cap q inp [])"

section \<open>Feeding the checksummers\<close>

type_synonym fuz1Op = "nat \<Rightarrow> bytes \<Rightarrow> fuz1Ctx \<Rightarrow> fuz1Ctx option"

definition tbufLen :: nat where "tbufLen = 1024"

definition decode_next :: "mime \<Rightarrow> bytes \<Rightarrow> (mime \<times> bytes \<times> bytes) option" where
  "decode_next m bp =
     (case m_ce m of
        CeQP \<Rightarrow> do {
          (q, chunk, rest) \<leftarrow> qpDecode tbufLen (m_qp m) bp;
          Some (m\<lparr>m_qp := q\<rparr>, chunk, rest)
        }
      | CeB64 \<Rightarrow> do {
          (q, chunk, rest) \<leftarrow> b64Decode tbufLen (m_b64 m) bp;
          Some (m\<lparr>m_b64 := q\<rparr>, chunk, rest)
        }
      | CeASCII \<Rightarrow> Some (m, bp, []))"

definition sum_fuz1 :: "fuz1Op \<Rightarrow> bytes \<Rightarrow> cks \<Rightarrow> cks option" where
  "sum_fuz1 f1 bp c = do {
     (f, u) \<leftarrow> f1 (fz2WordCount c) bp (c_fz1 c, c_url c);
     Some (c\<lparr>c_fz1 := f, c_url := u\<rparr>)
   }"

definition sum_fuz2 :: "fuz2Tbl list \<Rightarrow> bytes \<Rightarrow> cks \<Rightarrow> cks option" where
  "sum_fuz2 tbls bp c = do {
     (f, ct) \<leftarrow> fuz2 tbls (m_cset (c_m c)) bp (c_fz2 c, m_ct (c_m c));
     Some (c\<lparr>c_fz2 := f, c_m := (c_m c)\<lparr>m_ct := ct\<rparr>\<rparr>)
   }"

definition sum_body :: "bytes \<Rightarrow> cks \<Rightarrow> cks option" where
  "sum_body bp c = do {
     b \<leftarrow> body0 bp (c_body c);
     Some (c\<lparr>c_body := b\<rparr>)
   }"

definition sum_chunk :: "fuz1Op \<Rightarrow> fuz2Tbl list \<Rightarrow> bytes \<Rightarrow> cks \<Rightarrow> cks option" where
  "sum_chunk f1 tbls chunk c = do {
     c \<leftarrow> sum_body chunk c;
     c \<leftarrow> sum_fuz1 f1 chunk c;
     if m_ct (c_m c) \<noteq> CtBinary then sum_fuz2 tbls chunk c else Some c
   }"

text \<open>One turn of the loop, with the cases of the buffer apart.\<close>

lemma qp_loop_cases:
  assumes "qp_loop cap q (c # inp) out = Some (q', o', r)"
  obtains q1 e b where "qp_step c q = ((q1, e), b)"
      "qp_loop cap q1 (if b then inp else c # inp) (out @ e) = Some (q', o', r)"
      "length (out @ e) \<le> cap \<or> e = []"
    | q1 e b where "qp_step c q = ((q1, e), b)" "q' = q1" "o' = out @ e" "r = (if b then inp else c # inp)"
      "length o' = cap" "e \<noteq> []"
proof -
  obtain q1 e b where st: "qp_step c q = ((q1, e), b)" by (metis prod.exhaust)
  from assms that(1) [OF st] that(2) [OF st] show thesis
    by (cases "e = []"; cases "length (out @ e) \<ge> cap"; cases "put cap out e")
      (auto simp: qp_loop.simps(2) st Let_def put_eq_Some)
qed

lemma qp_step_one: "qp_step c q = ((q', e), b) \<Longrightarrow> length e \<le> 1 \<and> (\<not> b \<longrightarrow> length e = 1 \<and> qp_debt q' + 1 = qp_debt q)"
  by (auto simp: qp_step_def qp_debt_def Let_def split: qpSt.splits if_splits option.splits)

lemma qp_loop_ind [consumes 1, case_names Nil Go Full]:
  assumes "qp_loop cap q inp out = Some (q', o', r)"
    and "\<And>q out. P q [] out q out []"
    and "\<And>q c inp out q1 e b q' o' r. qp_step c q = ((q1, e), b) \<Longrightarrow> length (out @ e) \<le> cap \<or> e = [] \<Longrightarrow>
      P q1 (if b then inp else c # inp) (out @ e) q' o' r \<Longrightarrow> P q (c # inp) out q' o' r"
    and "\<And>q c inp out q1 e b. qp_step c q = ((q1, e), b) \<Longrightarrow> length (out @ e) = cap \<Longrightarrow> e \<noteq> [] \<Longrightarrow>
      P q (c # inp) out q1 (out @ e) (if b then inp else c # inp)"
  shows "P q inp out q' o' r"
  using assms(1)
proof (induction "(q, inp)" arbitrary: q inp out
    rule: wf_induct [OF wf_measures [of "[\<lambda>(q, xs). length xs, \<lambda>(q, xs). qp_debt q]"]])
  case 1
  show ?case
  proof (cases inp)
    case Nil
    with "1.prems" assms(2) show ?thesis by simp
  next
    case (Cons c r0)
    from "1.prems" [unfolded Cons] show ?thesis
    proof (cases rule: qp_loop_cases)
      case (1 q1 e b)
      have "((q1, if b then r0 else c # r0), (q, inp))
          \<in> measures [\<lambda>(q, xs). length xs, \<lambda>(q, xs). qp_debt q]"
        using qp_step_one [OF 1(1)] by (cases b) (auto simp: Cons)
      with "1.hyps" 1(2) have "P q1 (if b then r0 else c # r0) (out @ e) q' o' r" by blast
      with assms(3) [OF 1(1,3)] show ?thesis by (simp add: Cons)
    next
      case (2 q1 e b)
      with assms(4) show ?thesis by (simp add: Cons)
    qed
  qed
qed

lemma qp_loop_progress:
  assumes "qp_loop cap q inp out = Some (q', o', r)" "inp \<noteq> []" "length out + qp_debt q < cap"
  shows "length r < length inp"
proof -
  have "length r \<le> length inp \<and> (inp \<noteq> [] \<and> length out + qp_debt q < cap \<longrightarrow> length r < length inp)"
    using assms(1)
  proof (induction rule: qp_loop_ind)
    case (Go q c inp out q1 e b q' o' r)
    then show ?case using qp_step_one [OF Go(1)] by (cases b) auto
  next
    case (Full q c inp out q1 e b)
    then show ?case using qp_step_one [OF Full(1)] by auto
  qed simp
  with assms(2,3) show ?thesis by blast
qed

lemma b64_loop_rest: "b64_loop cap q inp out = Some (q', o', r) \<Longrightarrow> length r \<le> length inp"
  by (induction cap q inp out rule: b64_loop.induct)
    (auto split: option.splits prod.splits if_splits intro: le_SucI)

lemma decode_next_progress:
  assumes "decode_next m bp = Some (m', chunk, rest)" "bp \<noteq> []"
  shows "length rest < length bp"
proof (cases "m_ce m")
  case CeQP
  have "qp_debt q < 1024" for q by (simp add: qp_debt_def split: qpSt.splits)
  then show ?thesis
    using assms CeQP qp_loop_progress [of 1024 "m_qp m" bp "[]"]
    by (auto simp: decode_next_def qpDecode_def tbufLen_def bind_Some_iff)
next
  case CeB64
  obtain c r where "bp = c # r" using assms(2) by (cases bp) auto
  then show ?thesis
    using assms CeB64
    by (auto simp: decode_next_def b64Decode_def tbufLen_def bind_Some_iff less_Suc_eq_le
        split: option.splits prod.splits if_splits dest!: b64_loop_rest)
qed (use assms in \<open>simp add: decode_next_def\<close>)

function decode_loop :: "fuz1Op \<Rightarrow> fuz2Tbl list \<Rightarrow> bytes \<Rightarrow> cks \<Rightarrow> cks option" where
  "decode_loop f1 tbls bp c =
     (if bp = [] then Some c
      else case decode_next (c_m c) bp of
        None \<Rightarrow> None
      | Some (m, chunk, rest) \<Rightarrow>
          (case (if chunk \<noteq> [] then sum_chunk f1 tbls chunk (c\<lparr>c_m := m\<rparr>) else Some (c\<lparr>c_m := m\<rparr>)) of
             None \<Rightarrow> None
           | Some c' \<Rightarrow> decode_loop f1 tbls rest c'))"
  by pat_completeness auto
termination
  by (relation "measure (\<lambda>(f1, tbls, bp, c). length bp)") (auto dest: decode_next_progress)

declare decode_loop.simps [simp del]

definition decodeSum_with :: "fuz1Op \<Rightarrow> fuz2Tbl list \<Rightarrow> bytes \<Rightarrow> cks \<Rightarrow> cks option" where
  "decodeSum_with f1 tbls bp c =
     (if m_mp (c_m c) \<noteq> MpText then
        (if bp = [] then Some c
         else do {
           c \<leftarrow> sum_body bp c;
           c \<leftarrow> sum_fuz1 f1 [0x0a] c;
           sum_fuz2 tbls [0x0a] c
         })
      else decode_loop f1 tbls bp c)"

definition decodeSum :: "fuz2Tbl list \<Rightarrow> bytes \<Rightarrow> cks \<Rightarrow> cks option" where
  "decodeSum = decodeSum_with fuz1"

end
