(* ===== verification/Multipart.thy ===== *)
theory Multipart
  imports Mime_Decode_Props
begin

text \<open>
  \<^verbatim>\<open>dcc/mime_multipart.go\<close>: the walk over a multipart body, which matches the open boundaries
  at the start of every line, reads the entity headers after a boundary and hands the text
  between boundaries to \<open>decodeSum\<close>; and \<^verbatim>\<open>ckBody\<close>, \<^verbatim>\<open>computeBody\<close>, the drivers over a whole
  body.

  Positions in the body are natural numbers: the code only adds to them, and where it takes
  from the length that is left, \<open>less_by\<close> is \<open>None\<close> if Go's length would become negative.
  The walk is a \<open>partial_function\<close>, whose value is \<open>None\<close> if it does not end; that it ends is
  proved in \<open>Multipart_Props\<close>.
\<close>

definition less_by :: "nat \<Rightarrow> nat \<Rightarrow> nat option" where
  "less_by n k = (if k \<le> n then Some (n - k) else None)"

definition indexByteFromTo :: "bytes \<Rightarrow> byte \<Rightarrow> nat \<Rightarrow> nat \<Rightarrow> nat option option" where
  "indexByteFromTo p b from until = do {
     s \<leftarrow> nslice p from until;
     let k = length (takeWhile (\<lambda>c. c \<noteq> b) s);
     Some (if k < length s then Some (from + k) else None)
   }"

section \<open>One boundary\<close>

text \<open>
  The comparison of one boundary with the text at \<open>cp\<close>, of which \<open>len\<close> bytes are left: it was
  given up before, it is no match, the text ends first, or its line ends at the given position.
\<close>

datatype bndRes = BndSkip | BndMiss | BndMore | BndFound nat

definition bnd_miss :: "ckBnd \<Rightarrow> ckBnd \<times> bndRes" where
  "bnd_miss b = (b\<lparr>bn_cmp := ckBndMiss\<rparr>, BndMiss)"

definition bnd_ws :: "byte \<Rightarrow> bool" where
  "bnd_ws c \<longleftrightarrow> c = 0x20 \<or> c = 0x09 \<or> c = 0x0d"

fun skip_ws :: "bytes \<Rightarrow> nat \<Rightarrow> nat \<Rightarrow> (nat \<times> nat) option" where
  "skip_ws bp cp 0 = Some (cp + 1, 0)"
| "skip_ws bp cp (Suc len) =
     (if len = 0 then Some (cp + 1, 0)
      else do {
        c \<leftarrow> idx bp (cp + 1);
        if bnd_ws c then skip_ws bp (cp + 1) len else Some (cp + 1, len)
      })"

text \<open>Trailing white space, then the required line end.\<close>

definition bnd_eol :: "bytes \<Rightarrow> nat \<Rightarrow> nat \<Rightarrow> ckBnd \<Rightarrow> (ckBnd \<times> bndRes) option" where
  "bnd_eol bp cp len b = do {
     c \<leftarrow> idx bp cp;
     (cp, len) \<leftarrow> (if bnd_ws c then skip_ws bp cp len else Some (cp, len));
     if bnd_ws c \<and> len = 0 then Some (b, BndMore)
     else do {
       c \<leftarrow> idx bp cp;
       Some (if c \<noteq> 0x0a then bnd_miss b else (b, BndFound cp))
     }
   }"

text \<open>The second and the first of the two dashes of a final boundary.\<close>

definition bnd_dash2 :: "bytes \<Rightarrow> nat \<Rightarrow> nat \<Rightarrow> ckBnd \<Rightarrow> (ckBnd \<times> bndRes) option" where
  "bnd_dash2 bp cp len b = do {
     c \<leftarrow> idx bp cp;
     if c = 0x2d then
       (let b = b\<lparr>bn_cmp := bn_cmp b + 1\<rparr>
        in if len - 1 = 0 then Some (b, BndMore) else bnd_eol bp (cp + 1) (len - 1) b)
     else Some (bnd_miss b)
   }"

definition bnd_dash :: "bytes \<Rightarrow> nat \<Rightarrow> nat \<Rightarrow> int \<Rightarrow> ckBnd \<Rightarrow> (ckBnd \<times> bndRes) option" where
  "bnd_dash bp cp len j b =
     (if j = 0 then do {
        c \<leftarrow> idx bp cp;
        if c = 0x2d then
          (let b = b\<lparr>bn_cmp := bn_cmp b + 1\<rparr>
           in if len - 1 = 0 then Some (b, BndMore) else bnd_dash2 bp (cp + 1) (len - 1) b)
        else bnd_eol bp cp len b
      }
      else if j = -1 then bnd_dash2 bp cp len b
      else bnd_eol bp cp len b)"

definition match_bnd :: "bytes \<Rightarrow> nat \<Rightarrow> nat \<Rightarrow> ckBnd \<Rightarrow> (ckBnd \<times> bndRes) option" where
  "match_bnd bp cmp bpLen b =
     (if bn_cmp b = ckBndMiss then Some (b, BndSkip)
      else let j = min (int (bn_len b) - int (bn_cmp b)) (int bpLen)
        in if j > 0 then do {
             t \<leftarrow> nslice bp cmp (cmp + nat j);
             v \<leftarrow> nslice (bn_bnd b) (bn_cmp b) (bn_cmp b + nat j);
             if t \<noteq> v then Some (bnd_miss b)
             else let b = b\<lparr>bn_cmp := bn_cmp b + nat j\<rparr>; len = bpLen - nat j
               in if len = 0 then Some (b, BndMore) else bnd_dash bp (cmp + nat j) len 0 b
           }
           else bnd_dash bp cmp bpLen j b)"

section \<open>All open boundaries\<close>

text \<open>
  The loop over the boundaries from number \<open>bi\<close>, \<open>k\<close> of them: the state with their progress,
  the length matched, and the number and end of the boundary found.
\<close>

fun scan_bnds :: "bytes \<Rightarrow> nat \<Rightarrow> nat \<Rightarrow> nat \<Rightarrow> nat \<Rightarrow> mime \<times> nat \<Rightarrow> ((mime \<times> nat) \<times> (nat \<times> nat) option) option" where
  "scan_bnds bp cmp bpLen bi 0 s = Some (s, None)"
| "scan_bnds bp cmp bpLen bi (Suc k) (m, matched) = do {
     b \<leftarrow> idx (m_bnd m) bi;
     (b, r) \<leftarrow> match_bnd bp cmp bpLen b;
     let m = m\<lparr>m_bnd := (m_bnd m)[bi := b]\<rparr>;
     case r of
       BndSkip \<Rightarrow> scan_bnds bp cmp bpLen (bi + 1) k (m, matched)
     | BndMiss \<Rightarrow> scan_bnds bp cmp bpLen (bi + 1) k (m\<lparr>m_matches := m_matches m - 1\<rparr>, matched)
     | BndMore \<Rightarrow> scan_bnds bp cmp bpLen (bi + 1) k (m, bpLen)
     | BndFound cp \<Rightarrow> Some ((m, matched), Some (bi, cp))
   }"

section \<open>The walk\<close>

type_synonym walk = "cks \<times> nat \<times> nat \<times> nat"

definition upd_mime :: "(mime \<Rightarrow> mime) \<Rightarrow> cks \<Rightarrow> cks" where
  "upd_mime f c = c\<lparr>c_m := f (c_m c)\<rparr>"

text \<open>At a line end every open boundary may match again.\<close>

definition mp_new_line :: "mime \<Rightarrow> mime" where
  "mp_new_line m = m\<lparr>m_bol := True, m_matches := int (m_nest m), m_bnd := map (\<lambda>b. b\<lparr>bn_cmp := 0\<rparr>) (m_bnd m)\<rparr>"

text \<open>A line of the entity header; the blank line ends the header and the text begins.\<close>

definition mp_entity :: "fuz1Op \<Rightarrow> fuz2Tbl list \<Rightarrow> bytes \<Rightarrow> nat \<Rightarrow> nat \<Rightarrow> cks \<Rightarrow> nat \<Rightarrow> (cks \<times> nat) option" where
  "mp_entity f1 tbls bp cmp cp c sm =
     (if m_mp (c_m c) = MpHdrs then do {
        l \<leftarrow> nslice bp cmp cp;
        (m, blank) \<leftarrow> parseMimeHdr l False (c_m c);
        let c = c\<lparr>c_m := m\<rparr>;
        if blank then do {
          (c, sm) \<leftarrow>
            (if cp \<noteq> sm then do {
               t \<leftarrow> nslice bp sm cp;
               c \<leftarrow> decodeSum_with f1 tbls t c;
               Some (c, cp)
             }
             else Some (c, sm));
          Some (upd_mime (\<lambda>m. m\<lparr>m_mp := MpText\<rparr>) c, sm)
        }
        else Some (c, sm)
      }
      else Some (c, sm))"

text \<open>Reading the next line while no boundary is left to match: \<^verbatim>\<open>mimeBndMatches == 0\<close>.\<close>

definition mp_line :: "fuz1Op \<Rightarrow> fuz2Tbl list \<Rightarrow> bytes \<Rightarrow> walk \<Rightarrow> walk option" where
  "mp_line f1 tbls bp w = (case w of (c, sm, cmp, bpLen) \<Rightarrow> do {
     rel \<leftarrow> indexByteFromTo bp 0x0a cmp (length bp);
     let cp = (case rel of None \<Rightarrow> cmp + bpLen | Some r \<Rightarrow> r + 1);
     (c, sm) \<leftarrow> mp_entity f1 tbls bp cmp cp c sm;
     last \<leftarrow> (if cp = 0 then None else idx bp (cp - 1));
     let c = (if last = 0x0a then upd_mime mp_new_line c else c);
     bpLen \<leftarrow> less_by bpLen (cp - cmp);
     Some (c, sm, cp, bpLen)
   })"

text \<open>What is done at a boundary: the text before it, the boundary itself, the new nesting.\<close>

definition mp_found :: "fuz1Op \<Rightarrow> fuz2Tbl list \<Rightarrow> bytes \<Rightarrow> nat \<Rightarrow> nat \<Rightarrow> walk \<Rightarrow> walk option" where
  "mp_found f1 tbls bp bi cp w = (case w of (c, sm, cmp, bpLen) \<Rightarrow> do {
     c \<leftarrow> (if cmp \<noteq> sm then do {
             t \<leftarrow> nslice bp sm cmp;
             decodeSum_with f1 tbls t c
           }
           else Some c);
     let c = upd_mime (\<lambda>m. m\<lparr>m_mp := MpBnd\<rparr>) c;
     b \<leftarrow> idx (m_bnd (c_m c)) bi;
     t \<leftarrow> nslice (bn_bnd b) 0 (bn_len b);
     c \<leftarrow> decodeSum_with f1 tbls t c;
     (c, nest) \<leftarrow>
       (if bn_cmp b \<noteq> bn_len b then do {
          c \<leftarrow> decodeSum_with f1 tbls [0x2d, 0x2d] c;
          Some (upd_mime (\<lambda>m. m\<lparr>m_mp := MpEpilogue\<rparr>) c, bi)
        }
        else Some (upd_mime (\<lambda>m. m\<lparr>m_mp := MpHdrs\<rparr>) c, bi + 1));
     let c = upd_mime (\<lambda>m. decodersInit (m\<lparr>m_nest := nest\<rparr>)) c;
     bpLen \<leftarrow> less_by bpLen (cp + 1 - cmp);
     Some (c, cp + 1, cp + 1, bpLen)
   })"

text \<open>The matching half of an iteration.\<close>

definition mp_match :: "fuz1Op \<Rightarrow> fuz2Tbl list \<Rightarrow> bytes \<Rightarrow> walk \<Rightarrow> walk option" where
  "mp_match f1 tbls bp w = (case w of (c, sm, cmp, bpLen) \<Rightarrow> do {
     ((m, matched), found) \<leftarrow> scan_bnds bp cmp bpLen 0 (m_nest (c_m c)) (c_m c, 0);
     let c = c\<lparr>c_m := m\<rparr>;
     case found of
       Some (bi, cp) \<Rightarrow> mp_found f1 tbls bp bi cp (c, sm, cmp, bpLen)
     | None \<Rightarrow> do {
         bpLen \<leftarrow> less_by bpLen matched;
         Some (c, sm, cmp, bpLen)
       }
   })"

text \<open>The text left over when the walk stops.\<close>

definition mp_rest :: "fuz1Op \<Rightarrow> fuz2Tbl list \<Rightarrow> bytes \<Rightarrow> walk \<Rightarrow> cks option" where
  "mp_rest f1 tbls bp w = (case w of (c, sm, cmp, bpLen) \<Rightarrow>
     if cmp \<noteq> sm then do {
       t \<leftarrow> nslice bp sm cmp;
       decodeSum_with f1 tbls t c
     }
     else Some c)"

partial_function (option) mp_walk :: "fuz1Op \<Rightarrow> fuz2Tbl list \<Rightarrow> bytes \<Rightarrow> walk \<Rightarrow> cks option" where
  "mp_walk f1 tbls bp w =
     (case w of (c, sm, cmp, bpLen) \<Rightarrow>
        if bpLen = 0 then mp_rest f1 tbls bp w
        else if m_nest (c_m c) = 0 then do {
          t \<leftarrow> nslice bp sm (length bp);
          decodeSum_with f1 tbls t c
        }
        else do {
          w \<leftarrow> (if m_matches (c_m c) = 0 then mp_line f1 tbls bp w else Some w);
          if snd (snd (snd w)) = 0 then mp_rest f1 tbls bp w
          else do {
            w \<leftarrow> mp_match f1 tbls bp w;
            mp_walk f1 tbls bp w
          }
        })"

declare mp_walk.simps [code]

definition ckBodyMultipart :: "fuz1Op \<Rightarrow> fuz2Tbl list \<Rightarrow> bytes \<Rightarrow> cks \<Rightarrow> cks option" where
  "ckBodyMultipart f1 tbls bp c = mp_walk f1 tbls bp (c, 0, 0, length bp)"

definition ckBody :: "fuz1Op \<Rightarrow> fuz2Tbl list \<Rightarrow> bytes \<Rightarrow> cks \<Rightarrow> cks option" where
  "ckBody f1 tbls bp c =
     (if m_nest (c_m c) = 0 then decodeSum_with f1 tbls bp c else ckBodyMultipart f1 tbls bp c)"

text \<open>The three body checksums with their validity.\<close>

definition computeBody :: "fuz1Op \<Rightarrow> fuz2Tbl list \<Rightarrow> bytes \<Rightarrow> cks
    \<Rightarrow> ((Sum \<times> bool) \<times> (Sum \<times> bool) \<times> (Sum \<times> bool)) option" where
  "computeBody f1 tbls bp c = do {
     c \<leftarrow> ckBody f1 tbls bp c;
     c \<leftarrow> sum_fuz1 f1 [0x0a] c;
     c \<leftarrow> sum_fuz2 tbls [0x0a] c;
     f2 \<leftarrow> fuz2_final (c_fz2 c) (Some (c_url c));
     Some (body_final (c_body c), fuz1_final (c_fz1 c), f2)
   }"

end
