(* ===== verification/Multipart_Props.thy ===== *)
theory Multipart_Props
  imports Multipart
begin

text \<open>
  The walk over a multipart body ends and stays inside the body and the boundary arrays,
  whatever the body is.  The reason it ends is the counter \<^verbatim>\<open>mimeBndMatches\<close>: it is the number of
  open boundaries that still match, so when no boundary was found either the body is used up
  or the counter is zero, and then the next round reads a line.
\<close>

section \<open>One boundary\<close>

definition bnd_result :: "bytes \<Rightarrow> nat \<Rightarrow> ckBnd \<Rightarrow> ckBnd \<times> bndRes \<Rightarrow> bool" where
  "bnd_result bp cp b x = (case x of (b', r) \<Rightarrow>
     bnd_ok b' \<and> bn_bnd b' = bn_bnd b \<and> bn_len b' = bn_len b
     \<and> (case r of BndSkip \<Rightarrow> False | BndMiss \<Rightarrow> bn_cmp b' = ckBndMiss | BndMore \<Rightarrow> bn_cmp b' \<noteq> ckBndMiss
        | BndFound cp' \<Rightarrow> bn_cmp b' \<noteq> ckBndMiss \<and> cp \<le> cp' \<and> cp' < length bp))"

lemma bnd_result_miss: "bnd_ok b \<Longrightarrow> bnd_result bp cp b (bnd_miss b)"
  by (simp add: bnd_result_def bnd_miss_def bnd_ok_def)

lemma bnd_result_miss_ex: "bnd_ok b \<Longrightarrow> \<exists>b' r. bnd_miss b = (b', r) \<and> bnd_result bp cp b (b', r)"
  using bnd_result_miss [of b bp cp] by (cases "bnd_miss b") simp

lemma bnd_result_more: "bnd_ok (b\<lparr>bn_cmp := k\<rparr>) \<Longrightarrow> k \<noteq> ckBndMiss \<Longrightarrow> bnd_result bp cp b (b\<lparr>bn_cmp := k\<rparr>, BndMore)"
  by (simp add: bnd_result_def)

lemma skip_ws_returns:
  "cp + len = length bp \<Longrightarrow> 0 < len \<Longrightarrow>
   \<exists>cp' len'. skip_ws bp cp len = Some (cp', len') \<and> cp < cp' \<and> cp' + len' = length bp"
proof (induction bp cp len rule: skip_ws.induct)
  case (2 bp cp len)
  show ?case
  proof (cases "len = 0")
    case False
    with "2.prems" have "idx bp (cp + 1) = Some (bp ! (cp + 1))" by simp
    with "2.IH" [OF False, of "bp ! (cp + 1)"] "2.prems" False show ?thesis by fastforce
  qed (use 2 in simp)
qed simp

lemma bnd_eol_returns:
  assumes "cp + len = length bp" "0 < len" "bnd_ok b" "bn_cmp b \<noteq> ckBndMiss"
  shows "\<exists>x. bnd_eol bp cp len b = Some x \<and> bnd_result bp cp b x"
proof (cases "bnd_ws (bp ! cp)")
  case True
  obtain cp' len' where s: "skip_ws bp cp len = Some (cp', len')" "cp < cp'" "cp' + len' = length bp"
    using skip_ws_returns [OF assms(1,2)] by blast
  have "cp < length bp" "len' \<noteq> 0 \<Longrightarrow> cp' < length bp" using assms(1,2) s(3) by auto
  with s True assms(3,4) bnd_result_miss [OF assms(3)] show ?thesis
    by (cases "len' = 0") (auto simp: bnd_eol_def bnd_result_def)
next
  case False
  have "cp < length bp" using assms(1,2) by simp
  with False assms(3,4) bnd_result_miss [OF assms(3)] show ?thesis
    by (auto simp: bnd_eol_def bnd_result_def)
qed

lemma bnd_result_step:
  "bnd_result bp (cp + 1) (b\<lparr>bn_cmp := k\<rparr>) x \<Longrightarrow> bnd_result bp cp b x"
  by (auto simp: bnd_result_def split: bndRes.splits)

lemma bnd_ok_cmp: "bnd_ok b \<Longrightarrow> k \<le> bn_len b + 2 \<Longrightarrow> bnd_ok (b\<lparr>bn_cmp := k\<rparr>) \<and> k \<noteq> ckBndMiss"
  by (auto simp: bnd_ok_def bnd_consts)

lemma bnd_dash2_returns:
  assumes "cp + len = length bp" "0 < len" "bnd_ok b" "bn_cmp b = bn_len b + 1"
  shows "\<exists>x. bnd_dash2 bp cp len b = Some x \<and> bnd_result bp cp b x"
proof -
  let ?b = "b\<lparr>bn_cmp := bn_cmp b + 1\<rparr>"
  have ok: "bnd_ok ?b" "bn_cmp ?b \<noteq> ckBndMiss" using bnd_ok_cmp [OF assms(3), of "bn_cmp b + 1"] assms(4) by auto
  have cp: "cp < length bp" using assms(1,2) by simp
  show ?thesis
  proof (cases "len - 1 = 0")
    case True
    with ok cp bnd_result_miss_ex [OF assms(3)] bnd_result_more show ?thesis
      by (auto simp: bnd_dash2_def Let_def)
  next
    case False
    then have "cp + 1 + (len - 1) = length bp" "0 < len - 1" using assms(1) by auto
    from bnd_eol_returns [OF this ok] obtain x where
      "bnd_eol bp (cp + 1) (len - 1) ?b = Some x" "bnd_result bp (cp + 1) ?b x" by blast
    with bnd_result_step [OF this(2)] False cp bnd_result_miss_ex [OF assms(3)] show ?thesis
      by (cases x) (auto simp: bnd_dash2_def Let_def)
  qed
qed

lemma bnd_dash_returns:
  assumes "cp + len = length bp" "0 < len" "bnd_ok b" "j = int (bn_len b) - int (bn_cmp b)" "j \<le> 0" "bn_cmp b \<noteq> ckBndMiss"
  shows "\<exists>x. bnd_dash bp cp len j b = Some x \<and> bnd_result bp cp b x"
proof -
  have cp: "cp < length bp" using assms(1,2) by simp
  consider "j = 0" "bp ! cp = 0x2d" | "j = 0" "bp ! cp \<noteq> 0x2d" | "j = -1" | "j \<noteq> 0" "j \<noteq> -1" by blast
  then show ?thesis
  proof cases
    case 1
    let ?b = "b\<lparr>bn_cmp := bn_cmp b + 1\<rparr>"
    have ok: "bnd_ok ?b" "bn_cmp ?b \<noteq> ckBndMiss" using bnd_ok_cmp [OF assms(3), of "bn_cmp b + 1"] assms(4) 1 by auto
    show ?thesis
    proof (cases "len - 1 = 0")
      case True
      with 1 ok cp show ?thesis by (auto simp: bnd_dash_def Let_def bnd_result_def)
    next
      case False
      then have "cp + 1 + (len - 1) = length bp" "0 < len - 1" "bn_cmp ?b = bn_len ?b + 1" using assms(1,4) 1 by auto
      from bnd_dash2_returns [OF this(1,2) ok(1) this(3)] obtain x where
        "bnd_dash2 bp (cp + 1) (len - 1) ?b = Some x" "bnd_result bp (cp + 1) ?b x" by blast
      with bnd_result_step [OF this(2)] False cp 1 show ?thesis by (auto simp: bnd_dash_def Let_def)
    qed
  next
    case 2
    with cp bnd_eol_returns [OF assms(1,2,3,6)] show ?thesis by (simp add: bnd_dash_def)
  next
    case 3
    with bnd_dash2_returns [OF assms(1,2,3)] assms(4) show ?thesis by (simp add: bnd_dash_def)
  next
    case 4
    with bnd_eol_returns [OF assms(1,2,3,6)] show ?thesis by (simp add: bnd_dash_def)
  qed
qed

lemma match_bnd_skip: "bn_cmp b = ckBndMiss \<Longrightarrow> match_bnd bp cmp bpLen b = Some (b, BndSkip)"
  by (simp add: match_bnd_def)

lemma match_bnd_returns:
  assumes "cmp + bpLen = length bp" "0 < bpLen" "bnd_ok b" "bn_cmp b \<noteq> ckBndMiss"
  shows "\<exists>x. match_bnd bp cmp bpLen b = Some x \<and> bnd_result bp cmp b x"
proof -
  define j where "j = min (int (bn_len b) - int (bn_cmp b)) (int bpLen)"
  show ?thesis
  proof (cases "j > 0")
    case False
    then have "j = int (bn_len b) - int (bn_cmp b)" using assms(2) by (auto simp: j_def)
    with bnd_dash_returns [OF assms(1-3) this _ assms(4)] False assms(4) show ?thesis
      by (simp add: match_bnd_def j_def [symmetric])
  next
    case True
    then have j: "nat j \<le> bpLen" "bn_cmp b + nat j \<le> bn_len b" "nat j > 0" by (auto simp: j_def)
    have len: "bn_cmp b + nat j \<le> length (bn_bnd b)" "cmp + nat j \<le> length bp"
      using j assms(1,3) by (auto simp: bnd_ok_def)
    let ?b = "b\<lparr>bn_cmp := bn_cmp b + nat j\<rparr>"
    have ok: "bnd_ok ?b" "bn_cmp ?b \<noteq> ckBndMiss" using bnd_ok_cmp [OF assms(3), of "bn_cmp b + nat j"] j by auto
    have "\<exists>x. (if bpLen - nat j = 0 then Some (?b, BndMore) else bnd_dash bp (cmp + nat j) (bpLen - nat j) 0 ?b) = Some x
        \<and> bnd_result bp cmp b x"
    proof (cases "bpLen - nat j = 0")
      case True
      then show ?thesis using ok by (auto simp: bnd_result_def)
    next
      case False
      then have "int (bn_len b) - int (bn_cmp b) = j" using j(1) True by (auto simp: j_def min_def split: if_splits)
      then have "0 = int (bn_len ?b) - int (bn_cmp ?b)" using True by simp
      from bnd_dash_returns [OF _ _ ok(1) this _ ok(2), of "cmp + nat j" "bpLen - nat j" bp] False assms(1) j
      obtain x where "bnd_dash bp (cmp + nat j) (bpLen - nat j) 0 ?b = Some x" "bnd_result bp (cmp + nat j) ?b x" by auto
      moreover from this(2) have "bnd_result bp cmp b x" by (auto simp: bnd_result_def split: bndRes.splits)
      ultimately show ?thesis using False by simp
    qed
    with True len assms(4) bnd_result_miss_ex [OF assms(3)] show ?thesis
      by (auto simp: match_bnd_def j_def [symmetric] Let_def)
  qed
qed

section \<open>All open boundaries\<close>

definition live :: "mime \<Rightarrow> nat set" where
  "live m = {i. i < m_nest m \<and> bn_cmp (m_bnd m ! i) \<noteq> ckBndMiss}"

definition counted :: "mime \<Rightarrow> bool" where
  "counted m \<longleftrightarrow> m_matches m = int (card (live m))"

lemma finite_live [simp]: "finite (live m)"
  by (simp add: live_def)

lemma live_miss:
  assumes "i < length (m_bnd m)" "bn_cmp b = ckBndMiss"
  shows "live (m\<lparr>m_bnd := (m_bnd m)[i := b], m_matches := k\<rparr>) = live m - {i}"
  using assms by (auto simp: live_def nth_list_update)

lemma live_same:
  assumes "i < length (m_bnd m)" "(bn_cmp b = ckBndMiss) = (bn_cmp (m_bnd m ! i) = ckBndMiss)"
  shows "live (m\<lparr>m_bnd := (m_bnd m)[i := b]\<rparr>) = live m"
  using assms by (auto simp: live_def nth_list_update)

definition same_frame :: "mime \<Rightarrow> mime \<Rightarrow> bool" where
  "same_frame m m' \<longleftrightarrow> m' = m\<lparr>m_bnd := m_bnd m', m_matches := m_matches m'\<rparr>"

lemma same_frame_trans: "same_frame a b \<Longrightarrow> same_frame b c \<Longrightarrow> same_frame a c"
  by (cases a; cases b; cases c) (auto simp: same_frame_def)

lemma same_frame_upd [simp]: "same_frame m m" "same_frame m (m\<lparr>m_bnd := l\<rparr>)" "same_frame m (m\<lparr>m_bnd := l, m_matches := k\<rparr>)"
  by (simp_all add: same_frame_def)

lemma same_frame_nest: "same_frame m m' \<Longrightarrow> m_nest m' = m_nest m"
  unfolding same_frame_def by (drule arg_cong [of _ _ m_nest]) simp

lemma mime_ok_bnd:
  "mime_ok i m \<Longrightarrow> bnd_ok b \<Longrightarrow> mime_ok i (m\<lparr>m_bnd := (m_bnd m)[k := b]\<rparr>) \<and> mime_ok i (m\<lparr>m_bnd := (m_bnd m)[k := b], m_matches := n\<rparr>)"
  using bnd_put [of m b k] by (simp add: mime_ok_def)

definition scanned :: "bytes \<Rightarrow> nat \<Rightarrow> nat \<Rightarrow> mime \<Rightarrow> (mime \<times> nat) \<times> (nat \<times> nat) option \<Rightarrow> bool" where
  "scanned bp cmp bpLen m x = (case x of ((m', matched), r) \<Rightarrow> mime_ok False m' \<and> same_frame m m'
     \<and> (case r of
          None \<Rightarrow> counted m' \<and> (matched = bpLen \<or> matched = 0 \<and> live m' = {})
        | Some (bi, cp) \<Rightarrow> bi < m_nest m \<and> cmp \<le> cp \<and> cp < length bp))"

lemma scanned_frame: "same_frame m m' \<Longrightarrow> scanned bp cmp bpLen m' x \<Longrightarrow> scanned bp cmp bpLen m x"
  by (auto simp: scanned_def same_frame_nest intro: same_frame_trans split: option.splits)

lemma scan_bnds_returns:
  assumes "cmp + bpLen = length bp" "0 < bpLen" "mime_ok False m" "bi + k = m_nest m" "counted m"
    "matched = bpLen \<or> matched = 0 \<and> (\<forall>i < bi. i \<notin> live m)"
  shows "\<exists>x. scan_bnds bp cmp bpLen bi k (m, matched) = Some x \<and> scanned bp cmp bpLen m x"
  using assms(3-6)
proof (induction k arbitrary: bi m matched)
  case 0
  then show ?case by (auto simp: scanned_def live_def)
next
  case (Suc k)
  let ?b = "m_bnd m ! bi"
  have bi: "bi < 3" "length (m_bnd m) = 3" "bi < m_nest m" "bnd_ok ?b"
    using Suc.prems(1,2) by (auto simp: mime_ok_def list_all_length)
  then have at: "idx (m_bnd m) bi = Some ?b" by simp
  show ?case
  proof (cases "bn_cmp ?b = ckBndMiss")
    case True
    have "bi \<notin> live m" using True by (simp add: live_def)
    with Suc.prems have "matched = bpLen \<or> matched = 0 \<and> (\<forall>i < bi + 1. i \<notin> live m)" by (auto simp: less_Suc_eq)
    from Suc.IH [OF Suc.prems(1) _ Suc.prems(3) this] Suc.prems(2) show ?thesis
      by (auto simp: at match_bnd_skip [OF True])
  next
    case False
    obtain b' r where mb: "match_bnd bp cmp bpLen ?b = Some (b', r)" "bnd_result bp cmp ?b (b', r)"
      using match_bnd_returns [OF assms(1,2) bi(4) False] by auto
    let ?m = "m\<lparr>m_bnd := (m_bnd m)[bi := b']\<rparr>"
    let ?m1 = "m\<lparr>m_bnd := (m_bnd m)[bi := b'], m_matches := m_matches m - 1\<rparr>"
    have b': "bnd_ok b'" using mb(2) by (simp add: bnd_result_def)
    have ok: "mime_ok False ?m" "mime_ok False ?m1" using mime_ok_bnd [OF Suc.prems(1) b'] by auto
    consider "r = BndMiss" | "r = BndMore" | cp where "r = BndFound cp"
      using mb(2) by (cases r) (auto simp: bnd_result_def)
    then show ?thesis
    proof cases
      case 1
      then have live: "live ?m1 = live m - {bi}" using mb(2) bi by (intro live_miss) (auto simp: bnd_result_def)
      have "bi \<in> live m" using False bi by (simp add: live_def)
      then have "0 < card (live m)" "card (live m - {bi}) = card (live m) - 1" by (auto simp: card_gt_0_iff)
      then have "counted ?m1" unfolding counted_def live using Suc.prems(3) by (simp add: counted_def)
      moreover have "matched = bpLen \<or> matched = 0 \<and> (\<forall>i < bi + 1. i \<notin> live ?m1)"
        using Suc.prems(4) unfolding live by (auto simp: less_Suc_eq)
      moreover have "bi + 1 + k = m_nest ?m1" using Suc.prems(2) by simp
      ultimately obtain x where "scan_bnds bp cmp bpLen (bi + 1) k (?m1, matched) = Some x" "scanned bp cmp bpLen ?m1 x"
        using Suc.IH [OF ok(2)] by blast
      with scanned_frame [OF same_frame_upd(3) this(2)] 1 show ?thesis by (simp add: at mb(1) Let_def)
    next
      case 2
      then have "live ?m = live m" using mb(2) bi False by (intro live_same) (auto simp: bnd_result_def)
      then have "counted ?m" using Suc.prems(3) by (simp add: counted_def)
      moreover have "bi + 1 + k = m_nest ?m" using Suc.prems(2) by simp
      ultimately obtain x where "scan_bnds bp cmp bpLen (bi + 1) k (?m, bpLen) = Some x" "scanned bp cmp bpLen ?m x"
        using Suc.IH [OF ok(1)] by blast
      with scanned_frame [OF same_frame_upd(2) this(2)] 2 show ?thesis by (simp add: at mb(1) Let_def)
    next
      case 3
      with mb ok(1) bi show ?thesis by (simp add: at Let_def scanned_def bnd_result_def)
    qed
  qed
qed

section \<open>The walk\<close>

lemma matches_init: "m_matches (decodersInit m) = 0" "mime_ok i (decodersInit m) = mime_ok i m"
  by (simp_all add: decodersInit_def mime_ok_def)

lemma indexByteFromTo_cases:
  assumes "from \<le> until" "until \<le> length p"
  obtains "indexByteFromTo p b from until = Some None"
    | r where "indexByteFromTo p b from until = Some (Some r)" "from \<le> r" "r < until" "p ! r = b"
proof -
  let ?s = "take (until - from) (drop from p)"
  let ?k = "length (takeWhile (\<lambda>c. c \<noteq> b) ?s)"
  have s: "nslice p from until = Some ?s" using assms by simp
  show thesis
  proof (cases "?k < length ?s")
    case True
    then have "?s ! ?k = b" using nth_length_takeWhile [OF True] by simp
    then have "p ! (from + ?k) = b" using True assms by simp
    with True assms that(2) [of "from + ?k"] show thesis by (simp add: indexByteFromTo_def s Let_def)
  next
    case False
    then show thesis using that(1) by (simp add: indexByteFromTo_def s Let_def)
  qed
qed


definition walk_ok :: "(fuz1Ctx \<Rightarrow> bool) \<Rightarrow> bytes \<Rightarrow> walk \<Rightarrow> bool" where
  "walk_ok I bp w = (case w of (c, sm, cmp, bpLen) \<Rightarrow>
     cks_ok I False c \<and> sm \<le> cmp \<and> cmp \<le> length bp \<and> (bpLen = 0 \<or> cmp + bpLen = length bp))"

text \<open>What a round starts from: the counter is right, or zero.\<close>

definition walk_counted :: "walk \<Rightarrow> bool" where
  "walk_counted w \<longleftrightarrow> snd (snd (snd w)) = 0 \<or> m_matches (c_m (fst w)) = 0 \<or> counted (c_m (fst w))"

lemma cks_ok_mime: "cks_ok I i c \<Longrightarrow> mime_ok i (f (c_m c)) \<Longrightarrow> cks_ok I i (upd_mime f c)"
  by (simp add: cks_ok_def upd_mime_def)

lemma cks_ok_mp [simp]: "mime_ok i (m\<lparr>m_mp := s\<rparr>) = mime_ok i m"
  by (simp add: mime_ok_def)

lemma cks_ok_upd_mp [simp]: "cks_ok I i (upd_mime (m_mp_update f) c) = cks_ok I i c"
  by (simp add: cks_ok_def upd_mime_def mime_ok_def)

lemma new_line_ok:
  assumes "mime_ok i m"
  shows "mime_ok i (mp_new_line m)" "counted (mp_new_line m)"
proof -
  show "mime_ok i (mp_new_line m)"
    using assms by (auto simp: mp_new_line_def mime_ok_def bnd_ok_def list_all_length)
  have "live (mp_new_line m) = {i. i < m_nest m}"
    using assms by (auto simp: mp_new_line_def live_def mime_ok_def bnd_consts)
  then show "counted (mp_new_line m)" by (simp add: counted_def) (simp add: mp_new_line_def)
qed

context line_sink
begin

lemma decode_slice:
  assumes "cks_ok I i c" "tbls_ok tbls" "A = UNIV" "a \<le> b" "b \<le> length bp"
  shows "\<exists>c'. Option.bind (nslice bp a b) (\<lambda>t. decodeSum_with f1 tbls t c) = Some c' \<and> cks_ok I i c'
    \<and> same_mime (c_m c) (c_m c')"
  using decodeSum_returns [OF assms(1,2), of "take (b - a) (drop a bp)"] assms(3-5) by (simp add: clear_in_def)

lemma mp_line_returns:
  assumes "walk_ok I bp (c, sm, cmp, bpLen)" "0 < bpLen" "tbls_ok tbls" "A = UNIV"
  shows "\<exists>c' sm' cmp' bpLen'. mp_line f1 tbls bp (c, sm, cmp, bpLen) = Some (c', sm', cmp', bpLen')
    \<and> walk_ok I bp (c', sm', cmp', bpLen') \<and> bpLen' < bpLen \<and> (bpLen' = 0 \<or> counted (c_m c'))"
proof -
  have ok: "cks_ok I False c" "sm \<le> cmp" "cmp + bpLen = length bp" using assms(1,2) by (auto simp: walk_ok_def)
  obtain rel cp where rel: "indexByteFromTo bp 0x0a cmp (length bp) = Some rel"
    "cp = (case rel of None \<Rightarrow> cmp + bpLen | Some r \<Rightarrow> r + 1)" "cmp < cp" "cp \<le> length bp"
    "cp < length bp \<Longrightarrow> bp ! (cp - 1) = 0x0a"
  proof (rule indexByteFromTo_cases [of cmp "length bp" bp "0x0a"])
    show "cmp \<le> length bp" "length bp \<le> length bp" using ok(3) by simp_all
  qed (use ok(3) assms(2) in \<open>auto intro: that\<close>)
  have "\<exists>c1 sm1. mp_entity f1 tbls bp cmp cp c sm = Some (c1, sm1) \<and> cks_ok I False c1 \<and> sm1 \<le> cp"
  proof (cases "m_mp (c_m c) = MpHdrs")
    case True
    have "mime_ok False (c_m c)" using ok(1) by (simp add: cks_ok_def)
    from parseMimeHdr_returns [OF this, of "take (cp - cmp) (drop cmp bp)"] obtain m blank
      where m: "parseMimeHdr (take (cp - cmp) (drop cmp bp)) False (c_m c) = Some (m, blank)" "mime_ok False m" by blast
    have "cks_ok I False (c\<lparr>c_m := m\<rparr>)" using ok(1) m(2) by (simp add: cks_ok_def)
    with decode_slice [OF this assms(3,4), of sm cp bp] True m rel(3,4) ok(2) show ?thesis
      by (auto simp: mp_entity_def Let_def bind_Some_iff)
  next
    case False
    with ok rel(3) show ?thesis by (simp add: mp_entity_def)
  qed
  then obtain c1 sm1 where h: "mp_entity f1 tbls bp cmp cp c sm = Some (c1, sm1)" "cks_ok I False c1" "sm1 \<le> cp" by blast
  define c2 where "c2 = (if bp ! (cp - 1) = 0x0a then upd_mime mp_new_line c1 else c1)"
  have c2: "cks_ok I False c2" "cp < length bp \<Longrightarrow> counted (c_m c2)"
    using h(2) rel(5) new_line_ok [of _ "c_m c1"] by (auto simp: c2_def cks_ok_def upd_mime_def)
  have "mp_line f1 tbls bp (c, sm, cmp, bpLen) = Some (c2, sm1, cp, bpLen - (cp - cmp))"
    using rel(3,4) ok(3) h(1) unfolding mp_line_def prod.case rel(1) bind.bind_lunit Let_def rel(2) [symmetric]
    by (simp add: less_by_def c2_def Let_def)
  moreover have "bpLen - (cp - cmp) < bpLen" "cp + (bpLen - (cp - cmp)) = length bp"
    "bpLen - (cp - cmp) = 0 \<or> cp < length bp" using rel(3,4) ok(3) assms(2) by auto
  moreover from this c2 h(3) have "walk_ok I bp (c2, sm1, cp, bpLen - (cp - cmp))"
    "bpLen - (cp - cmp) = 0 \<or> counted (c_m c2)" by (simp_all add: walk_ok_def) blast
  ultimately show ?thesis by blast
qed

lemma mp_found_returns:
  assumes "cks_ok I False c" "sm \<le> cmp" "cmp + bpLen = length bp" "tbls_ok tbls" "A = UNIV"
    "bi < m_nest (c_m c)" "cmp \<le> cp" "cp < length bp"
  shows "\<exists>c'. mp_found f1 tbls bp bi cp (c, sm, cmp, bpLen) = Some (c', cp + 1, cp + 1, bpLen - (cp + 1 - cmp))
    \<and> cks_ok I False c' \<and> m_matches (c_m c') = 0"
proof -
  have dec: "\<exists>c'. decodeSum_with f1 tbls t c = Some c' \<and> cks_ok I False c' \<and> same_mime (c_m c) (c_m c')"
    if "cks_ok I False c" for t c
    using decodeSum_returns [OF that assms(4), of t] assms(5) by (simp add: clear_in_def)
  obtain c1 where c1: "(if cmp \<noteq> sm then do { t \<leftarrow> nslice bp sm cmp; decodeSum_with f1 tbls t c } else Some c) = Some c1"
    "cks_ok I False c1" "same_mime (c_m c) (c_m c1)"
    using decode_slice [OF assms(1,4,5,2), of bp] assms(1,3) by (cases "cmp = sm") auto
  let ?c2 = "upd_mime (\<lambda>m. m\<lparr>m_mp := MpBnd\<rparr>) c1"
  have c2: "cks_ok I False ?c2" using c1(2) by simp
  have nest: "m_nest (c_m ?c2) = m_nest (c_m c)" using same_mime_keeps(1) [OF c1(3)] by (simp add: upd_mime_def)
  have bnd: "length (m_bnd (c_m ?c2)) = 3" "bi < 3" "bnd_ok (m_bnd (c_m ?c2) ! bi)"
    using c2 assms(6) nest by (auto simp: cks_ok_def mime_ok_def list_all_length)
  let ?b = "m_bnd (c_m ?c2) ! bi"
  obtain c3 where c3: "decodeSum_with f1 tbls (take (bn_len ?b) (bn_bnd ?b)) ?c2 = Some c3" "cks_ok I False c3"
    "same_mime (c_m ?c2) (c_m c3)" using dec [OF c2] by blast
  define r where "r = (if bn_cmp ?b \<noteq> bn_len ?b then do {
      c \<leftarrow> decodeSum_with f1 tbls [0x2d, 0x2d] c3;
      Some (upd_mime (\<lambda>m. m\<lparr>m_mp := MpEpilogue\<rparr>) c, bi)
    }
    else Some (upd_mime (\<lambda>m. m\<lparr>m_mp := MpHdrs\<rparr>) c3, bi + 1))"
  have n3: "m_nest (c_m c3) = m_nest (c_m c)" using same_mime_keeps(1) [OF c3(3)] nest by simp
  obtain c4 k where c4: "r = Some (c4, k)" "cks_ok I False c4" "k \<le> m_nest (c_m c4)"
  proof (cases "bn_cmp ?b \<noteq> bn_len ?b")
    case True
    obtain c' where c': "decodeSum_with f1 tbls [0x2d, 0x2d] c3 = Some c'" "cks_ok I False c'" "same_mime (c_m c3) (c_m c')"
      using dec [OF c3(2)] by blast
    have "m_nest (c_m c') = m_nest (c_m c)" using same_mime_keeps(1) [OF c'(3)] n3 by simp
    with True c'(1,2) that [of "upd_mime (\<lambda>m. m\<lparr>m_mp := MpEpilogue\<rparr>) c'" bi] assms(6) show thesis
      by (simp add: r_def cks_ok_mime cks_ok_def upd_mime_def)
  next
    case False
    with c3(2) that [of "upd_mime (\<lambda>m. m\<lparr>m_mp := MpHdrs\<rparr>) c3" "bi + 1"] assms(6) n3 show thesis
      by (simp add: r_def cks_ok_def upd_mime_def)
  qed
  let ?c5 = "upd_mime (\<lambda>m. decodersInit (m\<lparr>m_nest := k\<rparr>)) c4"
  have "mime_ok False ((c_m c4)\<lparr>m_nest := k\<rparr>)" using c4(2,3) by (auto simp: cks_ok_def mime_ok_def)
  then have "cks_ok I False ?c5" using c4(2) by (simp add: cks_ok_def upd_mime_def matches_init)
  moreover have "m_matches (c_m ?c5) = 0" by (simp add: upd_mime_def matches_init)
  moreover have "mp_found f1 tbls bp bi cp (c, sm, cmp, bpLen) = Some (?c5, cp + 1, cp + 1, bpLen - (cp + 1 - cmp))"
  proof -
    have i: "idx (m_bnd (c_m ?c2)) bi = Some ?b" "nslice (bn_bnd ?b) 0 (bn_len ?b) = Some (take (bn_len ?b) (bn_bnd ?b))"
      using bnd by (auto simp: bnd_ok_def)
    show ?thesis
      unfolding mp_found_def prod.case c1(1) bind.bind_lunit Let_def i c3(1) r_def [symmetric] c4(1)
      using assms(3,7,8) by (simp add: less_by_def)
  qed
  ultimately show ?thesis by blast
qed

lemma mp_match_returns:
  assumes "walk_ok I bp (c, sm, cmp, bpLen)" "0 < bpLen" "tbls_ok tbls" "A = UNIV" "counted (c_m c)"
  shows "\<exists>c' sm' cmp' bpLen'. mp_match f1 tbls bp (c, sm, cmp, bpLen) = Some (c', sm', cmp', bpLen')
    \<and> walk_ok I bp (c', sm', cmp', bpLen') \<and> bpLen' \<le> bpLen \<and> (bpLen' = 0 \<or> m_matches (c_m c') = 0)"
proof -
  have ok: "cks_ok I False c" "sm \<le> cmp" "cmp + bpLen = length bp" using assms(1,2) by (auto simp: walk_ok_def)
  have m: "mime_ok False (c_m c)" using ok(1) by (simp add: cks_ok_def)
  obtain m' matched r where s: "scan_bnds bp cmp bpLen 0 (m_nest (c_m c)) (c_m c, 0) = Some ((m', matched), r)"
    "scanned bp cmp bpLen (c_m c) ((m', matched), r)"
    using scan_bnds_returns [OF ok(3) assms(2) m, of 0 "m_nest (c_m c)" 0] assms(5) by auto
  have c1: "cks_ok I False (c\<lparr>c_m := m'\<rparr>)" using ok(1) s(2) by (simp add: scanned_def cks_ok_def)
  have nest: "m_nest m' = m_nest (c_m c)" using s(2) by (auto simp: scanned_def intro: same_frame_nest)
  show ?thesis
  proof (cases r)
    case None
    with s(2) have "counted m'" "matched = bpLen \<or> matched = 0 \<and> live m' = {}" by (auto simp: scanned_def)
    then have "matched = bpLen \<or> matched = 0 \<and> m_matches m' = 0" by (auto simp: counted_def)
    with None s(1) c1 ok show ?thesis by (auto simp: mp_match_def less_by_def walk_ok_def)
  next
    case (Some x)
    obtain bi cp where x: "x = (bi, cp)" by (cases x)
    with s(2) Some have b: "bi < m_nest m'" "cmp \<le> cp" "cp < length bp" using nest by (auto simp: scanned_def)
    from mp_found_returns [OF c1 ok(2,3) assms(3,4) _ b(2,3), of bi] b(1) s(1) Some x ok(3) b(2,3) show ?thesis
      by (auto simp: mp_match_def walk_ok_def)
  qed
qed

text \<open>The walk ends: each round uses up bytes or brings the counter to zero, and then uses up bytes.\<close>

lemma mp_walk_returns:
  assumes "walk_ok I bp w" "walk_counted w" "tbls_ok tbls" "A = UNIV"
  shows "\<exists>c'. mp_walk f1 tbls bp w = Some c' \<and> cks_ok I False c'"
  using assms(1,2)
proof (induction "2 * snd (snd (snd w)) + (if m_matches (c_m (fst w)) = 0 then 0 else 1)" arbitrary: w rule: less_induct)
  case less
  obtain c sm cmp bpLen where w: "w = (c, sm, cmp, bpLen)" by (metis prod_cases4)
  have ok: "cks_ok I False c" "sm \<le> cmp" "cmp \<le> length bp" using less.prems(1) w by (auto simp: walk_ok_def)
  have rest: "\<exists>c'. mp_rest f1 tbls bp (c1, s1, p1, l1) = Some c' \<and> cks_ok I False c'" if "walk_ok I bp (c1, s1, p1, l1)" for c1 s1 p1 l1
    using decode_slice [of False c1 tbls s1 p1 bp] that assms(3,4) by (auto simp: walk_ok_def mp_rest_def)
  show ?case
  proof (cases "bpLen = 0 \<or> m_nest (c_m c) = 0")
    case True
    show ?thesis
    proof (cases "bpLen = 0")
      case True
      then show ?thesis using rest less.prems(1) by (subst mp_walk.simps) (simp add: w)
    next
      case False
      with True decode_slice [OF ok(1) assms(3,4), of sm "length bp" bp] ok show ?thesis
        by (subst mp_walk.simps) (auto simp: w)
    qed
  next
    case False
    obtain c1 s1 p1 l1 where l: "(if m_matches (c_m c) = 0 then mp_line f1 tbls bp w else Some w) = Some (c1, s1, p1, l1)"
      "walk_ok I bp (c1, s1, p1, l1)" "l1 = 0 \<or> counted (c_m c1)" "m_matches (c_m c) = 0 \<longrightarrow> l1 < bpLen" "l1 \<le> bpLen"
      using mp_line_returns [OF less.prems(1) [unfolded w] _ assms(3,4)] less.prems False
      by (cases "m_matches (c_m c) = 0") (auto simp: w walk_counted_def)
    show ?thesis
    proof (cases "l1 = 0")
      case True
      then show ?thesis using rest [OF l(2)] l(1) False by (subst mp_walk.simps) (auto simp: w)
    next
      case nz: False
      obtain c2 s2 p2 l2 where t: "mp_match f1 tbls bp (c1, s1, p1, l1) = Some (c2, s2, p2, l2)"
        "walk_ok I bp (c2, s2, p2, l2)" "l2 \<le> l1" "l2 = 0 \<or> m_matches (c_m c2) = 0"
        using mp_match_returns [OF l(2) _ assms(3,4)] l(3) nz by auto
      have "mp_walk f1 tbls bp w = mp_walk f1 tbls bp (c2, s2, p2, l2)"
        using False nz l(1) t(1) by (subst mp_walk.simps) (auto simp: w)
      moreover have "2 * l2 + (if m_matches (c_m c2) = 0 then 0 else 1) < 2 * bpLen + (if m_matches (c_m c) = 0 then 0 else (1::nat))"
        using t(3,4) l(4,5) nz False by auto
      ultimately show ?thesis
        using less.hyps [of "(c2, s2, p2, l2)"] t(2,4) by (auto simp: w walk_counted_def)
    qed
  qed
qed

end

end
