(* ===== verification/Multipart_Specs.thy ===== *)
theory Multipart_Specs
  imports Multipart_Props
begin

text \<open>
  What is shown of a whole body: the header parser leaves the counter the walk starts from, so
  every body is walked to its end; and which lines count as a boundary.
\<close>

section \<open>The counter after the header fields\<close>

definition hdr_counted :: "mime \<Rightarrow> bool" where
  "hdr_counted m \<longleftrightarrow> (m_nest m = 1 \<or> m_hdr m = MhdrBndValue \<longrightarrow> m_matches m = 1)
     \<and> (m_nest m = 1 \<longrightarrow> bn_cmp (m_bnd m ! 0) = 0)"

lemma hdr_counted_cong:
  "hdr_counted m \<Longrightarrow> m_bnd m' = m_bnd m \<Longrightarrow> m_nest m' = m_nest m \<Longrightarrow> m_matches m' = m_matches m \<Longrightarrow>
   m_hdr m' \<noteq> MhdrBndValue \<Longrightarrow> hdr_counted m'"
  by (simp add: hdr_counted_def)

lemma mhMatch_matches [simp]: "m_matches (fst (fst (mhMatch ok fail tgt (m, b)))) = m_matches m"
  by (auto simp: mhMatch_def Let_def)

lemma mhMatch_hdr:
  "ok \<noteq> MhdrBndValue \<Longrightarrow> fail \<noteq> MhdrBndValue \<Longrightarrow> m_hdr m \<noteq> MhdrBndValue \<Longrightarrow>
   m_hdr (fst (fst (mhMatch ok fail tgt (m, b)))) \<noteq> MhdrBndValue"
  by (auto simp: mhMatch_def Let_def)

lemma hdr_isox_frame:
  "m_bnd (fst (hdr_isox m bp)) = m_bnd m \<and> m_nest (fst (hdr_isox m bp)) = m_nest m
     \<and> m_matches (fst (hdr_isox m bp)) = m_matches m
     \<and> (m_hdr m \<noteq> MhdrBndValue \<longrightarrow> m_hdr (fst (hdr_isox m bp)) \<noteq> MhdrBndValue)"
  by (induction m bp rule: hdr_isox.induct) (simp_all add: Let_def)

lemma hdr_bndvalue_frame:
  "hdr_bndvalue m b bp = Some ((m', b', bp'), r) \<Longrightarrow>
     m_bnd m' = m_bnd m \<and> m_nest m' = m_nest m \<and> m_matches m' = m_matches m \<and> bn_cmp b' = bn_cmp b"
proof (induction m b bp arbitrary: m' b' bp' r rule: hdr_bndvalue.induct)
  case (2 m b ch bp)
  consider "ch = 0x0a" | "ch \<noteq> 0x0a" "ch = 0x0d" | "ch \<noteq> 0x0a" "ch \<noteq> 0x0d" "(ch = 0x20 \<or> ch = 0x09 \<or> ch = 0x3b) \<and> \<not> m_quoted m"
    | "ch \<noteq> 0x0a" "ch \<noteq> 0x0d" "\<not> ((ch = 0x20 \<or> ch = 0x09 \<or> ch = 0x3b) \<and> \<not> m_quoted m)" "ch = 0x22"
    | "ch \<noteq> 0x0a" "ch \<noteq> 0x0d" "\<not> ((ch = 0x20 \<or> ch = 0x09 \<or> ch = 0x3b) \<and> \<not> m_quoted m)" "ch \<noteq> 0x22" by blast
  then show ?case
  proof cases
    case 2
    with "2.IH"(1) [OF 2] "2.prems" show ?thesis by simp
  next
    case 4
    with "2.IH"(2) [OF 4] "2.prems" show ?thesis by simp
  next
    case 5
    obtain v where u: "upd (bn_bnd b) (m_pos m) ch = Some v" using 5 "2.prems" by (cases "upd (bn_bnd b) (m_pos m) ch") auto
    show ?thesis
    proof (cases "m_pos m + 1 \<ge> ckBndMax")
      case True
      with 5 u "2.prems" show ?thesis by auto
    next
      case False
      then have "\<not> m_pos (m\<lparr>m_pos := m_pos m + 1\<rparr>) \<ge> ckBndMax" by simp
      from "2.IH"(3) [OF 5 u refl refl this] False "2.prems" 5 u show ?thesis by auto
    qed
  qed (use "2.prems" in simp_all)
qed simp

lemma hdr_step_counted:
  assumes "hdr_step True (m, bp) = Some x" "mime_ok True m" "hdr_counted m"
  shows "hdr_counted (fst (fst x))"
proof -
  define Q where "Q = hdr_counted"
  have upd: "Q m'" if "m_bnd m' = m_bnd m" "m_nest m' = m_nest m" "m_matches m' = m_matches m"
    "m_hdr m' \<noteq> MhdrBndValue" for m' :: mime
    using hdr_counted_cong [OF assms(3) that] by (simp add: Q_def)
  have q: "Q (fst (fst x))" if "x = hdr_te (m, bp) \<and> m_hdr m \<in> {MhdrCeCt, MhdrCe, MhdrCeWS, MhdrQP, MhdrB64}
      \<or> x = hdr_ct True (m, bp) \<and> m_hdr m \<in> {MhdrCt, MhdrCtWS, MhdrText, MhdrHTML}
      \<or> x = hdr_cset (m, bp) \<and> m_hdr m \<in> {MhdrCsetSkipParam, MhdrCsetSpanWS, MhdrCset, MhdrCsetISO8859, MhdrCsetISOX}"
    using that mhMatch_hdr hdr_isox_frame [of m bp]
    by (cases "m_hdr m")
      (auto simp: hdr_te_def hdr_ct_def hdr_cset_def Let_def split_beta intro!: upd split: list.split)
  have b: "Q (fst (fst x))" if "hdr_bnd True (m, bp) = Some x" "m_hdr m \<in> {MhdrMultipart, MhdrBndSkipParam, MhdrBndSpanWS}"
    using that mhMatch_hdr [of MhdrBndSkipParam MhdrIdle "m\<lparr>m_hdr := MhdrText\<rparr>" "''multipart''" bp]
    by (auto simp: hdr_bnd_def Let_def split_beta intro!: upd split: if_splits)
  have v: "Q (fst (fst x))" if h: "hdr_bnd True (m, bp) = Some x" "m_hdr m = MhdrBnd"
  proof -
    obtain m1 b1 r1 where mm: "mhMatch MhdrBndValue MhdrBndSkipParam ''boundary='' (m, bp) = ((m1, b1), r1)"
      by (metis prod.exhaust)
    then have "m_bnd m1 = m_bnd m" "m_nest m1 = m_nest m" "m_matches m1 = m_matches m" "\<not> r1 \<longrightarrow> m_hdr m1 \<noteq> MhdrBndValue"
      using h(2) by (auto simp: mhMatch_def Let_def split: if_splits)
    with h mm assms(3) show ?thesis
      by (cases r1) (auto simp: hdr_bnd_def Let_def bind_Some_iff Q_def hdr_counted_def)
  qed
  have w: "Q (fst (fst x))" if h: "hdr_bnd True (m, bp) = Some x" "m_hdr m = MhdrBndValue"
  proof -
    have n: "m_nest m = 0" "length (m_bnd m) = 3" "m_matches m = 1"
      using assms(2,3) h(2) by (auto simp: mime_ok_def hdr_counted_def)
    then obtain m1 b1 bp1 r1 where mm: "hdr_bndvalue m (m_bnd m ! 0) bp = Some ((m1, b1, bp1), r1)"
      using h by (auto simp: hdr_bnd_def bind_Some_iff)
    from hdr_bndvalue_frame [OF this] h n mm show ?thesis
      by (cases r1) (auto simp: hdr_bnd_def bind_Some_iff Q_def hdr_counted_def)
  qed
  consider "m_hdr m = MhdrIdle" | "hdr_bnd True (m, bp) = Some x" "m_hdr m = MhdrBnd"
    | "hdr_bnd True (m, bp) = Some x" "m_hdr m = MhdrBndValue"
    | "hdr_bnd True (m, bp) = Some x" "m_hdr m \<in> {MhdrMultipart, MhdrBndSkipParam, MhdrBndSpanWS}"
    | "x = hdr_te (m, bp) \<and> m_hdr m \<in> {MhdrCeCt, MhdrCe, MhdrCeWS, MhdrQP, MhdrB64}
      \<or> x = hdr_ct True (m, bp) \<and> m_hdr m \<in> {MhdrCt, MhdrCtWS, MhdrText, MhdrHTML}
      \<or> x = hdr_cset (m, bp) \<and> m_hdr m \<in> {MhdrCsetSkipParam, MhdrCsetSpanWS, MhdrCset, MhdrCsetISO8859, MhdrCsetISOX}"
    using assms(1) unfolding hdr_step_def by (cases "m_hdr m") simp_all
  then have "Q (fst (fst x))"
  proof cases
    case 1
    with assms(1,3) show ?thesis by (simp add: hdr_step_def Q_def) auto
  qed (use q b v w in auto)
  then show ?thesis by (simp add: Q_def)
qed

lemma hdr_loop_counted:
  "hdr_loop True s = Some m' \<Longrightarrow> mime_ok True (fst s) \<Longrightarrow> hdr_counted (fst s) \<Longrightarrow> hdr_counted m'"
proof (induction True s arbitrary: m' rule: hdr_loop.induct)
  case (1 s)
  obtain m bp where s: "s = (m, bp)" by (cases s)
  show ?case
  proof (cases "bp = []")
    case False
    obtain m1 bp1 r where st: "hdr_step True (m, bp) = Some ((m1, bp1), r)" "mime_ok True m1"
      using hdr_step_returns [OF _ False, of True m] "1.prems" (2) s by auto
    have c1: "hdr_counted m1" using hdr_step_counted [OF st(1)] "1.prems" s by simp
    have eq: "hdr_loop True s = (if r then Some m1 else hdr_loop True (m1, bp1))"
      using st(1) False by (subst hdr_loop.simps) (simp add: s)
    have ne: "snd s \<noteq> []" and st': "hdr_step True s = Some ((m1, bp1), r)" using s False st(1) by simp_all
    show ?thesis
      using "1.prems" (1) c1 st(2) "1.hyps" [OF ne st' refl, of m'] unfolding eq by (cases r) simp_all
  qed (use 1 s in \<open>simp add: hdr_loop.simps\<close>)
qed

lemma ckMimeHdr_counted:
  assumes "ckMimeHdr hdr m = Some m'" "mime_ok True m" "hdr_counted m"
  shows "hdr_counted m'"
proof -
  let ?m = "m\<lparr>m_hdr := MhdrCeCt, m_pos := 0\<rparr>"
  have m: "mime_ok True ?m" "hdr_counted ?m" using assms(2,3) by (auto simp: mime_ok_def in_bnd_def hdr_counted_def)
  have p: "parseMimeHdr b True a = map_option (\<lambda>m. (m, False)) (hdr_loop True (a, b))" for a b
    by (simp add: parseMimeHdr_def)
  from assms(1) obtain m1 where m1: "hdr_loop True (?m, hdr) = Some m1"
    by (auto simp: ckMimeHdr_def bind_Some_iff p)
  have ok1: "mime_ok True m1" "hdr_counted m1"
    using hdr_loop_returns [of True "(?m, hdr)"] m m1 hdr_loop_counted [OF m1] by auto
  obtain m2 where m2: "m2 = m1 \<or> hdr_loop True (m1, [0x0a]) = Some m2"
    "m' = m2\<lparr>m_mp := (if m_nest m2 \<noteq> 0 then MpPreamble else m_mp m2), m_bol := True\<rparr>"
  proof (cases "m_hdr m1 = MhdrIdle")
    case True
    with assms(1) m1 that [of m1] show thesis by (simp add: ckMimeHdr_def p)
  next
    case False
    with assms(1) m1 obtain m2 where "hdr_loop True (m1, [0x0a]) = Some m2" by (auto simp: ckMimeHdr_def p bind_Some_iff)
    with assms(1) m1 False that [of m2] show thesis by (simp add: ckMimeHdr_def p)
  qed
  have "hdr_counted m2" using m2(1) ok1 hdr_loop_counted [of "(m1, [0x0a])" m2] by auto
  with m2(2) show ?thesis by (simp add: hdr_counted_def)
qed

lemma header_fields_counted:
  "\<exists>m. fold_opt ckMimeHdr hdrs newMime = Some m \<and> mime_ok True m \<and> hdr_counted m"
proof (rule fold_opt_inv [where I = "\<lambda>m. mime_ok True m \<and> hdr_counted m", simplified conj_assoc])
  have "hdr_counted newMime" by (simp add: hdr_counted_def newMime_def decodersInit_def)
  with newMime_ok show "mime_ok True newMime \<and> hdr_counted newMime" by simp
next
  fix h m assume "mime_ok True m \<and> hdr_counted m"
  with ckMimeHdr_returns [of m h] ckMimeHdr_counted [of h m]
  show "\<exists>m'. ckMimeHdr h m = Some m' \<and> mime_ok True m' \<and> hdr_counted m'" by blast
qed

lemma counted_start:
  assumes "mime_ok True m" "hdr_counted m" "m_nest m \<noteq> 0"
  shows "counted m"
proof -
  have "m_nest m = 1" using assms(1,3) by (auto simp: mime_ok_def)
  moreover from this assms(2) have "live m = {0}" by (auto simp: live_def hdr_counted_def bnd_consts)
  ultimately show ?thesis using assms(2) by (simp add: counted_def hdr_counted_def)
qed

section \<open>A whole body\<close>

lemma fuz2_final_returns:
  "u_domStart u \<le> length (u_domsBuf u) \<Longrightarrow> fuz2_final f (Some u) \<noteq> None"
  by (simp add: fuz2_final_def Let_def del: not_None_eq)

lemma new_cks_ok: "I (newFuz1State, newURL) \<Longrightarrow> mime_ok i m \<Longrightarrow> cks_ok I i (newCks\<lparr>c_m := m\<rparr>)"
proof -
  assume "I (newFuz1State, newURL)" "mime_ok i m"
  moreover have "feeds newBodyState []" by (simp add: feeds_def newBodyState_def)
  ultimately show ?thesis using newFuz2_ok by (auto simp: cks_ok_def newCks_def body_ok_def)
qed

context line_sink
begin

lemma ckBody_returns:
  assumes "mime_ok True (c_m c)" "hdr_counted (c_m c)" "cks_ok I False c" "tbls_ok tbls"
    "A = UNIV \<or> m_nest (c_m c) = 0" "set bp \<subseteq> A" "clear_in A (c_m c)"
  shows "\<exists>c'. ckBody f1 tbls bp c = Some c' \<and> cks_ok I False c'"
proof (cases "m_nest (c_m c) = 0")
  case True
  with decodeSum_returns [OF assms(3,4,6,7)] show ?thesis by (auto simp: ckBody_def)
next
  case False
  then have "walk_ok I bp (c, 0, 0, length bp)" "walk_counted (c, 0, 0, length bp)" "A = UNIV"
    using assms counted_start by (auto simp: walk_ok_def walk_counted_def)
  from mp_walk_returns [OF this(1,2) assms(4) this(3)] False show ?thesis
    by (simp add: ckBody_def ckBodyMultipart_def)
qed

lemma computeBody_returns:
  assumes "mime_ok True (c_m c)" "hdr_counted (c_m c)" "cks_ok I False c" "tbls_ok tbls"
    "A = UNIV \<or> m_nest (c_m c) = 0" "set bp \<subseteq> A" "clear_in A (c_m c)"
  shows "\<exists>x. computeBody f1 tbls bp c = Some x"
proof -
  obtain c1 where c1: "ckBody f1 tbls bp c = Some c1" "cks_ok I False c1" using ckBody_returns [OF assms] by blast
  obtain c2 where c2: "sum_fuz1 f1 [0x0a] c1 = Some c2" "cks_ok I False c2"
    using sum_fuz1_returns [OF c1(2), of "[0x0a]"] newline by auto
  obtain c3 where c3: "sum_fuz2 tbls [0x0a] c2 = Some c3" "cks_ok I False c3"
    using sum_fuz2_returns [OF c2(2) assms(4)] by blast
  have "u_domStart (c_url c3) \<le> length (u_domsBuf (c_url c3))" using c3(2) names by (auto simp: cks_ok_def)
  then obtain r where "fuz2_final (c_fz2 c3) (Some (c_url c3)) = Some r"
    using fuz2_final_returns by blast
  with c1 c2 c3 show ?thesis by (simp add: computeBody_def)
qed

end

definition small_tbls :: "fuz2Tbl list" where
  "small_tbls = replicate 4 \<lparr>ft_words = [[3, 0x74, 0x68, 0x65]], ft_cset = None\<rparr>"

lemma small_tbls_ok: "tbls_ok small_tbls"
  by (simp add: small_tbls_def tbls_ok_def fuz2LangNum_def list_all_iff)

section \<open>Which lines are boundaries\<close>

text \<open>
  A boundary line of the text \<open>v\<close> at \<open>cmp\<close>: the text, both dashes of a final boundary or none,
  white space, and the line end at \<open>cp\<close>.
\<close>

definition dashes_at :: "bytes \<Rightarrow> nat \<Rightarrow> nat" where
  "dashes_at bp p = (if take 2 (drop p bp) = [0x2d, 0x2d] then 2 else 0)"

definition blank_to_eol :: "bytes \<Rightarrow> nat \<Rightarrow> nat \<Rightarrow> bool" where
  "blank_to_eol bp p cp \<longleftrightarrow> p \<le> cp \<and> cp < length bp \<and> bp ! cp = 0x0a \<and> (\<forall>i. p \<le> i \<and> i < cp \<longrightarrow> bnd_ws (bp ! i))"

definition boundary_line :: "bytes \<Rightarrow> bytes \<Rightarrow> nat \<Rightarrow> nat \<Rightarrow> bool" where
  "boundary_line v bp cmp cp \<longleftrightarrow> take (length v) (drop cmp bp) = v
     \<and> blank_to_eol bp (cmp + length v + dashes_at bp (cmp + length v)) cp"

lemma skip_ws_cases:
  assumes "cp + len = length bp" "0 < len"
  obtains cp' len' where "skip_ws bp cp len = Some (cp', len')" "cp < cp'" "cp' + len' = length bp"
    "\<forall>i. cp < i \<and> i < cp' \<longrightarrow> bnd_ws (bp ! i)" "cp' < length bp \<longrightarrow> \<not> bnd_ws (bp ! cp')"
proof -
  have "\<exists>cp' len'. skip_ws bp cp len = Some (cp', len') \<and> cp < cp' \<and> cp' + len' = length bp
    \<and> (\<forall>i. cp < i \<and> i < cp' \<longrightarrow> bnd_ws (bp ! i)) \<and> (cp' < length bp \<longrightarrow> \<not> bnd_ws (bp ! cp'))"
    using assms
  proof (induction bp cp len rule: skip_ws.induct)
    case (2 bp cp len)
    show ?case
    proof (cases "len = 0 \<or> \<not> bnd_ws (bp ! (cp + 1))")
      case True
      with "2.prems" show ?thesis by (cases "len = 0") auto
    next
      case False
      with "2.prems" have at: "idx bp (cp + 1) = Some (bp ! (cp + 1))" by simp
      with "2.IH" [OF _ at] "2.prems" False obtain cp' len' where
        "skip_ws bp (cp + 1) len = Some (cp', len')" "cp + 1 < cp'" "cp' + len' = length bp"
        "\<forall>i. cp + 1 < i \<and> i < cp' \<longrightarrow> bnd_ws (bp ! i)" "cp' < length bp \<longrightarrow> \<not> bnd_ws (bp ! cp')" by auto
      moreover from this False have "\<forall>i. cp < i \<and> i < cp' \<longrightarrow> bnd_ws (bp ! i)"
        by (metis add.commute less_antisym not_less_eq plus_1_eq_Suc)
      ultimately show ?thesis using at False by (intro exI [of _ cp'] exI [of _ len']) simp
    qed
  qed simp
  with that show thesis by blast
qed

lemma newline_not_ws: "\<not> bnd_ws 0x0a"
  by (simp add: bnd_ws_def)

lemma blank_to_eol_here: "p < length bp \<Longrightarrow> \<not> bnd_ws (bp ! p) \<Longrightarrow> blank_to_eol bp p cp \<longleftrightarrow> cp = p \<and> bp ! p = 0x0a"
  unfolding blank_to_eol_def by (metis le_neq_implies_less le_refl not_le)

lemma bnd_eol_found:
  assumes "cp0 + len = length bp" "0 < len"
  shows "bnd_eol bp cp0 len b = Some (b', BndFound cp) \<longleftrightarrow> blank_to_eol bp cp0 cp \<and> b' = b"
proof (cases "bnd_ws (bp ! cp0)")
  case False
  have "cp0 < length bp" using assms by simp
  with False blank_to_eol_here [OF this False] show ?thesis by (auto simp: bnd_eol_def bnd_miss_def)
next
  case True
  have cp0: "cp0 < length bp" using assms by simp
  obtain cp' len' where s: "skip_ws bp cp0 len = Some (cp', len')" "cp0 < cp'" "cp' + len' = length bp"
    "\<forall>i. cp0 < i \<and> i < cp' \<longrightarrow> bnd_ws (bp ! i)" "cp' < length bp \<longrightarrow> \<not> bnd_ws (bp ! cp')"
    by (rule skip_ws_cases [OF assms])
  have b: "blank_to_eol bp cp0 cp \<longleftrightarrow> blank_to_eol bp cp' cp"
  proof
    assume l: "blank_to_eol bp cp0 cp"
    then have "\<not> bnd_ws (bp ! cp)" by (simp add: blank_to_eol_def newline_not_ws)
    with s(4) True have "cp' \<le> cp" using l by (metis blank_to_eol_def le_neq_implies_less not_le)
    with l s(2) show "blank_to_eol bp cp' cp" by (simp add: blank_to_eol_def)
  next
    assume r: "blank_to_eol bp cp' cp"
    with s(2,4) True show "blank_to_eol bp cp0 cp"
      by (simp add: blank_to_eol_def) (metis le_neq_implies_less not_le)
  qed
  show ?thesis
  proof (cases "len' = 0")
    case True
    then have "\<not> blank_to_eol bp cp' cp" using s(3) by (simp add: blank_to_eol_def)
    with True \<open>bnd_ws (bp ! cp0)\<close> cp0 s(1) b show ?thesis by (simp add: bnd_eol_def)
  next
    case False
    then have "cp' < length bp" using s(3) by simp
    with False True cp0 s(1,5) b blank_to_eol_here [of cp' bp cp] show ?thesis
      by (auto simp: bnd_eol_def bnd_miss_def)
  qed
qed

lemma take2_drop: "cp + 1 < length bp \<Longrightarrow> take 2 (drop cp bp) = [bp ! cp, bp ! (cp + 1)]"
  by (simp add: Cons_nth_drop_Suc [symmetric] numeral_2_eq_2)

lemma dashes_at_none: "bp ! p \<noteq> 0x2d \<Longrightarrow> p < length bp \<Longrightarrow> dashes_at bp p = 0"
  by (cases "drop p bp") (auto simp: dashes_at_def numeral_2_eq_2 nth_via_drop)

lemma dashes_at_two: "cp + 1 < length bp \<Longrightarrow> dashes_at bp cp = (if bp ! cp = 0x2d \<and> bp ! (cp + 1) = 0x2d then 2 else 0)"
  by (auto simp: dashes_at_def take2_drop)

lemma bnd_dash_found:
  assumes "cp0 + len = length bp" "0 < len" "bnd_ok b" "bn_cmp b = bn_len b"
  shows "bnd_dash bp cp0 len 0 b = Some (b', BndFound cp) \<longleftrightarrow>
    blank_to_eol bp (cp0 + dashes_at bp cp0) cp \<and> b' = b\<lparr>bn_cmp := bn_len b + dashes_at bp cp0\<rparr>"
proof -
  have cp0: "cp0 < length bp" using assms(1,2) by simp
  have same: "b\<lparr>bn_cmp := bn_len b\<rparr> = b" using assms(4) by simp
  have dash: "\<not> bnd_ws 0x2d" "(0x2d :: byte) \<noteq> 0x0a" by (simp_all add: bnd_ws_def)
  show ?thesis
  proof (cases "bp ! cp0 = 0x2d")
    case False
    with cp0 dashes_at_none [OF False cp0] bnd_eol_found [OF assms(1,2), of b b' cp] same show ?thesis
      by (simp add: bnd_dash_def)
  next
    case True
    have no: "\<not> blank_to_eol bp cp0 cp" using blank_to_eol_here [OF cp0] True dash by simp
    show ?thesis
    proof (cases "len - 1 = 0")
      case True
      then have "drop (cp0 + 1) bp = []" using assms(1) by simp
      then have "dashes_at bp cp0 = 0" using cp0 by (simp add: dashes_at_def Cons_nth_drop_Suc [symmetric] numeral_2_eq_2)
      with True no \<open>bp ! cp0 = 0x2d\<close> cp0 show ?thesis by (simp add: bnd_dash_def Let_def)
    next
      case False
      then have cp1: "cp0 + 1 < length bp" using assms(1) by simp
      let ?b = "b\<lparr>bn_cmp := bn_cmp b + 1\<rparr>"
      have step: "bnd_dash bp cp0 len 0 b = bnd_dash2 bp (cp0 + 1) (len - 1) ?b"
        using True False cp0 by (simp add: bnd_dash_def Let_def)
      show ?thesis
      proof (cases "bp ! (cp0 + 1) = 0x2d")
        case False
        with True cp1 no step dashes_at_two [OF cp1] show ?thesis by (simp add: bnd_dash2_def bnd_miss_def)
      next
        case d2: True
        have da: "dashes_at bp cp0 = 2" using True d2 dashes_at_two [OF cp1] by simp
        show ?thesis
        proof (cases "len - 1 - 1 = 0")
          case t: True
          then have "length bp \<le> cp0 + 2" using assms(1) by simp
          then have "\<not> blank_to_eol bp (cp0 + 2) cp" by (simp add: blank_to_eol_def)
          with step d2 cp1 t da show ?thesis by (simp add: bnd_dash2_def Let_def)
        next
          case f: False
          then have "cp0 + 2 + (len - Suc (Suc 0)) = length bp" "0 < len - Suc (Suc 0)" using assms(1) by auto
          from bnd_eol_found [OF this, of "b\<lparr>bn_cmp := bn_len b + 2\<rparr>" b' cp] step d2 cp1 f da assms(4) show ?thesis
            by (simp add: bnd_dash2_def Let_def)
        qed
      qed
    qed
  qed
qed

text \<open>
  C13. At the start of a line the matcher finds a boundary exactly on the lines that are one:
  the text of the boundary, both dashes of a final boundary or none, then only blanks, tabs and
  carriage returns up to the line end; and it tells the two kinds apart by the progress it has
  recorded.
\<close>

theorem boundary_found:
  assumes "bnd_ok b" "bn_cmp b = 0" "0 < bn_len b" "cmp < length bp"
  shows "match_bnd bp cmp (length bp - cmp) b = Some (b', BndFound cp) \<longleftrightarrow>
    boundary_line (take (bn_len b) (bn_bnd b)) bp cmp cp
    \<and> b' = b\<lparr>bn_cmp := bn_len b + dashes_at bp (cmp + bn_len b)\<rparr>"
proof -
  let ?v = "take (bn_len b) (bn_bnd b)"
  define k where "k = min (bn_len b) (length bp - cmp)"
  have len: "bn_len b \<le> length (bn_bnd b)" "length ?v = bn_len b" using assms(1) by (auto simp: bnd_ok_def)
  have k: "0 < k" "cmp + k \<le> length bp" using assms(3,4) by (auto simp: k_def)
  have j: "min (int (bn_len b) - int 0) (int (length bp - cmp)) = int k" by (simp add: k_def)
  have eq: "match_bnd bp cmp (length bp - cmp) b =
    (if take k (drop cmp bp) \<noteq> take k (bn_bnd b) then Some (bnd_miss b)
     else if length bp - cmp - k = 0 then Some (b\<lparr>bn_cmp := k\<rparr>, BndMore)
     else bnd_dash bp (cmp + k) (length bp - cmp - k) 0 (b\<lparr>bn_cmp := k\<rparr>))"
    using assms(2) k len j by (simp add: match_bnd_def Let_def bnd_consts k_def)
  show ?thesis
  proof (cases "bn_len b < length bp - cmp")
    case False
    then have "\<not> boundary_line ?v bp cmp cp" using len by (auto simp: boundary_line_def blank_to_eol_def)
    moreover have "length bp - cmp - k = 0" using False by (simp add: k_def)
    ultimately show ?thesis unfolding eq by (auto simp: bnd_miss_def)
  next
    case True
    then have kb: "k = bn_len b" by (simp add: k_def)
    let ?b = "b\<lparr>bn_cmp := bn_len b\<rparr>"
    have "bnd_ok ?b" using bnd_ok_cmp [OF assms(1), of "bn_len b"] by simp
    from bnd_dash_found [OF _ _ this, of "cmp + bn_len b" "length bp - cmp - bn_len b" bp b' cp] True k
    show ?thesis unfolding eq kb boundary_line_def len(2) by (auto simp: bnd_miss_def)
  qed
qed

definition sample_bnd :: ckBnd where
  "sample_bnd = \<lparr>bn_len = 3, bn_cmp = 0, bn_bnd = str ''--x'' @ replicate 93 0\<rparr>"

theorem boundary_found_witness:
  "match_bnd (str ''--x-- '' @ [0x0a]) 0 (length (str ''--x-- '' @ [0x0a]) - 0) sample_bnd
     = Some (sample_bnd\<lparr>bn_cmp := 5\<rparr>, BndFound 6)"
proof (rule iffD2 [OF boundary_found])
  show "boundary_line (take (bn_len sample_bnd) (bn_bnd sample_bnd)) (str ''--x-- '' @ [0x0a]) 0 6
    \<and> sample_bnd\<lparr>bn_cmp := 5\<rparr> = sample_bnd\<lparr>bn_cmp := bn_len sample_bnd + dashes_at (str ''--x-- '' @ [0x0a]) (0 + bn_len sample_bnd)\<rparr>"
    by (auto simp: boundary_line_def blank_to_eol_def dashes_at_def sample_bnd_def str_def bnd_ws_def less_Suc_eq numeral_eq_Suc)
qed (simp_all add: bnd_ok_def sample_bnd_def)

text \<open>The bytes the body checksum has accepted of a message with one header field.\<close>

definition body_letters :: "bytes \<Rightarrow> bytes \<Rightarrow> bytes option" where
  "body_letters hdr body = do {
     m \<leftarrow> fold_opt ckMimeHdr [hdr] newMime;
     c \<leftarrow> ckBody fuz1 small_tbls body (newCks\<lparr>c_m := m\<rparr>);
     Some (b_buf (c_body c))
   }"

definition mixed_hdr :: bytes where
  "mixed_hdr = str ''Content-Type: multipart/mixed; boundary=x'' @ [0x0a]"

text \<open>
  A boundary line that ends with the message and not with a line end is neither matched nor
  summed: the two bodies differ only in the last line end, which the body checksum ignores,
  and yet what it covers differs, because the text of the last boundary is left out.
\<close>

theorem unterminated_boundary_dropped:
  "body_letters mixed_hdr (str ''Hi'' @ [0x0a] @ str ''--x--'') = Some (str ''Hi'')
   \<and> body_letters mixed_hdr (str ''Hi'' @ [0x0a] @ str ''--x--'' @ [0x0a]) = Some (str ''Hi--x--'')"
  by code_simp

end
