(* ===== verification/Message.thy ===== *)
theory Message
  imports Multipart_Specs Header_Ck
begin

text \<open>
  \<^verbatim>\<open>dcc/message.go\<close>: a raw message is split into its unfolded header fields and its body, and
  \<open>Checksums\<close> computes the checksums in the order \<^verbatim>\<open>dccproc -C\<close> prints them.

  In Go a field is a slice of the message, and a continuation line is joined to the field
  before it by extending that slice; so a field is a start and a length here, and the
  extension is checked against the message.
\<close>

section \<open>Header and body\<close>

definition isBlankLine :: "bytes \<Rightarrow> bool" where
  "isBlankLine line \<longleftrightarrow> line = [] \<or> line = [0x0a] \<or> line = [0x0d, 0x0a]"

text \<open>\<^verbatim>\<open>bytes.IndexByte\<close>, \<open>None\<close> where Go returns -1.\<close>

definition index_byte :: "bytes \<Rightarrow> byte \<Rightarrow> nat option" where
  "index_byte s b = (let k = length (takeWhile (\<lambda>c. c \<noteq> b) s) in if k < length s then Some k else None)"

definition line_end :: "bytes \<Rightarrow> nat \<Rightarrow> nat" where
  "line_end msg i = (case index_byte (drop i msg) 0x0a of None \<Rightarrow> length msg | Some nl \<Rightarrow> i + nl + 1)"

lemma index_byte_less: "index_byte s b = Some k \<Longrightarrow> k < length s"
  by (auto simp: index_byte_def Let_def split: if_splits)

lemma line_end_bounds: "i < length msg \<Longrightarrow> i < line_end msg i \<and> line_end msg i \<le> length msg"
  by (auto simp: line_end_def split: option.split dest!: index_byte_less)

definition lead_ws :: "bytes \<Rightarrow> bool" where
  "lead_ws line \<longleftrightarrow> hd line = 0x20 \<or> hd line = 0x09"

function split_loop :: "bytes \<Rightarrow> nat \<Rightarrow> (nat \<times> nat) list \<Rightarrow> ((nat \<times> nat) list \<times> bytes) option" where
  "split_loop msg i flds =
     (if i \<ge> length msg then Some (flds, [])
      else let e = line_end msg i; line = take (e - i) (drop i msg)
        in if isBlankLine line then Some (flds, drop e msg)
           else if flds \<noteq> [] \<and> lead_ws line then
             (case last flds of (s, l) \<Rightarrow>
                if s + (l + length line) \<le> length msg
                then split_loop msg e (butlast flds @ [(s, l + length line)]) else None)
           else split_loop msg e (flds @ [(i, length line)]))"
  by pat_completeness auto
termination
  by (relation "measure (\<lambda>(msg, i, flds). length msg - i)")
    (auto simp: not_le dest: line_end_bounds)

declare split_loop.simps [simp del]

definition splitHeadersBody :: "bytes \<Rightarrow> (bytes list \<times> bytes) option" where
  "splitHeadersBody msg = do {
     (flds, body) \<leftarrow> split_loop msg 0 [];
     Some (map (\<lambda>(s, l). take l (drop s msg)) flds, body)
   }"

section \<open>Header fields\<close>

definition hasPrefixFold :: "bytes \<Rightarrow> string \<Rightarrow> bool" where
  "hasPrefixFold b prefix \<longleftrightarrow>
     length prefix \<le> length b \<and> map toLower (take (length prefix) b) = map toLower (str prefix)"

definition drop_eol :: "bytes \<Rightarrow> bytes" where
  "drop_eol v = rev (dropWhile (\<lambda>c. c = 0x0d \<or> c = 0x0a) (rev v))"

definition parseReturnPath :: "bytes \<Rightarrow> bytes option" where
  "parseReturnPath f =
     (if \<not> hasPrefixFold f ''Return-Path:'' then None
      else let v = drop_eol (dropWhile (\<lambda>c. c = 0x20 \<or> c = 0x09) (drop 12 f))
        in if v = [] then None else Some v)"

definition parseUnixFrom :: "bytes \<Rightarrow> bytes option" where
  "parseUnixFrom f =
     (if length f < 5 \<or> take 5 f \<noteq> str ''From '' then None
      else let v = dropWhile (\<lambda>c. c = 0x20) (drop 5 f)
        in case index_byte v 0x20 of
             None \<Rightarrow> None
           | Some sp \<Rightarrow> if sp = 0 then None else Some (take sp v))"

record hdrSums =
  h_from :: "Sum option"
  h_msgID :: "Sum option"
  h_recv :: "Sum option"
  h_env :: "bytes option"

definition no_sums :: hdrSums where
  "no_sums = \<lparr>h_from = None, h_msgID = None, h_recv = None, h_env = None\<rparr>"

text \<open>The loop body of \<^verbatim>\<open>Checksums\<close> for field number \<open>i\<close>, apart from \<^verbatim>\<open>ckMimeHdr\<close>.\<close>

definition field_sum :: "bytes \<Rightarrow> hdrSums \<Rightarrow> hdrSums" where
  "field_sum f h =
     (if hasPrefixFold f ''From:'' then h\<lparr>h_from := Some (str2ck [] (drop 5 f))\<rparr>
      else if hasPrefixFold f ''Message-ID:'' then h\<lparr>h_msgID := Some (str2ck [] (drop 11 f))\<rparr>
      else if hasPrefixFold f ''Received:'' then h\<lparr>h_recv := Some (str2ck [] (drop 9 f))\<rparr>
      else h)"

definition field_env :: "nat \<Rightarrow> bytes \<Rightarrow> hdrSums \<Rightarrow> hdrSums" where
  "field_env i f h =
     (if h_env h \<noteq> None then h
      else let h = (if i = 0 then (case parseUnixFrom f of Some v \<Rightarrow> h\<lparr>h_env := Some v\<rparr> | None \<Rightarrow> h) else h)
        in if h_env h \<noteq> None then h
           else (case parseReturnPath f of Some v \<Rightarrow> h\<lparr>h_env := Some v\<rparr> | None \<Rightarrow> h))"

definition field_step :: "nat \<times> bytes \<Rightarrow> mime \<times> hdrSums \<Rightarrow> (mime \<times> hdrSums) option" where
  "field_step x s = (case x of (i, f) \<Rightarrow> case s of (m, h) \<Rightarrow> do {
     m \<leftarrow> ckMimeHdr f m;
     Some (m, field_env i f (field_sum f h))
   })"

section \<open>The checksums of a message\<close>

definition add_ck :: "CkType \<Rightarrow> Sum \<Rightarrow> bool \<Rightarrow> Checksum" where
  "add_ck t s report = \<lparr>ck_Type = t, ck_Label = label t, ck_Sum = s, ck_Report = report\<rparr>"

definition opt_ck :: "CkType \<Rightarrow> Sum option \<Rightarrow> Checksum list" where
  "opt_ck t s = (case s of None \<Rightarrow> [] | Some v \<Rightarrow> [add_ck t v True])"

definition valid_ck :: "CkType \<Rightarrow> Sum \<times> bool \<Rightarrow> Checksum list" where
  "valid_ck t s = (if snd s then [add_ck t (fst s) True] else [])"

definition Checksums_with :: "fuz1Op \<Rightarrow> fuz2Tbl list \<Rightarrow> bytes \<Rightarrow> Checksum list option" where
  "Checksums_with f1 tbls msg = do {
     (flds, body) \<leftarrow> splitHeadersBody msg;
     (m, h) \<leftarrow> fold_opt field_step (enumerate 0 flds) (newMime, no_sums);
     let msgID = (case h_msgID h of Some s \<Rightarrow> s | None \<Rightarrow> str2ck [] []);
     (b, z1, z2) \<leftarrow> computeBody f1 tbls body (newCks\<lparr>c_m := m\<rparr>);
     Some (opt_ck CkEnvFrom (map_option (str2ck []) (h_env h))
           @ opt_ck CkFrom (h_from h)
           @ [add_ck CkMessageID msgID (h_msgID h \<noteq> None)]
           @ opt_ck CkReceived (h_recv h)
           @ valid_ck CkBody b @ valid_ck CkFuz1 z1 @ valid_ck CkFuz2 z2)
   }"

definition Checksums :: "fuz2Tbl list \<Rightarrow> bytes \<Rightarrow> Checksum list option" where
  "Checksums = Checksums_with fuz1"

end
