(* ===== verification/Fuz1_Crash.thy ===== *)
theory Fuz1_Crash
  imports Fuz1
begin

text \<open>
  A body on which Fuz1 panics.  Inside the host name the reference decoder swallows the line
  end after \<^verbatim>\<open>&\<close>, so the URL goes on while \<^verbatim>\<open>eol\<close> is set; removing the third-level label then
  moves the end of the buffer before \<^verbatim>\<open>eol\<close>, and when the next URL asks for space the slice
  \<^verbatim>\<open>f.buf[f.eol:cp]\<close> is inverted.
\<close>

definition crash_body :: bytes where
  "crash_body = str ''http://'' @ replicate 57 0x61 @ str ''.b.c&'' @ [0x0a] @ str ''d/ ''
     @ replicate 50 0x61 @ str '' http://''"

lemma crash_value: "fuz1 0 crash_body (newFuz1State, newURL) = None"
  by code_simp

text \<open>
  The 131 bytes of \<open>crash_body\<close>, which hold nothing but letters, dots, slashes, a line end
  and one ampersand, make \<^verbatim>\<open>fuz1\<close> panic from its initial state.
\<close>

theorem fuz1_crash: "fuz1 0 crash_body (newFuz1State, newURL) = None"
  by (rule crash_value)

end
