(* ===== verification/Message_Props.thy ===== *)
theory Message_Props
  imports Message Fuz1_Crash
begin

text \<open>
  What holds of \<open>splitHeadersBody\<close> and \<open>Checksums\<close>: the split loses nothing and inverts the
  layout of a message; the header values picked; the shape of the result; and on which
  messages \<open>Checksums\<close> cannot panic.
\<close>

section \<open>The split, on texts\<close>

function join_lines :: "bytes list \<Rightarrow> bytes \<Rightarrow> bytes list \<times> bytes" where
  "join_lines acc rest =
     (if rest = [] then (acc, [])
      else let k = line_end rest 0; line = take k rest; r = drop k rest
        in if isBlankLine line then (acc, r)
           else if acc \<noteq> [] \<and> lead_ws line then join_lines (butlast acc @ [last acc @ line]) r
           else join_lines (acc @ [line]) r)"
  by pat_completeness auto
termination
  by (relation "measure (\<lambda>(acc, rest). length rest)")
    (use line_end_bounds [of 0] in \<open>fastforce simp: Let_def\<close>)+

declare join_lines.simps [simp del]

definition field_text :: "bytes \<Rightarrow> nat \<times> nat \<Rightarrow> bytes" where
  "field_text msg x = take (snd x) (drop (fst x) msg)"

lemma line_end_drop: "i < length msg \<Longrightarrow> line_end msg i = i + line_end (drop i msg) 0"
  by (auto simp: line_end_def split: option.split)

lemma split_loop_join:
  assumes "i \<le> length msg" "flds \<noteq> [] \<Longrightarrow> fst (last flds) + snd (last flds) = i"
  shows "\<exists>f. split_loop msg i flds = Some (f, snd (join_lines (map (field_text msg) flds) (drop i msg)))
    \<and> map (field_text msg) f = fst (join_lines (map (field_text msg) flds) (drop i msg))"
  using assms
proof (induction msg i flds rule: split_loop.induct)
  case (1 msg i flds)
  show ?case
  proof (cases "i \<ge> length msg")
    case True
    then show ?thesis by (simp add: split_loop.simps join_lines.simps)
  next
    case False
    define e where "e = line_end msg i"
    define line where "line = take (e - i) (drop i msg)"
    have e: "i < e" "e \<le> length msg" "line_end (drop i msg) 0 = e - i" and len: "length line = e - i"
      using line_end_bounds [of i msg] line_end_drop [of i msg] False by (auto simp: e_def line_def)
    have rest: "drop i msg \<noteq> []" "drop (e - i) (drop i msg) = drop e msg" using False e by simp_all
    consider "isBlankLine line" | "\<not> isBlankLine line" "flds \<noteq> [] \<and> lead_ws line"
      | "\<not> isBlankLine line" "\<not> (flds \<noteq> [] \<and> lead_ws line)" by blast
    then show ?thesis
    proof cases
      case 1
      then show ?thesis using False e rest
        by (subst split_loop.simps, subst (1 2) join_lines.simps) (simp add: e_def [symmetric] line_def [symmetric] Let_def)
    next
      case 2
      obtain s l where sl: "last flds = (s, l)" by (cases "last flds")
      have si: "s + l = i" using "1.prems" (2) 2(2) sl by simp
      let ?f = "butlast flds @ [(s, l + length line)]"
      have "field_text msg (s, l + length line) = field_text msg (s, l) @ line"
        unfolding len using si by (simp add: field_text_def line_def take_add add.commute)
      then have tx: "map (field_text msg) ?f
          = butlast (map (field_text msg) flds) @ [last (map (field_text msg) flds) @ line]"
        using 2(2) sl by (simp add: map_butlast last_map)
      have "s + (l + length line) \<le> length msg" using si len e by simp
      then have st: "split_loop msg i flds = split_loop msg e ?f"
        using False 2 sl by (subst split_loop.simps) (simp add: e_def [symmetric] line_def [symmetric] Let_def)
      have jn: "join_lines (map (field_text msg) flds) (drop i msg) = join_lines (map (field_text msg) ?f) (drop e msg)"
        unfolding tx using 2 e rest by (subst join_lines.simps) (simp add: line_def [symmetric] Let_def)
      have "\<exists>f. split_loop msg e ?f = Some (f, snd (join_lines (map (field_text msg) ?f) (drop e msg)))
        \<and> map (field_text msg) f = fst (join_lines (map (field_text msg) ?f) (drop e msg))"
        by (rule "1.IH" (1) [OF False e_def line_def 2 sl [symmetric]]) (use si len e in auto)
      then show ?thesis unfolding st jn .
    next
      case 3
      let ?f = "flds @ [(i, length line)]"
      have tx: "map (field_text msg) ?f = map (field_text msg) flds @ [line]"
        using len by (simp add: field_text_def line_def)
      have st: "split_loop msg i flds = split_loop msg e ?f"
        using False 3 by (subst split_loop.simps) (auto simp: e_def [symmetric] line_def [symmetric] Let_def)
      have jn: "join_lines (map (field_text msg) flds) (drop i msg) = join_lines (map (field_text msg) ?f) (drop e msg)"
        unfolding tx using 3 e rest by (subst join_lines.simps) (auto simp: line_def [symmetric] Let_def)
      have "\<exists>f. split_loop msg e ?f = Some (f, snd (join_lines (map (field_text msg) ?f) (drop e msg)))
        \<and> map (field_text msg) f = fst (join_lines (map (field_text msg) ?f) (drop e msg))"
        by (rule "1.IH" (2) [OF False e_def line_def 3]) (use len e in auto)
      then show ?thesis unfolding st jn .
    qed
  qed
qed

lemma splitHeadersBody_join: "splitHeadersBody msg = Some (join_lines [] msg)"
proof -
  have ft: "(\<lambda>(s, l). take l (drop s msg)) = field_text msg" by (auto simp: field_text_def)
  show ?thesis
    using split_loop_join [of 0 msg "[]"] unfolding splitHeadersBody_def ft
    by (cases "join_lines [] msg") auto
qed

section \<open>Nothing is lost\<close>

lemma join_lines_concat:
  "\<exists>sep. sep \<in> {[], [0x0a], [0x0d, 0x0a]} \<and> concat acc @ rest = concat (fst (join_lines acc rest)) @ sep @ snd (join_lines acc rest)
     \<and> (sep = [] \<longrightarrow> snd (join_lines acc rest) = [])"
proof (induction acc rest rule: join_lines.induct)
  case (1 acc rest)
  show ?case
  proof (cases "rest = []")
    case False
    define k where "k = line_end rest 0"
    have k: "0 < k" "k \<le> length rest" using line_end_bounds [of 0 rest] False by (auto simp: k_def)
    have split: "rest = take k rest @ drop k rest" by simp
    have ne: "take k rest \<noteq> []" using k False by auto
    consider "isBlankLine (take k rest)" | "\<not> isBlankLine (take k rest)" "acc \<noteq> [] \<and> lead_ws (take k rest)"
      | "\<not> isBlankLine (take k rest)" "\<not> (acc \<noteq> [] \<and> lead_ws (take k rest))" by blast
    then show ?thesis
    proof cases
      case 1
      then have "join_lines acc rest = (acc, drop k rest)"
        using False by (subst join_lines.simps) (simp add: k_def Let_def)
      with 1 ne split show ?thesis unfolding isBlankLine_def by (metis fst_conv insertCI snd_conv)
    next
      case 2
      have "join_lines acc rest = join_lines (butlast acc @ [last acc @ take k rest]) (drop k rest)"
        using False 2 by (subst join_lines.simps) (simp add: k_def Let_def)
      moreover have "concat (butlast acc @ [last acc @ take k rest]) @ drop k rest = concat acc @ rest"
        using 2(2) by (metis append_assoc append_butlast_last_id append_take_drop_id concat.simps concat_append append_Nil2)
      ultimately show ?thesis using "1.IH" (1) [OF False k_def refl refl 2] by metis
    next
      case 3
      have "join_lines acc rest = join_lines (acc @ [take k rest]) (drop k rest)"
        using False 3 by (subst join_lines.simps) (auto simp: k_def Let_def)
      moreover have "concat (acc @ [take k rest]) @ drop k rest = concat acc @ rest" by simp
      ultimately show ?thesis using "1.IH" (2) [OF False k_def refl refl 3] by metis
    qed
  qed (simp add: join_lines.simps)
qed

text \<open>
  C29. \<^verbatim>\<open>splitHeadersBody\<close> never panics and loses nothing: the fields, the blank line and the
  body put together are the message, and only a message without a blank line has no body.
\<close>

theorem split_loses_nothing:
  "\<exists>flds sep body. splitHeadersBody msg = Some (flds, body) \<and> msg = concat flds @ sep @ body
     \<and> sep \<in> {[], [0x0a], [0x0d, 0x0a]} \<and> \<not> (sep = [] \<and> body \<noteq> [])"
  using join_lines_concat [of "[]" msg] by (cases "join_lines [] msg") (auto simp: splitHeadersBody_join)

section \<open>The layout of a message\<close>

text \<open>A header field: a line that does not start with white space, and continuation lines that do.\<close>

definition phys_line :: "bytes \<Rightarrow> bool" where
  "phys_line l \<longleftrightarrow> l \<noteq> [] \<and> last l = 0x0a \<and> 0x0a \<notin> set (butlast l) \<and> \<not> isBlankLine l"

inductive hdr_field :: "bytes \<Rightarrow> bool" where
  Start: "phys_line l \<Longrightarrow> \<not> lead_ws l \<Longrightarrow> hdr_field l"
| Continue: "hdr_field f \<Longrightarrow> phys_line l \<Longrightarrow> lead_ws l \<Longrightarrow> hdr_field (f @ l)"

lemma line_end_phys:
  assumes "l \<noteq> []" "last l = 0x0a" "0x0a \<notin> set (butlast l)"
  shows "line_end (l @ r) 0 = length l"
proof -
  have l: "l = butlast l @ [0x0a]" using assms(1,2) by (metis append_butlast_last_id)
  have "takeWhile (\<lambda>c. c \<noteq> 0x0a) (butlast l @ 0x0a # r) = butlast l"
    using assms(3) by (subst takeWhile_append2) auto
  then have "takeWhile (\<lambda>c. c \<noteq> 0x0a) (l @ r) = butlast l" by (subst l) simp
  moreover have "length l - Suc 0 < length l + length r" using assms(1) by (cases l) auto
  ultimately show ?thesis using assms(1) by (simp add: line_end_def index_byte_def Let_def)
qed

lemma join_step:
  assumes "phys_line l"
  shows "join_lines acc (l @ r) = (if acc \<noteq> [] \<and> lead_ws l then join_lines (butlast acc @ [last acc @ l]) r
    else join_lines (acc @ [l]) r)"
  using assms line_end_phys [of l r] by (subst join_lines.simps) (simp add: phys_line_def Let_def)

lemma join_field: "hdr_field f \<Longrightarrow> join_lines acc (f @ r) = join_lines (acc @ [f]) r"
  by (induction arbitrary: r rule: hdr_field.induct) (simp_all add: join_step)

lemma join_fields: "list_all hdr_field fs \<Longrightarrow> join_lines acc (concat fs @ r) = join_lines (acc @ fs) r"
  by (induction fs arbitrary: acc) (simp_all add: join_field)

lemma join_layout:
  assumes "list_all hdr_field fs" "sep = [0x0a] \<or> sep = [0x0d, 0x0a]"
  shows "join_lines [] (concat fs @ sep @ body) = (fs, body)"
proof -
  have "line_end (sep @ body) 0 = length sep" using assms(2) by (auto intro: line_end_phys)
  moreover have "isBlankLine sep" "sep \<noteq> []" using assms(2) by (auto simp: isBlankLine_def)
  ultimately have "join_lines fs (sep @ body) = (fs, body)" by (subst join_lines.simps) (simp add: Let_def)
  with join_fields [OF assms(1), of "[]" "sep @ body"] show ?thesis by simp
qed

text \<open>
  C27. The split inverts the layout: for any header fields, folded over lines or not, a blank
  line in either form and any body, \<^verbatim>\<open>splitHeadersBody\<close> gives the fields and the body back.
\<close>

theorem split_inverts_layout:
  assumes "list_all hdr_field fs" "sep = [0x0a] \<or> sep = [0x0d, 0x0a]"
  shows "splitHeadersBody (concat fs @ sep @ body) = Some (fs, body)"
  by (simp add: splitHeadersBody_join join_layout [OF assms])

theorem split_inverts_layout_witness:
  "splitHeadersBody (concat [str ''A: b'' @ [0x0a] @ str '' c'' @ [0x0a]] @ [0x0d, 0x0a] @ str ''x'')
     = Some ([str ''A: b'' @ [0x0a] @ str '' c'' @ [0x0a]], str ''x'')"
proof (rule split_inverts_layout)
  have l: "phys_line (str ''A: b'' @ [0x0a])" "phys_line (str '' c'' @ [0x0a])"
    by (simp_all add: phys_line_def isBlankLine_def str_def)
  have "hdr_field ((str ''A: b'' @ [0x0a]) @ str '' c'' @ [0x0a])"
    by (intro hdr_field.intros l) (simp_all add: lead_ws_def str_def)
  then show "list_all hdr_field [str ''A: b'' @ [0x0a] @ str '' c'' @ [0x0a]]" by simp
qed simp

section \<open>The header values\<close>

definition hdr_value :: "string \<Rightarrow> bytes list \<Rightarrow> Sum option" where
  "hdr_value p fs = (let l = filter (\<lambda>f. hasPrefixFold f p) fs
     in if l = [] then None else Some (str2ck [] (drop (length p) (last l))))"

text \<open>The sender of the envelope: the mbox line at the top, or else the first usable Return-Path.\<close>

fun first_path :: "bytes list \<Rightarrow> bytes option" where
  "first_path [] = None"
| "first_path (f # fs) = (case parseReturnPath f of Some v \<Rightarrow> Some v | None \<Rightarrow> first_path fs)"

definition envelope :: "bytes list \<Rightarrow> bytes option" where
  "envelope fs = (case fs of [] \<Rightarrow> None
     | f # _ \<Rightarrow> (case parseUnixFrom f of Some v \<Rightarrow> Some v | None \<Rightarrow> first_path fs))"

lemma first_path_snoc: "first_path (fs @ [f]) = (case first_path fs of Some v \<Rightarrow> Some v | None \<Rightarrow> parseReturnPath f)"
  by (induction fs) (auto split: option.split)

lemma envelope_snoc:
  "envelope (fs @ [f]) = (case envelope fs of Some v \<Rightarrow> Some v
     | None \<Rightarrow> (case (if fs = [] then parseUnixFrom f else None) of Some v \<Rightarrow> Some v | None \<Rightarrow> parseReturnPath f))"
  by (cases fs) (auto simp: envelope_def first_path_snoc [of "_ # _", simplified] split: option.split)

lemma prefix_first: "hasPrefixFold f (c # p) \<Longrightarrow> toLower (hd f) = toLower (of_char c)"
  by (cases f) (auto simp: hasPrefixFold_def str_def)

lemma prefix_distinct:
  "hasPrefixFold f ''From:'' \<Longrightarrow> \<not> hasPrefixFold f ''Message-ID:'' \<and> \<not> hasPrefixFold f ''Received:''"
  "hasPrefixFold f ''Message-ID:'' \<Longrightarrow> \<not> hasPrefixFold f ''Received:''"
  by (auto dest!: prefix_first simp: toLower_def)

definition field_fold :: "nat \<times> bytes \<Rightarrow> hdrSums \<Rightarrow> hdrSums" where
  "field_fold x h = field_env (fst x) (snd x) (field_sum (snd x) h)"

lemma hdr_value_snoc:
  "hdr_value p (fs @ [f]) = (if hasPrefixFold f p then Some (str2ck [] (drop (length p) f)) else hdr_value p fs)"
  by (simp add: hdr_value_def Let_def)

lemma field_sum_sel:
  "h_from (field_sum f h) = (if hasPrefixFold f ''From:'' then Some (str2ck [] (drop 5 f)) else h_from h)"
  "h_msgID (field_sum f h) = (if hasPrefixFold f ''Message-ID:'' then Some (str2ck [] (drop 11 f)) else h_msgID h)"
  "h_recv (field_sum f h) = (if hasPrefixFold f ''Received:'' then Some (str2ck [] (drop 9 f)) else h_recv h)"
  "h_env (field_sum f h) = h_env h"
  by (auto simp: field_sum_def dest: prefix_distinct)

lemma field_env_sel:
  "h_from (field_env i f h) = h_from h" "h_msgID (field_env i f h) = h_msgID h" "h_recv (field_env i f h) = h_recv h"
  "h_env (field_env i f h) = (case h_env h of Some v \<Rightarrow> Some v
     | None \<Rightarrow> (case (if i = 0 then parseUnixFrom f else None) of Some v \<Rightarrow> Some v | None \<Rightarrow> parseReturnPath f))"
  by (auto simp: field_env_def Let_def split: option.split)

lemma hdr_names: "length ''From:'' = 5" "length ''Message-ID:'' = 11" "length ''Received:'' = 9"
  by simp_all

lemmas hdr_value_snocs = hdr_value_snoc [of "''From:''", unfolded hdr_names]
  hdr_value_snoc [of "''Message-ID:''", unfolded hdr_names] hdr_value_snoc [of "''Received:''", unfolded hdr_names]

lemma field_fold_values:
  "fold field_fold (enumerate 0 fs) no_sums = \<lparr>h_from = hdr_value ''From:'' fs,
     h_msgID = hdr_value ''Message-ID:'' fs, h_recv = hdr_value ''Received:'' fs, h_env = envelope fs\<rparr>"
proof (induction fs rule: rev_induct)
  case Nil
  show ?case by (simp add: no_sums_def hdr_value_def envelope_def)
next
  case (snoc f fs)
  let ?h = "fold field_fold (enumerate 0 (fs @ [f])) no_sums"
  have h: "?h = field_fold (length fs, f) (fold field_fold (enumerate 0 fs) no_sums)" by (simp add: enumerate_append_eq)
  show ?case
    unfolding h snoc unfolding field_fold_def fst_conv snd_conv
    by (intro hdrSums.equality)
      (simp_all add: field_env_sel field_sum_sel hdr_value_snocs envelope_snoc)
qed

lemma field_steps:
  "fold_opt field_step xs (m, h)
     = map_option (\<lambda>m. (m, fold field_fold xs h)) (fold_opt ckMimeHdr (map snd xs) m)"
proof (induction xs arbitrary: m h)
  case (Cons x xs)
  then show ?case by (cases x; cases "ckMimeHdr (snd x) m") (simp_all add: field_step_def field_fold_def)
qed simp

text \<open>
  C26. What is taken from the header: the last From, Message-ID and Received fields, their names
  in any mixture of cases, and as the sender the mbox line if the message starts with one and
  otherwise the first Return-Path that is not empty.
\<close>

theorem header_values:
  "\<exists>m. fold_opt ckMimeHdr fs newMime = Some m \<and> mime_ok True m \<and>
     fold_opt field_step (enumerate 0 fs) (newMime, no_sums)
       = Some (m, \<lparr>h_from = hdr_value ''From:'' fs, h_msgID = hdr_value ''Message-ID:'' fs,
                   h_recv = hdr_value ''Received:'' fs, h_env = envelope fs\<rparr>)"
  using header_fields_counted [of fs] by (auto simp: field_steps field_fold_values)

section \<open>The shape of the result\<close>

definition ck_ok :: "Checksum \<Rightarrow> bool" where
  "ck_ok c \<longleftrightarrow> ck_Label c = label (ck_Type c) \<and> length (ck_Sum c) = 16"

lemma length_str2ck [simp]: "length (str2ck n s) = 16"
  by (simp add: str2ck_def Let_def)

lemma final_lengths:
  "length (fst (body_final b)) = 16" "length (fst (fuz1_final f)) = 16"
  "fuz2_final g u = Some x \<Longrightarrow> length (fst x) = 16"
  by (auto simp: body_final_def fuz1_final_def fuz2_final_def Let_def bind_Some_iff split: if_splits option.splits)

lemma computeBody_lengths:
  "computeBody f1 tbls bp c = Some (b, z1, z2) \<Longrightarrow> length (fst b) = 16 \<and> length (fst z1) = 16 \<and> length (fst z2) = 16"
  by (auto simp: computeBody_def bind_Some_iff final_lengths dest: final_lengths(3))

lemma hdr_value_length: "hdr_value p fs = Some s \<Longrightarrow> length s = 16"
  by (auto simp: hdr_value_def Let_def split: if_splits)

lemma opt_ck_ok: "(\<And>v. s = Some v \<Longrightarrow> length v = 16) \<Longrightarrow> list_all ck_ok (opt_ck t s)"
  by (cases s) (simp_all add: opt_ck_def add_ck_def ck_ok_def)

lemma valid_ck_ok: "length (fst s) = 16 \<Longrightarrow> list_all ck_ok (valid_ck t s)"
  by (simp add: valid_ck_def add_ck_def ck_ok_def)

lemma map_type_opt: "map ck_Type (opt_ck t s) = (if s = None then [] else [t])"
  by (cases s) (simp_all add: opt_ck_def add_ck_def)

lemma map_type_valid: "map ck_Type (valid_ck t s) = (if snd s then [t] else [])"
  by (simp add: valid_ck_def add_ck_def)

text \<open>The fields of a message, as the split finds them.\<close>

definition msg_fields :: "bytes \<Rightarrow> bytes list" where
  "msg_fields msg = fst (join_lines [] msg)"

definition msg_body :: "bytes \<Rightarrow> bytes" where
  "msg_body msg = snd (join_lines [] msg)"

lemma Checksums_cases:
  assumes "Checksums_with f1 tbls msg = Some cks"
  obtains m b z1 z2 where "fold_opt ckMimeHdr (msg_fields msg) newMime = Some m"
    "computeBody f1 tbls (msg_body msg) (newCks\<lparr>c_m := m\<rparr>) = Some (b, z1, z2)"
    "cks = opt_ck CkEnvFrom (map_option (str2ck []) (envelope (msg_fields msg)))
       @ opt_ck CkFrom (hdr_value ''From:'' (msg_fields msg))
       @ [add_ck CkMessageID (case hdr_value ''Message-ID:'' (msg_fields msg) of Some s \<Rightarrow> s | None \<Rightarrow> str2ck [] [])
            (hdr_value ''Message-ID:'' (msg_fields msg) \<noteq> None)]
       @ opt_ck CkReceived (hdr_value ''Received:'' (msg_fields msg))
       @ valid_ck CkBody b @ valid_ck CkFuz1 z1 @ valid_ck CkFuz2 z2"
proof -
  obtain m where "fold_opt ckMimeHdr (msg_fields msg) newMime = Some m" using header_fields_counted by blast
  with assms that show thesis
    by (auto simp: Checksums_with_def splitHeadersBody_join msg_fields_def msg_body_def field_steps field_fold_values
        bind_Some_iff split_beta Let_def)
qed

text \<open>
  C25. The list \<^verbatim>\<open>Checksums\<close> returns is well formed for whatever Fuz1 operation: each checksum has
  the label of its type and 16 bytes, the types strictly increase (so each occurs once), they
  are among the seven kinds a message has, and there is always a Message-ID, reported exactly
  when the message has such a field; every other checksum is reported.
\<close>

theorem checksums_well_formed:
  assumes "Checksums_with f1 tbls msg = Some cks"
  shows "list_all ck_ok cks \<and> sorted_wrt (<) (map ck_Type cks)
    \<and> set (map ck_Type cks) \<subseteq> {CkEnvFrom, CkFrom, CkMessageID, CkReceived, CkBody, CkFuz1, CkFuz2}
    \<and> CkMessageID \<in> set (map ck_Type cks)
    \<and> (\<forall>c \<in> set cks. ck_Report c \<longleftrightarrow>
         ck_Type c \<noteq> CkMessageID \<or> (\<exists>f \<in> set (msg_fields msg). hasPrefixFold f ''Message-ID:''))"
proof -
  obtain m b z1 z2 where c: "computeBody f1 tbls (msg_body msg) (newCks\<lparr>c_m := m\<rparr>) = Some (b, z1, z2)"
    "cks = opt_ck CkEnvFrom (map_option (str2ck []) (envelope (msg_fields msg)))
       @ opt_ck CkFrom (hdr_value ''From:'' (msg_fields msg))
       @ [add_ck CkMessageID (case hdr_value ''Message-ID:'' (msg_fields msg) of Some s \<Rightarrow> s | None \<Rightarrow> str2ck [] [])
            (hdr_value ''Message-ID:'' (msg_fields msg) \<noteq> None)]
       @ opt_ck CkReceived (hdr_value ''Received:'' (msg_fields msg))
       @ valid_ck CkBody b @ valid_ck CkFuz1 z1 @ valid_ck CkFuz2 z2"
    by (rule Checksums_cases [OF assms])
  have id: "(hdr_value ''Message-ID:'' (msg_fields msg) \<noteq> None) = (\<exists>f \<in> set (msg_fields msg). hasPrefixFold f ''Message-ID:'')"
    by (auto simp: hdr_value_def Let_def filter_empty_conv)
  have "list_all ck_ok cks"
    using computeBody_lengths [OF c(1)] hdr_value_length
    by (auto simp: c(2) valid_ck_ok intro!: opt_ck_ok)
      (auto simp: add_ck_def ck_ok_def split: option.split)
  moreover have "sorted_wrt (<) (map ck_Type cks)" "CkMessageID \<in> set (map ck_Type cks)"
    "set (map ck_Type cks) \<subseteq> {CkEnvFrom, CkFrom, CkMessageID, CkReceived, CkBody, CkFuz1, CkFuz2}"
    unfolding c(2) map_append map_type_opt map_type_valid
    by (auto simp: add_ck_def ck_types word_less_nat_alt)
  moreover have "\<forall>c \<in> set cks. ck_Report c \<longleftrightarrow>
      ck_Type c \<noteq> CkMessageID \<or> (\<exists>f \<in> set (msg_fields msg). hasPrefixFold f ''Message-ID:'')"
    unfolding c(2) id [symmetric]
    by (auto simp: opt_ck_def valid_ck_def add_ck_def ck_types split: option.splits if_splits)
  ultimately show ?thesis by blast
qed

section \<open>Safety\<close>

lemma Checksums_returns:
  assumes "fold_opt ckMimeHdr (msg_fields msg) newMime = Some m"
    "computeBody f1 tbls (msg_body msg) (newCks\<lparr>c_m := m\<rparr>) = Some x"
  shows "\<exists>cks. Checksums_with f1 tbls msg = Some cks"
  using assms
  by (auto simp: Checksums_with_def splitHeadersBody_join msg_fields_def msg_body_def field_steps split_beta Let_def)

text \<open>A field that does not start with Content-T leaves encoding and nesting alone.\<close>

lemma content_newline:
  assumes "m_hdr m = MhdrCeCt" "m_pos m < 9"
  shows "hdr_loop True (m, [0x0a]) = Some (m\<lparr>m_hdr := MhdrIdle\<rparr>)"
proof -
  have n: "min (length ''Content-T'' - m_pos m) (length [0x0a :: byte]) = 1" using assms(2) by simp
  have "m_pos m \<in> set [0..<9]" using assms(2) by auto
  moreover have "\<forall>p \<in> set [0..<9]. \<not> eqFold (take 1 (drop p (str ''Content-T''))) [0x0a]" by code_simp
  ultimately have "\<not> eqFold (take 1 (drop (m_pos m) (str ''Content-T''))) (take 1 [0x0a])" by auto
  then have "mhMatch MhdrCtWS MhdrIdle ''Content-T'' (m, [0x0a]) = ((m\<lparr>m_hdr := MhdrIdle\<rparr>, [0x0a]), False)"
    unfolding mhMatch_def prod.case Let_def n by simp
  then show ?thesis
    using assms(1) by (subst hdr_loop.simps) (simp add: hdr_step_def hdr_te_def hdr_loop_idle)
qed

lemma content_other:
  assumes "\<not> hasPrefixFold f ''Content-T''" "m_hdr m = MhdrCeCt" "m_pos m = 0"
  shows "\<exists>p. hdr_loop True (m, f) = Some (m\<lparr>m_hdr := MhdrIdle\<rparr>) \<or> hdr_loop True (m, f) = Some (m\<lparr>m_pos := p\<rparr>) \<and> p < 9"
proof (cases "f = []")
  case True
  then show ?thesis using assms(3) by (intro exI [of _ 0]) (simp add: hdr_loop.simps)
next
  case False
  let ?n = "min 9 (length f)"
  have len: "length ''Content-T'' = 9" by simp
  show ?thesis
  proof (cases "eqFold (take ?n (str ''Content-T'')) (take ?n f)")
    case True
    have "?n = length f" "length f < 9"
      using assms(1) True by (auto simp: hasPrefixFold_def eqFold_def min_def split: if_splits)
    then have "mhMatch MhdrCtWS MhdrIdle ''Content-T'' (m, f) = ((m\<lparr>m_pos := length f\<rparr>, []), False)"
      using True assms(3) unfolding mhMatch_def prod.case Let_def len by simp
    then have "hdr_loop True (m, f) = Some (m\<lparr>m_pos := length f\<rparr>)"
      using assms(2) False by (subst hdr_loop.simps) (simp add: hdr_step_def hdr_te_def hdr_loop.simps)
    with \<open>length f < 9\<close> show ?thesis by blast
  next
    case False': False
    then have "mhMatch MhdrCtWS MhdrIdle ''Content-T'' (m, f) = ((m\<lparr>m_hdr := MhdrIdle\<rparr>, f), False)"
      using False assms(3) unfolding mhMatch_def prod.case Let_def len by simp
    then have "hdr_loop True (m, f) = Some (m\<lparr>m_hdr := MhdrIdle\<rparr>)"
      using assms(2) False by (subst hdr_loop.simps) (simp add: hdr_step_def hdr_te_def hdr_loop_idle)
    then show ?thesis by blast
  qed
qed

lemma plain_field:
  assumes "\<not> hasPrefixFold f ''Content-T''"
  shows "\<exists>m'. ckMimeHdr f m = Some m' \<and> m_ce m' = m_ce m \<and> m_nest m' = m_nest m
     \<and> (m_nest m = 0 \<longrightarrow> m_mp m' = m_mp m) \<and> m_ct m' = m_ct m \<and> m_cset m' = m_cset m"
proof -
  have p: "parseMimeHdr b True a = map_option (\<lambda>m. (m, False)) (hdr_loop True (a, b))" for a b
    by (simp add: parseMimeHdr_def)
  let ?m = "m\<lparr>m_hdr := MhdrCeCt, m_pos := 0\<rparr>"
  obtain k where "hdr_loop True (?m, f) = Some (?m\<lparr>m_hdr := MhdrIdle\<rparr>)
      \<or> hdr_loop True (?m, f) = Some (?m\<lparr>m_pos := k\<rparr>) \<and> k < 9"
    using content_other [OF assms, of ?m] by auto
  then show ?thesis
    using content_newline [of "?m\<lparr>m_pos := k\<rparr>"] by (elim disjE conjE) (simp_all add: ckMimeHdr_def p)
qed

lemma plain_fields:
  "\<forall>f \<in> set fs. \<not> hasPrefixFold f ''Content-T'' \<Longrightarrow>
   \<exists>m'. fold_opt ckMimeHdr fs m = Some m' \<and> m_ce m' = m_ce m \<and> m_nest m' = m_nest m
     \<and> (m_nest m = 0 \<longrightarrow> m_mp m' = m_mp m) \<and> m_ct m' = m_ct m \<and> m_cset m' = m_cset m"
proof (induction fs arbitrary: m)
  case (Cons f fs)
  obtain m1 where m1: "ckMimeHdr f m = Some m1" "m_ce m1 = m_ce m" "m_nest m1 = m_nest m"
      "m_nest m = 0 \<Longrightarrow> m_mp m1 = m_mp m" "m_ct m1 = m_ct m" "m_cset m1 = m_cset m"
    using plain_field [of f m] Cons.prems by auto
  from Cons.IH [of m1] Cons.prems m1 show ?case by auto
qed simp

lemma body_subset: "set (msg_body msg) \<subseteq> set msg"
proof -
  obtain sep where e: "concat [] @ msg = concat (fst (join_lines [] msg)) @ sep @ snd (join_lines [] msg)"
    using join_lines_concat [of "[]" msg] by blast
  from arg_cong [OF e, of set] show ?thesis by (auto simp: msg_body_def)
qed

lemma Checksums_plain:
  assumes "tbls_ok tbls" "0x26 \<notin> set msg" "\<forall>f \<in> set (msg_fields msg). \<not> hasPrefixFold f ''Content-T''"
  shows "\<exists>cks. Checksums tbls msg = Some cks"
proof -
  obtain m where m: "fold_opt ckMimeHdr (msg_fields msg) newMime = Some m" "mime_ok True m" "hdr_counted m"
    using header_fields_counted by blast
  then have plain: "m_ce m = CeASCII" "m_nest m = 0"
    using plain_fields [OF assms(3), of newMime] by (auto simp: newMime_def decodersInit_def)
  let ?c = "newCks\<lparr>c_m := m\<rparr>"
  have "cks_ok fuz1_ok False ?c"
    using m(2) by (intro new_cks_ok newFuz1_ok) (auto simp: mime_ok_def)
  moreover have "set (msg_body msg) \<subseteq> - {0x26}" using assms(2) body_subset [of msg] by auto
  ultimately have "\<exists>x. computeBody fuz1 tbls (msg_body msg) ?c = Some x"
    using plain_sink.computeBody_returns [of ?c tbls "msg_body msg"] m(2,3) plain assms(1) by (simp add: clear_in_def)
  with m(1) show ?thesis by (auto simp: Checksums_def intro: Checksums_returns)
qed

text \<open>
  C3. The code as it is, with its own Fuz1, computes the checksums of every message that has no
  \<^verbatim>\<open>&\<close> and no field that starts with Content-T: it never panics on plain mail, whatever its
  URLs, line lengths and other header fields are.
\<close>

theorem plain_mail_safe:
  assumes "tbls_ok tbls" "0x26 \<notin> set msg" "\<forall>f \<in> set (msg_fields msg). \<not> hasPrefixFold f ''Content-T''"
  shows "\<exists>cks. Checksums tbls msg = Some cks"
  by (rule Checksums_plain [OF assms])

definition plain_mail :: bytes where
  "plain_mail = str ''From: a@b.c'' @ [0x0a, 0x0a] @ str ''See http://www.example.com/''"

lemma plain_mail_plain: "0x26 \<notin> set plain_mail" "\<forall>f \<in> set (msg_fields plain_mail). \<not> hasPrefixFold f ''Content-T''"
  by code_simp+

theorem plain_mail_safe_witness: "\<exists>cks. Checksums small_tbls plain_mail = Some cks"
  by (rule plain_mail_safe [OF small_tbls_ok plain_mail_plain])

theorem checksums_well_formed_witness:
  "\<exists>cks. Checksums_with fuz1 small_tbls plain_mail = Some cks
    \<and> list_all ck_ok cks \<and> sorted_wrt (<) (map ck_Type cks) \<and> CkMessageID \<in> set (map ck_Type cks)"
  using Checksums_plain [OF small_tbls_ok plain_mail_plain] checksums_well_formed unfolding Checksums_def by blast

lemma crash_message: "Checksums tbls ([0x0a] @ crash_body) = None"
proof -
  have "join_lines [] ([0x0a] @ crash_body) = ([], crash_body)"
    by (subst join_lines.simps) (simp add: line_end_def index_byte_def isBlankLine_def)
  moreover have "sum_chunk fuz1 tbls crash_body (newCks\<lparr>c_m := newMime\<rparr>) = None"
  proof -
    have "fz2WordCount (newCks\<lparr>c_m := newMime, c_body := b\<rparr>) = 0" for b
      by (simp add: fz2WordCount_def newCks_def newFuz2State_def fuz2LangNum_def)
    then have "sum_fuz1 fuz1 crash_body (newCks\<lparr>c_m := newMime, c_body := b\<rparr>) = None" for b
      using crash_value by (simp add: sum_fuz1_def newCks_def)
    then show ?thesis by (auto simp: sum_chunk_def sum_body_def Option.bind_eq_None_conv)
  qed
  then have "decode_loop fuz1 tbls crash_body (newCks\<lparr>c_m := newMime\<rparr>) = None"
    by (subst decode_loop.simps)
      (simp add: decode_next_def newMime_def decodersInit_def crash_body_def)
  then have "computeBody fuz1 tbls crash_body (newCks\<lparr>c_m := newMime\<rparr>) = None"
    by (simp add: computeBody_def ckBody_def decodeSum_with_def newMime_def decodersInit_def)
  ultimately show ?thesis
    by (simp add: Checksums_def Checksums_with_def splitHeadersBody_join no_sums_def)
qed

text \<open>
  C7. The Fuz1 panic is a panic of \<open>Checksums\<close>: a message with no header and the body of
  \<open>fuz1_crash\<close> makes it panic, whatever the dictionaries are.
\<close>

theorem checksums_crash: "Checksums tbls ([0x0a] @ crash_body) = None"
  by (rule crash_message)

end
