(* ===== verification/Fuz1_Feed.thy ===== *)
theory Fuz1_Feed
  imports Message_Props Url_Hosts
begin

text \<open>
  Fuz1 is fed by the rest of the pipeline and gives nothing back to it but its own sum and the host
  names: which pieces of the body it gets, and with which word counts, does not depend on it.  So the
  calls of a whole message are one finite list of pieces, whatever operation stands in its place, and
  the body is summed exactly when that operation returns on this list.
\<close>

section \<open>Runs that do nothing with Fuz1 but feed it\<close>

definition feed_all :: "fuz1Op \<Rightarrow> (nat \<times> bytes) list \<Rightarrow> fuz1Ctx \<Rightarrow> fuz1Ctx option" where
  "feed_all f1 = fold_opt (\<lambda>(wc, bp). f1 wc bp)"

lemma feed_all_Nil [simp]: "feed_all f1 [] s = Some s"
  by (simp add: feed_all_def)

lemma feed_all_Cons [simp]: "feed_all f1 ((wc, bp) # fd) s = Option.bind (f1 wc bp s) (feed_all f1 fd)"
  by (simp add: feed_all_def)

lemma feed_all_append [simp]: "feed_all f1 (a @ b) s = Option.bind (feed_all f1 a s) (feed_all f1 b)"
  by (simp add: feed_all_def fold_opt_append)

definition only_feeds :: "(fuz1Op \<Rightarrow> fuz1Ctx \<Rightarrow> 'a option) \<Rightarrow> (fuz1Ctx \<Rightarrow> 'a) \<Rightarrow> bool" where
  "only_feeds run res \<longleftrightarrow> (\<exists>fd. \<forall>f1 s. run f1 s = map_option res (feed_all f1 fd s))"

lemma feeds_done: "(\<And>f1 s. run f1 s = Some (res s)) \<Longrightarrow> only_feeds run res"
  unfolding only_feeds_def by (rule exI [of _ "[]"]) simp

lemma feeds_call: "(\<And>f1 s. run f1 s = map_option res (f1 wc bp s)) \<Longrightarrow> only_feeds run res"
  unfolding only_feeds_def by (rule exI [of _ "[(wc, bp)]"]) (simp add: map_option_case split: option.split)

lemma feeds_bind:
  assumes "only_feeds run r" "only_feeds (\<lambda>f1 s. k f1 (r s)) res" "\<And>f1 s. all f1 s = Option.bind (run f1 s) (k f1)"
  shows "only_feeds all res"
proof -
  obtain a b where a: "\<And>f1 s. run f1 s = map_option r (feed_all f1 a s)"
      and b: "\<And>f1 s. k f1 (r s) = map_option res (feed_all f1 b s)"
    using assms(1,2) unfolding only_feeds_def by blast
  have "all f1 s = map_option res (feed_all f1 (a @ b) s)" for f1 s
    unfolding assms(3) by (cases "feed_all f1 a s") (simp_all add: a b)
  then show ?thesis unfolding only_feeds_def by blast
qed

text \<open>The context with another Fuz1 state; and the operation that does nothing, whose run is the bare pipeline.\<close>

definition with_fuz1 :: "cks \<Rightarrow> fuz1Ctx \<Rightarrow> cks" where
  "with_fuz1 c s = c\<lparr>c_fz1 := fst s, c_url := snd s\<rparr>"

definition idle :: fuz1Op where
  "idle wc bp s = Some s"

interpretation idle_sink: line_sink idle "\<lambda>s. s = (newFuz1State, newURL)" UNIV
  by unfold_locales (simp_all add: idle_def newURL_def)

lemma with_fuz1_sel [simp]:
  "c_m (with_fuz1 c s) = c_m c" "c_body (with_fuz1 c s) = c_body c" "c_fz2 (with_fuz1 c s) = c_fz2 c"
  "c_fz1 (with_fuz1 c s) = fst s" "c_url (with_fuz1 c s) = snd s"
  "fz2WordCount (with_fuz1 c s) = fz2WordCount c"
  by (simp_all add: with_fuz1_def fz2WordCount_def)

lemma with_fuz1_upd [simp]:
  "(with_fuz1 c s)\<lparr>c_m := m\<rparr> = with_fuz1 (c\<lparr>c_m := m\<rparr>) s"
  "(with_fuz1 c s)\<lparr>c_body := b\<rparr> = with_fuz1 (c\<lparr>c_body := b\<rparr>) s"
  "(with_fuz1 c s)\<lparr>c_fz2 := z\<rparr> = with_fuz1 (c\<lparr>c_fz2 := z\<rparr>) s"
  "(with_fuz1 c s)\<lparr>c_fz1 := f, c_url := u\<rparr> = with_fuz1 c (f, u)"
  "upd_mime g (with_fuz1 c s) = with_fuz1 (upd_mime g c) s"
  by (simp_all add: with_fuz1_def upd_mime_def)

lemma with_fuz1_self [simp]: "with_fuz1 c (c_fz1 c, c_url c) = c"
  by (simp add: with_fuz1_def)

section \<open>The parts of the pipeline\<close>

lemma idle_fuz1 [simp]: "sum_fuz1 idle bp c = Some c"
  by (simp add: sum_fuz1_def idle_def)

lemma sum_fuz1_feeds: "only_feeds (\<lambda>f1 s. sum_fuz1 f1 bp (with_fuz1 c s)) (with_fuz1 c)"
  by (rule feeds_call [of _ _ "fz2WordCount c" bp])
    (simp add: sum_fuz1_def map_option_case split: option.split)

lemma sum_body_with [simp]: "sum_body bp (with_fuz1 c s) = map_option (\<lambda>c. with_fuz1 c s) (sum_body bp c)"
  by (cases "body0 bp (c_body c)") (simp_all add: sum_body_def)

lemma sum_fuz2_with [simp]: "sum_fuz2 tbls bp (with_fuz1 c s) = map_option (\<lambda>c. with_fuz1 c s) (sum_fuz2 tbls bp c)"
  by (cases "fuz2 tbls (m_cset (c_m c)) bp (c_fz2 c, m_ct (c_m c))") (auto simp: sum_fuz2_def)

lemma sum_chunk_feeds:
  assumes "sum_chunk idle tbls bp c = Some c'"
  shows "only_feeds (\<lambda>f1 s. sum_chunk f1 tbls bp (with_fuz1 c s)) (with_fuz1 c')"
proof -
  obtain c1 where c1: "sum_body bp c = Some c1"
    "(if m_ct (c_m c1) \<noteq> CtBinary then sum_fuz2 tbls bp c1 else Some c1) = Some c'"
    using assms by (auto simp: sum_chunk_def bind_Some_iff)
  show ?thesis
    by (rule feeds_bind [OF sum_fuz1_feeds [of bp c1], of
            "\<lambda>f1 c. if m_ct (c_m c) \<noteq> CtBinary then sum_fuz2 tbls bp c else Some c"])
      (use c1 in \<open>auto simp: sum_chunk_def intro!: feeds_done split: if_splits\<close>)
qed

lemma decode_loop_feeds:
  "decode_loop idle tbls bp c = Some c' \<Longrightarrow>
   only_feeds (\<lambda>f1 s. decode_loop f1 tbls bp (with_fuz1 c s)) (with_fuz1 c')"
proof (induction bp arbitrary: c rule: length_induct)
  case (1 bp)
  show ?case
  proof (cases "bp = []")
    case True
    with 1(2) show ?thesis by (auto simp: decode_loop.simps intro: feeds_done)
  next
    case False
    obtain m chunk rest where d: "decode_next (c_m c) bp = Some (m, chunk, rest)"
      using 1(2) False by (subst (asm) decode_loop.simps) (auto split: option.splits)
    let ?s = "\<lambda>f1 c. if chunk \<noteq> [] then sum_chunk f1 tbls chunk c else Some c"
    obtain c1 where c1: "?s idle (c\<lparr>c_m := m\<rparr>) = Some c1" "decode_loop idle tbls rest c1 = Some c'"
      using 1(2) False d by (subst (asm) decode_loop.simps) (simp split: option.splits)
    have "only_feeds (\<lambda>f1 s. ?s f1 (with_fuz1 (c\<lparr>c_m := m\<rparr>) s)) (with_fuz1 c1)"
      using c1(1) sum_chunk_feeds [of tbls chunk "c\<lparr>c_m := m\<rparr>" c1]
      by (cases "chunk = []") (auto intro: feeds_done)
    moreover have "length rest < length bp" using decode_next_progress [OF d False] by simp
    then have "only_feeds (\<lambda>f1 s. decode_loop f1 tbls rest (with_fuz1 c1 s)) (with_fuz1 c')"
      using 1(1) c1(2) by blast
    ultimately show ?thesis
      by (rule feeds_bind [where k = "\<lambda>f1. decode_loop f1 tbls rest"])
        (use False d in \<open>subst decode_loop.simps, simp split: option.split\<close>)
  qed
qed

lemma decodeSum_feeds:
  assumes "decodeSum_with idle tbls bp c = Some c'"
  shows "only_feeds (\<lambda>f1 s. decodeSum_with f1 tbls bp (with_fuz1 c s)) (with_fuz1 c')"
proof (cases "m_mp (c_m c) \<noteq> MpText \<and> bp \<noteq> []")
  case True
  then obtain c1 where c1: "sum_body bp c = Some c1" "sum_fuz2 tbls [0x0a] c1 = Some c'"
    using assms by (auto simp: decodeSum_with_def bind_Some_iff)
  show ?thesis
    by (rule feeds_bind [OF sum_fuz1_feeds [of "[0x0a]" c1], of "\<lambda>f1. sum_fuz2 tbls [0x0a]"])
      (use c1 True in \<open>auto simp: decodeSum_with_def intro!: feeds_done\<close>)
next
  case False
  with assms decode_loop_feeds [of tbls bp c c'] show ?thesis
    by (cases "m_mp (c_m c) = MpText") (auto simp: decodeSum_with_def intro: feeds_done)
qed

text \<open>The text between two positions of the body, if there is any.\<close>

definition decode_part :: "fuz1Op \<Rightarrow> fuz2Tbl list \<Rightarrow> bytes \<Rightarrow> bool \<Rightarrow> nat \<Rightarrow> nat \<Rightarrow> cks \<Rightarrow> cks option" where
  "decode_part f1 tbls bp some a b c =
     (if some then do { t \<leftarrow> nslice bp a b; decodeSum_with f1 tbls t c } else Some c)"

lemma decode_part_feeds:
  assumes "decode_part idle tbls bp some a b c = Some c'"
  shows "only_feeds (\<lambda>f1 s. decode_part f1 tbls bp some a b (with_fuz1 c s)) (with_fuz1 c')"
  using assms decodeSum_feeds [of tbls _ c c']
  by (cases some; cases "nslice bp a b") (auto simp: decode_part_def intro: feeds_done)

definition with_walk :: "walk \<Rightarrow> fuz1Ctx \<Rightarrow> walk" where
  "with_walk w s = (with_fuz1 (fst w) s, snd w)"

lemma with_walk_simps [simp]:
  "with_walk (c, x) s = (with_fuz1 c s, x)" "fst (with_walk w s) = with_fuz1 (fst w) s" "snd (with_walk w s) = snd w"
  by (simp_all add: with_walk_def)

lemma mp_entity_feeds:
  assumes "mp_entity idle tbls bp cmp cp c sm = Some (c', sm')"
  shows "only_feeds (\<lambda>f1 s. mp_entity f1 tbls bp cmp cp (with_fuz1 c s) sm) (\<lambda>s. (with_fuz1 c' s, sm'))"
proof (cases "m_mp (c_m c) = MpHdrs")
  case False
  with assms show ?thesis by (auto simp: mp_entity_def intro: feeds_done)
next
  case True
  obtain l m blank where l: "nslice bp cmp cp = Some l" "parseMimeHdr l False (c_m c) = Some (m, blank)"
    using assms True by (auto simp: mp_entity_def bind_Some_iff)
  show ?thesis
  proof (cases blank)
    case False
    with assms True l show ?thesis by (auto simp: mp_entity_def intro: feeds_done)
  next
    case blank: True
    have part: "mp_entity f1 tbls bp cmp cp d sm = Option.bind (decode_part f1 tbls bp (cp \<noteq> sm) sm cp (d\<lparr>c_m := m\<rparr>))
        (\<lambda>d. Some (upd_mime (\<lambda>m. m\<lparr>m_mp := MpText\<rparr>) d, cp))" if "c_m d = c_m c" for f1 d
      using True l blank that by (auto simp: mp_entity_def decode_part_def)
    then obtain c1 where c1: "decode_part idle tbls bp (cp \<noteq> sm) sm cp (c\<lparr>c_m := m\<rparr>) = Some c1"
      "c' = upd_mime (\<lambda>m. m\<lparr>m_mp := MpText\<rparr>) c1" "sm' = cp"
      using assms by (auto simp: bind_Some_iff)
    show ?thesis
      by (rule feeds_bind [OF decode_part_feeds [OF c1(1)], of "\<lambda>f1 d. Some (upd_mime (\<lambda>m. m\<lparr>m_mp := MpText\<rparr>) d, cp)"])
        (auto simp: part c1 intro: feeds_done)
  qed
qed

lemma mp_line_feeds:
  assumes "mp_line idle tbls bp w = Some w'"
  shows "only_feeds (\<lambda>f1 s. mp_line f1 tbls bp (with_walk w s)) (with_walk w')"
proof -
  obtain c sm cmp bpLen where w: "w = (c, sm, cmp, bpLen)" by (metis prod_cases4)
  obtain rel where rel: "indexByteFromTo bp 0x0a cmp (length bp) = Some rel" using assms by (auto simp: mp_line_def w bind_Some_iff)
  define cp where "cp = (case rel of None \<Rightarrow> cmp + bpLen | Some r \<Rightarrow> r + 1)"
  define k where "k = (\<lambda>(c, sm :: nat). do {
     last \<leftarrow> (if cp = 0 then None else idx bp (cp - 1));
     let c = (if last = 0x0a then upd_mime mp_new_line c else c);
     bpLen \<leftarrow> less_by bpLen (cp - cmp);
     Some (c, sm, cp, bpLen)
   })"
  have line: "mp_line f1 tbls bp (d, sm, cmp, bpLen) = Option.bind (mp_entity f1 tbls bp cmp cp d sm) k" for f1 d
    unfolding mp_line_def prod.case rel bind.bind_lunit Let_def cp_def [symmetric] k_def ..
  obtain c1 sm1 where e: "mp_entity idle tbls bp cmp cp c sm = Some (c1, sm1)" "k (c1, sm1) = Some w'"
    using assms unfolding w line by (auto simp: bind_Some_iff)
  from e(2) have "k (with_fuz1 c1 s, sm1) = Some (with_walk w' s)" for s
    by (auto simp: k_def bind_Some_iff split: if_splits)
  then have "only_feeds (\<lambda>f1 s. k (with_fuz1 c1 s, sm1)) (with_walk w')" by (rule feeds_done)
  then show ?thesis
    by (rule feeds_bind [OF mp_entity_feeds [OF e(1)], of "\<lambda>f1. k"]) (simp add: w line)
qed

text \<open>A boundary: the text before it, the boundary itself, two dashes if it is the last one, the new nesting.\<close>

definition found_end :: "nat \<Rightarrow> nat \<Rightarrow> nat \<Rightarrow> cks \<times> nat \<Rightarrow> walk option" where
  "found_end cmp bpLen cp x = (case x of (c, nest) \<Rightarrow> do {
     bpLen \<leftarrow> less_by bpLen (cp + 1 - cmp);
     Some (upd_mime (\<lambda>m. decodersInit (m\<lparr>m_nest := nest\<rparr>)) c, cp + 1, cp + 1, bpLen)
   })"

definition found_dashes :: "fuz1Op \<Rightarrow> fuz2Tbl list \<Rightarrow> nat \<Rightarrow> ckBnd \<Rightarrow> cks \<Rightarrow> (cks \<times> nat) option" where
  "found_dashes f1 tbls bi b c =
     (if bn_cmp b \<noteq> bn_len b then do {
        c \<leftarrow> decodeSum_with f1 tbls [0x2d, 0x2d] c;
        Some (upd_mime (\<lambda>m. m\<lparr>m_mp := MpEpilogue\<rparr>) c, bi)
      }
      else Some (upd_mime (\<lambda>m. m\<lparr>m_mp := MpHdrs\<rparr>) c, bi + 1))"

definition found_bnd :: "fuz1Op \<Rightarrow> fuz2Tbl list \<Rightarrow> nat \<Rightarrow> cks \<Rightarrow> (cks \<times> nat) option" where
  "found_bnd f1 tbls bi c = do {
     b \<leftarrow> idx (m_bnd (c_m c)) bi;
     t \<leftarrow> nslice (bn_bnd b) 0 (bn_len b);
     c \<leftarrow> decodeSum_with f1 tbls t (upd_mime (\<lambda>m. m\<lparr>m_mp := MpBnd\<rparr>) c);
     found_dashes f1 tbls bi b c
   }"

lemma mp_found_parts:
  "mp_found f1 tbls bp bi cp (c, sm, cmp, bpLen) =
     Option.bind (decode_part f1 tbls bp (cmp \<noteq> sm) sm cmp c)
       (\<lambda>c. Option.bind (found_bnd f1 tbls bi c) (found_end cmp bpLen cp))"
  by (simp add: mp_found_def decode_part_def found_bnd_def found_dashes_def found_end_def [abs_def] Let_def upd_mime_def
      split_def)

lemma found_dashes_feeds:
  assumes "found_dashes idle tbls bi b c = Some (c', n)"
  shows "only_feeds (\<lambda>f1 s. found_dashes f1 tbls bi b (with_fuz1 c s)) (\<lambda>s. (with_fuz1 c' s, n))"
proof (cases "bn_cmp b \<noteq> bn_len b")
  case True
  then obtain c1 where c1: "decodeSum_with idle tbls [0x2d, 0x2d] c = Some c1"
      "c' = upd_mime (\<lambda>m. m\<lparr>m_mp := MpEpilogue\<rparr>) c1" "n = bi"
    using assms by (auto simp: found_dashes_def bind_Some_iff)
  show ?thesis
    by (rule feeds_bind [OF decodeSum_feeds [OF c1(1)], of "\<lambda>f1 c. Some (upd_mime (\<lambda>m. m\<lparr>m_mp := MpEpilogue\<rparr>) c, bi)"])
      (use True c1 in \<open>auto simp: found_dashes_def intro: feeds_done\<close>)
next
  case False
  with assms show ?thesis by (auto simp: found_dashes_def intro: feeds_done)
qed

lemma found_bnd_feeds:
  assumes "found_bnd idle tbls bi c = Some (c', n)"
  shows "only_feeds (\<lambda>f1 s. found_bnd f1 tbls bi (with_fuz1 c s)) (\<lambda>s. (with_fuz1 c' s, n))"
proof -
  obtain b t c1 where b: "idx (m_bnd (c_m c)) bi = Some b" "nslice (bn_bnd b) 0 (bn_len b) = Some t"
    "decodeSum_with idle tbls t (upd_mime (\<lambda>m. m\<lparr>m_mp := MpBnd\<rparr>) c) = Some c1"
    "found_dashes idle tbls bi b c1 = Some (c', n)"
    using assms by (auto simp: found_bnd_def bind_Some_iff)
  show ?thesis
    by (rule feeds_bind [OF decodeSum_feeds [OF b(3)] found_dashes_feeds [OF b(4)]]) (simp add: found_bnd_def b(1,2))
qed

lemma mp_found_feeds:
  assumes "mp_found idle tbls bp bi cp w = Some w'"
  shows "only_feeds (\<lambda>f1 s. mp_found f1 tbls bp bi cp (with_walk w s)) (with_walk w')"
proof -
  obtain c sm cmp bpLen where w: "w = (c, sm, cmp, bpLen)" by (metis prod_cases4)
  obtain c1 c2 n where c: "decode_part idle tbls bp (cmp \<noteq> sm) sm cmp c = Some c1" "found_bnd idle tbls bi c1 = Some (c2, n)"
    "found_end cmp bpLen cp (c2, n) = Some w'"
    using assms unfolding w mp_found_parts by (auto simp: bind_Some_iff)
  have "only_feeds (\<lambda>f1 s. found_end cmp bpLen cp (with_fuz1 c2 s, n)) (with_walk w')"
    by (rule feeds_done) (use c(3) in \<open>auto simp: found_end_def bind_Some_iff\<close>)
  then have "only_feeds (\<lambda>f1 s. Option.bind (found_bnd f1 tbls bi (with_fuz1 c1 s)) (found_end cmp bpLen cp)) (with_walk w')"
    by (rule feeds_bind [OF found_bnd_feeds [OF c(2)], of "\<lambda>f1. found_end cmp bpLen cp"]) simp
  then show ?thesis
    by (rule feeds_bind [OF decode_part_feeds [OF c(1)], of
          "\<lambda>f1 c. Option.bind (found_bnd f1 tbls bi c) (found_end cmp bpLen cp)"]) (simp add: w mp_found_parts)
qed

lemma mp_match_feeds:
  assumes "mp_match idle tbls bp w = Some w'"
  shows "only_feeds (\<lambda>f1 s. mp_match f1 tbls bp (with_walk w s)) (with_walk w')"
proof -
  obtain c sm cmp bpLen where w: "w = (c, sm, cmp, bpLen)" by (metis prod_cases4)
  obtain m matched found where s: "scan_bnds bp cmp bpLen 0 (m_nest (c_m c)) (c_m c, 0) = Some ((m, matched), found)"
    using assms by (auto simp: mp_match_def w bind_Some_iff)
  show ?thesis
  proof (cases found)
    case None
    with assms s show ?thesis by (auto simp: mp_match_def w bind_Some_iff intro: feeds_done)
  next
    case (Some x)
    obtain bi cp where x: "x = (bi, cp)" by (cases x)
    with assms s Some mp_found_feeds [of tbls bp bi cp "(c\<lparr>c_m := m\<rparr>, sm, cmp, bpLen)" w'] show ?thesis
      by (simp add: mp_match_def w)
  qed
qed

lemma mp_rest_feeds:
  assumes "mp_rest idle tbls bp w = Some c'"
  shows "only_feeds (\<lambda>f1 s. mp_rest f1 tbls bp (with_walk w s)) (with_fuz1 c')"
proof -
  obtain c sm cmp bpLen where w: "w = (c, sm, cmp, bpLen)" by (metis prod_cases4)
  have "mp_rest f1 tbls bp (d, sm, cmp, bpLen) = decode_part f1 tbls bp (cmp \<noteq> sm) sm cmp d" for f1 d
    by (simp add: mp_rest_def decode_part_def)
  with assms decode_part_feeds [of tbls bp "cmp \<noteq> sm" sm cmp c c'] show ?thesis by (simp add: w)
qed

lemma mp_walk_unfold: "mp_walk f1 tbls bp (d, sm, cmp, bpLen) =
    (if bpLen = 0 then mp_rest f1 tbls bp (d, sm, cmp, bpLen)
     else if m_nest (c_m d) = 0 then decode_part f1 tbls bp True sm (length bp) d
     else Option.bind (if m_matches (c_m d) = 0 then mp_line f1 tbls bp (d, sm, cmp, bpLen) else Some (d, sm, cmp, bpLen))
       (\<lambda>w. if snd (snd (snd w)) = 0 then mp_rest f1 tbls bp w else mp_match f1 tbls bp w \<bind> mp_walk f1 tbls bp))"
  by (subst mp_walk.simps) (simp add: decode_part_def)

text \<open>By the rule for partial functions, along the bare walk.\<close>

lemma mp_walk_feeds:
  assumes "mp_walk idle tbls bp w = Some c'"
  shows "only_feeds (\<lambda>f1 s. mp_walk f1 tbls bp (with_walk w s)) (with_fuz1 c')"
proof -
  have "only_feeds (\<lambda>f1 s. mp_walk f1 tbls bp (with_walk w s)) (with_fuz1 c')"
    if "mp_walk f1 tbls bp w = Some c'" "f1 = idle" for f1
    using that(2)
  proof (induction rule: mp_walk.raw_induct [OF _ that(1)])
    case (1 walk f1 tbls bp w c')
    obtain c sm cmp bpLen where w: "w = (c, sm, cmp, bpLen)" by (metis prod_cases4)
    note run = "1.hyps" [unfolded "1.prems" w prod.case]
    consider "bpLen = 0" | "bpLen \<noteq> 0" "m_nest (c_m c) = 0" | "bpLen \<noteq> 0" "m_nest (c_m c) \<noteq> 0" by blast
    then show ?case
    proof cases
      case 1
      with run mp_rest_feeds [of tbls bp "(c, sm, cmp, bpLen)" c'] show ?thesis
        unfolding w with_walk_simps mp_walk_unfold by simp
    next
      case 2
      with run decode_part_feeds [of tbls bp True sm "length bp" c c'] show ?thesis
        unfolding w with_walk_simps mp_walk_unfold by (simp add: decode_part_def)
    next
      case 3
      let ?line = "\<lambda>f1 w. if m_matches (c_m c) = 0 then mp_line f1 tbls bp w else Some w"
      let ?go = "\<lambda>f1 w. if snd (snd (snd w)) = 0 then mp_rest f1 tbls bp w else mp_match f1 tbls bp w \<bind> mp_walk f1 tbls bp"
      have "Option.bind (?line idle w) (\<lambda>w. if snd (snd (snd w)) = 0 then mp_rest idle tbls bp w
          else mp_match idle tbls bp w \<bind> walk idle tbls bp) = Some c'"
        using run unfolding w by (simp only: 3 if_False)
      then obtain w1 where w1: "?line idle w = Some w1"
        "(if snd (snd (snd w1)) = 0 then mp_rest idle tbls bp w1 else mp_match idle tbls bp w1 \<bind> walk idle tbls bp) = Some c'"
        by (cases "?line idle w") simp_all
      have line: "only_feeds (\<lambda>f1 s. ?line f1 (with_walk w s)) (with_walk w1)"
        using w1(1) mp_line_feeds [of tbls bp w w1] by (cases "m_matches (c_m c) = 0") (auto intro: feeds_done)
      have "only_feeds (\<lambda>f1 s. ?go f1 (with_walk w1 s)) (with_fuz1 c')"
      proof (cases "snd (snd (snd w1)) = 0")
        case True
        with w1(2) mp_rest_feeds [of tbls bp w1 c'] show ?thesis by simp
      next
        case False
        then obtain w2 where w2: "mp_match idle tbls bp w1 = Some w2" "walk idle tbls bp w2 = Some c'"
          using w1(2) by (auto simp: bind_Some_iff)
        show ?thesis
          by (rule feeds_bind [OF mp_match_feeds [OF w2(1)] "1.IH" [OF w2(2) refl]]) (simp add: False)
      qed
      then show ?thesis
        by (rule feeds_bind [OF line, of ?go]) (use 3 in \<open>simp add: w mp_walk_unfold\<close>)
    qed
  qed
  with assms show ?thesis by blast
qed

lemma ckBody_feeds:
  assumes "ckBody idle tbls bp c = Some c'"
  shows "only_feeds (\<lambda>f1 s. ckBody f1 tbls bp (with_fuz1 c s)) (with_fuz1 c')"
  using assms decodeSum_feeds [of tbls bp c c'] mp_walk_feeds [of tbls bp "(c, 0, 0, length bp)" c']
  by (cases "m_nest (c_m c) = 0") (simp_all add: ckBody_def ckBodyMultipart_def)

section \<open>A whole body and a whole message\<close>

lemma Checksums_body:
  assumes "fold_opt ckMimeHdr (msg_fields msg) newMime = Some m"
  obtains pre where "\<And>f1. Checksums_with f1 tbls msg = do {
      (b, z1, z2) \<leftarrow> computeBody f1 tbls (msg_body msg) (newCks\<lparr>c_m := m\<rparr>);
      Some (pre @ valid_ck CkBody b @ valid_ck CkFuz1 z1 @ valid_ck CkFuz2 z2)
    }"
proof -
  let ?fs = "msg_fields msg"
  let ?pre = "opt_ck CkEnvFrom (map_option (str2ck []) (envelope ?fs)) @ opt_ck CkFrom (hdr_value ''From:'' ?fs)
    @ [add_ck CkMessageID (case hdr_value ''Message-ID:'' ?fs of Some s \<Rightarrow> s | None \<Rightarrow> str2ck [] [])
         (hdr_value ''Message-ID:'' ?fs \<noteq> None)] @ opt_ck CkReceived (hdr_value ''Received:'' ?fs)"
  show thesis
    by (rule that [of ?pre])
      (use assms in \<open>simp add: Checksums_with_def splitHeadersBody_join msg_fields_def msg_body_def field_steps field_fold_values
        split_beta Let_def\<close>)
qed

definition fuz1_init :: fuz1Ctx where
  "fuz1_init = (newFuz1State, newURL)"

lemma with_fuz1_init [simp]: "with_fuz1 (newCks\<lparr>c_m := m\<rparr>) fuz1_init = newCks\<lparr>c_m := m\<rparr>"
  by (simp add: with_fuz1_def fuz1_init_def newCks_def)

lemma body_feeds:
  assumes "tbls_ok tbls" "mime_ok True m" "hdr_counted m"
  obtains fd c where "\<And>f1 s. ckBody f1 tbls body (with_fuz1 (newCks\<lparr>c_m := m\<rparr>) s) = map_option (with_fuz1 c) (feed_all f1 fd s)"
    "cks_ok (\<lambda>s. s = (newFuz1State, newURL)) False c"
proof -
  have "cks_ok (\<lambda>s. s = (newFuz1State, newURL)) False (newCks\<lparr>c_m := m\<rparr>)"
    using assms(2) by (intro new_cks_ok idle_sink.start) (auto simp: mime_ok_def)
  then obtain c where c: "ckBody idle tbls body (newCks\<lparr>c_m := m\<rparr>) = Some c"
    "cks_ok (\<lambda>s. s = (newFuz1State, newURL)) False c"
    using idle_sink.ckBody_returns [of "newCks\<lparr>c_m := m\<rparr>" tbls body] assms by (auto simp: clear_in_def)
  from ckBody_feeds [OF c(1)] c(2) that show thesis unfolding only_feeds_def by blast
qed

text \<open>The three sums of a body: Fuz1 of its calls, the line end included, and the others whatever it is.\<close>

lemma computeBody_feeds:
  assumes "tbls_ok tbls" "mime_ok True m" "hdr_counted m"
  obtains fd b z where "\<And>f1. computeBody f1 tbls body (newCks\<lparr>c_m := m\<rparr>) = do {
      (f, u) \<leftarrow> feed_all f1 fd fuz1_init;
      z2 \<leftarrow> fuz2_final z (Some u);
      Some (b, fuz1_final f, z2)
    }"
proof -
  obtain fd c where c: "\<And>f1 s. ckBody f1 tbls body (with_fuz1 (newCks\<lparr>c_m := m\<rparr>) s) = map_option (with_fuz1 c) (feed_all f1 fd s)"
    "cks_ok (\<lambda>s. s = (newFuz1State, newURL)) False c" by (rule body_feeds [OF assms, of body]) (rule that)
  obtain c2 where c2: "sum_fuz2 tbls [0x0a] c = Some c2" using idle_sink.sum_fuz2_returns [OF c(2) assms(1)] by blast
  have "computeBody f1 tbls body (newCks\<lparr>c_m := m\<rparr>) = do {
      (f, u) \<leftarrow> feed_all f1 (fd @ [(fz2WordCount c, [0x0a])]) fuz1_init;
      z2 \<leftarrow> fuz2_final (c_fz2 c2) (Some u);
      Some (body_final (c_body c2), fuz1_final f, z2)
    }" for f1
  proof -
    have k: "sum_fuz1 f1 [0x0a] (with_fuz1 c s) = map_option (with_fuz1 c) (f1 (fz2WordCount c) [0x0a] s)" for s
      by (simp add: sum_fuz1_def map_option_case split: option.split)
    show ?thesis
    proof (cases "feed_all f1 fd fuz1_init")
      case (Some s)
      then show ?thesis
        using c(1) [of f1 fuz1_init] by (cases "f1 (fz2WordCount c) [0x0a] s") (simp_all add: computeBody_def k c2 split_def)
    qed (use c(1) [of f1 fuz1_init] in \<open>simp add: computeBody_def\<close>)
  qed
  then show thesis by (rule that)
qed

lemma feed_all_fuz1: "feed_all fuz1 = fuz1_chunks"
  by (simp add: feed_all_def fuz1_chunks_def)

text \<open>Fuz1 returns on pieces without a reference, and always leaves host names that Fuz2 can read.\<close>

lemma fuz1_feed:
  assumes "\<forall>p \<in> set fd. 0x26 \<notin> set (snd p)"
  shows "feed_all fuz1 fd fuz1_init \<noteq> None"
proof -
  have "\<exists>s. fold_opt (\<lambda>(wc, bp). fuz1 wc bp) fd fuz1_init = Some s \<and> fuz1_ok s"
    by (rule fold_opt_inv [where I = fuz1_ok]) (use assms fuz1_returns newFuz1_ok in \<open>auto simp: fuz1_init_def\<close>)
  then show ?thesis by (auto simp: feed_all_def)
qed

lemma fuz1_feed_final: "feed_all fuz1 fd fuz1_init = Some (f, u) \<Longrightarrow> fuz2_final z (Some u) \<noteq> None"
  unfolding feed_all_fuz1 fuz1_init_def
  by (rule fuz2_final_returns) (use fuz1_chunks_doms in \<open>auto simp: doms_ok_def\<close>)

text \<open>
  C1. Nothing but Fuz1 can make \<open>Checksums\<close> panic.  For every message there is one finite list of
  pieces of text such that, whatever operation stands for Fuz1, \<open>Checksums\<close> gives it exactly these pieces
  and otherwise depends on it only by its sum and the host names it leaves.  With the code's own Fuz1
  \<open>Checksums\<close> therefore panics if and only if Fuz1 panics on these pieces, and then one of them has
  an \<^verbatim>\<open>&\<close>.
\<close>

theorem checksums_panic_in_fuz1:
  assumes "tbls_ok tbls"
  shows "\<exists>fd pre b z.
    (\<forall>f1. Checksums_with f1 tbls msg = do {
       (f, u) \<leftarrow> feed_all f1 fd fuz1_init;
       z2 \<leftarrow> fuz2_final z (Some u);
       Some (pre @ valid_ck CkBody b @ valid_ck CkFuz1 (fuz1_final f) @ valid_ck CkFuz2 z2)
     })
    \<and> (Checksums tbls msg = None \<longleftrightarrow> feed_all fuz1 fd fuz1_init = None)
    \<and> (Checksums tbls msg = None \<longrightarrow> (\<exists>p \<in> set fd. 0x26 \<in> set (snd p)))"
proof -
  obtain m where m: "fold_opt ckMimeHdr (msg_fields msg) newMime = Some m" "mime_ok True m" "hdr_counted m"
    using header_fields_counted by blast
  obtain fd b z where c: "\<And>f1. computeBody f1 tbls (msg_body msg) (newCks\<lparr>c_m := m\<rparr>) = do {
      (f, u) \<leftarrow> feed_all f1 fd fuz1_init; z2 \<leftarrow> fuz2_final z (Some u); Some (b, fuz1_final f, z2) }"
    by (rule computeBody_feeds [OF assms m(2,3), of "msg_body msg"]) (rule that)
  obtain pre where run: "\<And>f1. Checksums_with f1 tbls msg = do {
       (f, u) \<leftarrow> feed_all f1 fd fuz1_init;
       z2 \<leftarrow> fuz2_final z (Some u);
       Some (pre @ valid_ck CkBody b @ valid_ck CkFuz1 (fuz1_final f) @ valid_ck CkFuz2 z2)
     }"
    by (rule Checksums_body [OF m(1), of tbls]) (simp add: c split_def)
  have "Checksums tbls msg = None \<longleftrightarrow> feed_all fuz1 fd fuz1_init = None"
  proof (cases "feed_all fuz1 fd fuz1_init")
    case (Some s)
    obtain f u where s: "s = (f, u)" by (cases s)
    obtain z2 where "fuz2_final z (Some u) = Some z2" using fuz1_feed_final [OF Some [unfolded s]] by blast
    with Some s show ?thesis by (simp add: Checksums_def run)
  qed (simp add: Checksums_def run)
  moreover from this have "Checksums tbls msg = None \<longrightarrow> (\<exists>p \<in> set fd. 0x26 \<in> set (snd p))" using fuz1_feed [of fd] by blast
  ultimately show ?thesis
    by (intro exI [of _ fd] exI [of _ pre] exI [of _ b] exI [of _ z] conjI allI run)
qed

text \<open>For the message on which \<open>Checksums\<close> panics the theorem finds the pieces.\<close>

theorem checksums_panic_in_fuz1_witness:
  "\<exists>fd. feed_all fuz1 fd fuz1_init = None \<and> (\<exists>p \<in> set fd. 0x26 \<in> set (snd p))"
  using checksums_panic_in_fuz1 [OF small_tbls_ok, of "[0x0a] @ crash_body"] crash_message [of small_tbls] by blast

text \<open>
  C6. The walk over a multipart body ends for every header and every body: there is one finite list of
  pieces such that, whatever operation stands for Fuz1 and in whatever state it starts, \<^verbatim>\<open>ckBody\<close> gives
  that operation exactly these pieces and returns if and only if it returns on them.  The code's own
  Fuz1 is one of these operations; what the rest of the context becomes does not depend on it.
\<close>

theorem body_walk_ends:
  assumes "tbls_ok tbls" "fold_opt ckMimeHdr hdrs newMime = Some m"
  shows "\<exists>fd c. \<forall>f1 s. ckBody f1 tbls body (with_fuz1 (newCks\<lparr>c_m := m\<rparr>) s) = map_option (with_fuz1 c) (feed_all f1 fd s)"
proof -
  have "mime_ok True m" "hdr_counted m" using header_fields_counted [of hdrs] assms(2) by auto
  from body_feeds [OF assms(1) this] show ?thesis by metis
qed

text \<open>An operation that stops at a reference: if it does not, no piece has one, and the code's Fuz1 returns.\<close>

definition alarm :: fuz1Op where
  "alarm wc bp s = (if 0x26 \<in> set bp then None else Some s)"

lemma alarm_feed: "feed_all alarm fd s \<noteq> None \<longleftrightarrow> (\<forall>p \<in> set fd. 0x26 \<notin> set (snd p))"
proof (induction fd)
  case (Cons p fd)
  have "feed_all alarm (p # fd) s = (if 0x26 \<in> set (snd p) then None else feed_all alarm fd s)"
    by (cases p) (simp add: alarm_def)
  with Cons show ?case by simp
qed simp

definition mixed_field :: bytes where
  "mixed_field = str ''Content-Type: multipart/mixed; boundary=x''"

definition mixed_body :: bytes where
  "mixed_body = str ''--x'' @ [0x0a, 0x0a] @ str ''Hi'' @ [0x0a] @ str ''--x--'' @ [0x0a]"

theorem body_walk_ends_witness:
  "\<exists>m c. fold_opt ckMimeHdr [mixed_field] newMime = Some m \<and> m_nest m = 1
     \<and> ckBody fuz1 small_tbls mixed_body (newCks\<lparr>c_m := m\<rparr>) = Some c"
proof -
  have "(case fold_opt ckMimeHdr [mixed_field] newMime of None \<Rightarrow> False
     | Some m \<Rightarrow> m_nest m = 1 \<and> ckBody alarm small_tbls mixed_body (newCks\<lparr>c_m := m\<rparr>) \<noteq> None)" by code_simp
  then obtain m where m: "fold_opt ckMimeHdr [mixed_field] newMime = Some m" "m_nest m = 1"
    "ckBody alarm small_tbls mixed_body (newCks\<lparr>c_m := m\<rparr>) \<noteq> None" by (auto split: option.splits)
  from body_walk_ends [OF small_tbls_ok m(1), of mixed_body] obtain fd c
    where fd: "\<And>f1 s. ckBody f1 small_tbls mixed_body (with_fuz1 (newCks\<lparr>c_m := m\<rparr>) s) = map_option (with_fuz1 c) (feed_all f1 fd s)"
    by blast
  from fd [of alarm fuz1_init] m(3) have "feed_all alarm fd fuz1_init \<noteq> None" by auto
  then have "feed_all fuz1 fd fuz1_init \<noteq> None" by (intro fuz1_feed) (simp only: alarm_feed)
  then show ?thesis using fd [of fuz1 fuz1_init] m(1,2) by auto
qed

end
