(* ===== verification/Mime_Transfer.thy ===== *)
theory Mime_Transfer
  imports Mime_Decode_Props
begin

text \<open>
  What the transfer decoders mean.  \<open>pieces\<close> is the decoding alone, without the checksummers:
  \<open>decodeSum\<close> is the checksummers run over the pieces.  The pieces put together are the decoded
  text, wherever the 1024-byte buffer fills up: the exact text for quoted-printable and
  base64 as their encoders write them.
\<close>

section \<open>Decoding apart from summing\<close>

function pieces :: "mime \<Rightarrow> bytes \<Rightarrow> bytes list \<times> mime" where
  "pieces m bp =
     (if bp = [] then ([], m)
      else case decode_next m bp of
        None \<Rightarrow> ([], m)
      | Some (m', chunk, rest) \<Rightarrow>
          (case pieces m' rest of (ps, m2) \<Rightarrow> (if chunk = [] then ps else chunk # ps, m2)))"
  by pat_completeness auto
termination
  by (relation "measure (\<lambda>(m, bp). length bp)") (auto dest: decode_next_progress)

declare pieces.simps [simp del]

definition set_decoders :: "mime \<Rightarrow> cks \<Rightarrow> cks" where
  "set_decoders m c = c\<lparr>c_m := (c_m c)\<lparr>m_qp := m_qp m, m_b64 := m_b64 m\<rparr>\<rparr>"

lemma decode_next_ct:
  "decode_next (m\<lparr>m_ct := t\<rparr>) bp
     = map_option (\<lambda>(m', chunk, rest). (m'\<lparr>m_ct := t\<rparr>, chunk, rest)) (decode_next m bp)"
  by (cases "m_ce m"; cases "qpDecode tbufLen (m_qp m) bp"; cases "b64Decode tbufLen (m_b64 m) bp")
    (auto simp: decode_next_def)

lemma pieces_ct: "pieces (m\<lparr>m_ct := t\<rparr>) bp = (fst (pieces m bp), (snd (pieces m bp))\<lparr>m_ct := t\<rparr>)"
proof (induction "length bp" arbitrary: m bp rule: less_induct)
  case less
  show ?case
  proof (cases "bp = []")
    case False
    obtain m' chunk rest where d: "decode_next m bp = Some (m', chunk, rest)"
      using decode_next_returns [of m bp] by blast
    then have "decode_next (m\<lparr>m_ct := t\<rparr>) bp = Some (m'\<lparr>m_ct := t\<rparr>, chunk, rest)"
      by (simp add: decode_next_ct)
    with d False less [OF decode_next_progress [OF d False], of m'] show ?thesis
      by (subst (1 2 3) pieces.simps) (simp add: split_beta)
  qed (simp add: pieces.simps)
qed

lemma sum_chunk_decoders:
  "sum_chunk f1 tbls ch (set_decoders m c) = map_option (set_decoders m) (sum_chunk f1 tbls ch c)"
  by (auto simp: sum_chunk_def sum_body_def sum_fuz1_def sum_fuz2_def set_decoders_def fz2WordCount_def
      Option.bind_eq_None_conv split: Option.bind_splits)

lemma sum_chunk_mime: "sum_chunk f1 tbls ch c = Some c' \<Longrightarrow> c_m c' = (c_m c)\<lparr>m_ct := m_ct (c_m c')\<rparr>"
  by (auto simp: sum_chunk_def sum_body_def sum_fuz1_def sum_fuz2_def bind_Some_iff split: if_splits)

lemma set_decoders_twice [simp]:
  "set_decoders m (set_decoders m' c) = set_decoders m c" "set_decoders (m\<lparr>m_ct := t\<rparr>) c = set_decoders m c"
  by (simp_all add: set_decoders_def)

lemma fold_decoders:
  "fold_opt (sum_chunk f1 tbls) chs (set_decoders m c) = map_option (set_decoders m) (fold_opt (sum_chunk f1 tbls) chs c)"
proof (induction chs arbitrary: c)
  case (Cons ch chs)
  then show ?case by (cases "sum_chunk f1 tbls ch c") (simp_all add: sum_chunk_decoders)
qed simp

lemma decode_loop_pieces:
  "decode_loop f1 tbls bp c
     = fold_opt (sum_chunk f1 tbls) (fst (pieces (c_m c) bp)) (set_decoders (snd (pieces (c_m c) bp)) c)"
proof (induction "length bp" arbitrary: bp c rule: less_induct)
  case less
  show ?case
  proof (cases "bp = []")
    case False
    obtain q b chunk rest where d: "decode_next (c_m c) bp = Some ((c_m c)\<lparr>m_qp := q, m_b64 := b\<rparr>, chunk, rest)"
      using decode_next_returns [of "c_m c" bp] by blast
    let ?m = "(c_m c)\<lparr>m_qp := q, m_b64 := b\<rparr>"
    have c0: "c\<lparr>c_m := ?m\<rparr> = set_decoders ?m c" by (simp add: set_decoders_def)
    obtain ps m2 where ps: "pieces ?m rest = (ps, m2)" by (cases "pieces ?m rest")
    have pieces: "pieces (c_m c) bp = (if chunk = [] then ps else chunk # ps, m2)"
      using d False ps by (subst pieces.simps) simp
    note IH = less [OF decode_next_progress [OF d False]]
    have loop: "decode_loop f1 tbls bp c = Option.bind
        (if chunk \<noteq> [] then sum_chunk f1 tbls chunk (set_decoders ?m c) else Some (set_decoders ?m c))
        (decode_loop f1 tbls rest)"
      using d False by (subst decode_loop.simps) (simp add: c0 split: option.split)
    show ?thesis
    proof (cases "chunk = []")
      case True
      with loop IH [of "set_decoders ?m c"] ps show ?thesis
        by (simp add: pieces set_decoders_def)
    next
      case False
      have "decode_loop f1 tbls rest c1 = fold_opt (sum_chunk f1 tbls) ps (set_decoders m2 c1)"
        if "sum_chunk f1 tbls chunk (set_decoders ?m c) = Some c1" for c1
      proof -
        have "c_m c1 = ?m\<lparr>m_ct := m_ct (c_m c1)\<rparr>" using sum_chunk_mime [OF that] by (simp add: set_decoders_def)
        then have "pieces (c_m c1) rest = (ps, m2\<lparr>m_ct := m_ct (c_m c1)\<rparr>)"
          using ps by (metis pieces_ct fst_conv snd_conv)
        with IH [of c1] show ?thesis by simp
      qed
      with loop False show ?thesis
        by (cases "sum_chunk f1 tbls chunk c") (simp_all add: pieces sum_chunk_decoders)
    qed
  qed (simp add: decode_loop.simps pieces.simps set_decoders_def)
qed

lemma decodeSum_pieces:
  "m_mp (c_m c) = MpText \<Longrightarrow> decodeSum tbls bp c
     = fold_opt (sum_chunk fuz1 tbls) (fst (pieces (c_m c) bp)) (set_decoders (snd (pieces (c_m c) bp)) c)"
  by (simp add: decodeSum_def decodeSum_with_def decode_loop_pieces)

section \<open>What the decoders read\<close>

lemma qp_run_Cons:
  "qp_step c q = ((q1, e), b) \<Longrightarrow> qp_run q (c # inp)
     = (fst (qp_run q1 (if b then inp else c # inp)), e @ snd (qp_run q1 (if b then inp else c # inp)))"
  by (subst qp_run.simps(2)) (simp add: split_beta)

lemma qp_loop_run:
  assumes "qp_loop cap q inp out = Some (q', o', r)"
  shows "\<exists>d. o' = out @ d \<and> qp_run q inp = (fst (qp_run q' r), d @ snd (qp_run q' r))"
  using assms
proof (induction rule: qp_loop_ind)
  case (Go q c inp out q1 e b q' o' r)
  then obtain d where "o' = out @ e @ d"
    "qp_run q1 (if b then inp else c # inp) = (fst (qp_run q' r), d @ snd (qp_run q' r))" by auto
  with qp_run_Cons [OF Go(1), of inp] show ?case by (simp del: qp_run.simps)
next
  case (Full q c inp out q1 e b)
  from qp_run_Cons [OF Full(1), of inp] show ?case by (simp del: qp_run.simps)
qed simp

text \<open>
  \<open>b64_yields q e d\<close>: the decoder in state \<open>q\<close> reads \<open>d\<close> from \<open>e\<close>, whether or not a buffer that
  fills up at a padding sign makes it drop the sextet the sign stands for.
\<close>

inductive b64_yields :: "b64State \<Rightarrow> bytes \<Rightarrow> bytes \<Rightarrow> bool" where
  Nil: "b64_yields q [] []"
| Skip: "b64_value c = None \<Longrightarrow> b64_yields q e d \<Longrightarrow> b64_yields q (c # e) d"
| Pad: "b64_value c = Some b64Eq \<Longrightarrow> b64_yields (q\<lparr>b64_cnt := 0\<rparr>) e d \<Longrightarrow>
    b64_yields (fst (b64_add b64Eq (q\<lparr>b64_cnt := 0\<rparr>))) e d \<Longrightarrow> b64_yields q (c # e) (b64_eq q @ d)"
| Sextet: "b64_value c = Some v \<Longrightarrow> v \<noteq> b64Eq \<Longrightarrow> b64_yields (fst (b64_add v q)) e d \<Longrightarrow>
    b64_yields q (c # e) (snd (b64_add v q) @ d)"

inductive_cases b64_yields_NilE: "b64_yields q [] d"
inductive_cases b64_yields_ConsE: "b64_yields q (c # e) d"

lemma b64_eq_add: "snd (b64_add v (q\<lparr>b64_cnt := 0\<rparr>)) = []"
  by (simp add: b64_add_def)

lemma b64_read_yields:
  assumes "b64_read cap v q out = Some ((q', o'), s)" "b64_value c = Some v" "b64_yields q (c # e) d"
  shows "\<exists>d1 d2. o' = out @ d1 \<and> d = d1 @ d2 \<and> b64_yields q' e d2"
proof (cases "v = b64Eq")
  case True
  from assms(3) obtain d2 where d2: "d = b64_eq q @ d2" "b64_yields (q\<lparr>b64_cnt := 0\<rparr>) e d2"
      "b64_yields (fst (b64_add b64Eq (q\<lparr>b64_cnt := 0\<rparr>))) e d2"
    by (rule b64_yields_ConsE) (use assms(2) True in auto)
  have "o' = out @ b64_eq q \<and> (q' = q\<lparr>b64_cnt := 0\<rparr> \<or> q' = fst (b64_add b64Eq (q\<lparr>b64_cnt := 0\<rparr>)))"
    using assms(1) True b64_eq_add [of b64Eq q]
    by (auto simp: b64_read_def put_eq_Some bind_Some_iff split: if_splits prod.splits)
  with d2 show ?thesis by auto
next
  case False
  from assms(3) obtain d2 where d2: "d = snd (b64_add v q) @ d2" "b64_yields (fst (b64_add v q)) e d2"
    by (rule b64_yields_ConsE) (use assms(2) False in auto)
  have "o' = out @ snd (b64_add v q) \<and> q' = fst (b64_add v q)"
    using assms(1) False
    by (auto simp: b64_read_def put_eq_Some bind_Some_iff split: if_splits prod.splits)
  with d2 show ?thesis by auto
qed

lemma b64_loop_yields:
  "b64_loop cap q inp out = Some (q', o', r) \<Longrightarrow> b64_yields q inp d \<Longrightarrow>
   \<exists>d1 d2. o' = out @ d1 \<and> d = d1 @ d2 \<and> b64_yields q' r d2"
proof (induction cap q inp out arbitrary: d rule: b64_loop.induct)
  case (1 cap q out)
  then show ?case by (auto elim: b64_yields_NilE intro: b64_yields.Nil)
next
  case (2 cap q c r0 out)
  show ?case
  proof (cases "b64_value c")
    case None
    with "2.prems" (2) have "b64_yields q r0 d" by (auto elim: b64_yields_ConsE)
    with "2.IH" (1) [OF None] "2.prems" (1) None show ?thesis by simp
  next
    case (Some v)
    obtain q1 o1 s where rd: "b64_read cap v q out = Some ((q1, o1), s)"
      using "2.prems" (1) Some by (auto split: option.splits)
    obtain d1 d2 where d: "o1 = out @ d1" "d = d1 @ d2" "b64_yields q1 r0 d2"
      using b64_read_yields [OF rd Some "2.prems" (2)] by blast
    show ?thesis
    proof (cases s)
      case True
      with "2.prems" (1) Some rd d show ?thesis by auto
    next
      case False
      with "2.prems" (1) Some rd have "b64_loop cap q1 r0 o1 = Some (q', o', r)" by simp
      from "2.IH" (2) [OF Some rd refl refl False this d(3)] d show ?thesis by auto
    qed
  qed
qed

definition reads :: "mime \<Rightarrow> bytes \<Rightarrow> bytes \<Rightarrow> bool" where
  "reads m e d \<longleftrightarrow> (case m_ce m of CeASCII \<Rightarrow> d = e | CeQP \<Rightarrow> d = snd (qp_run (m_qp m) e)
     | CeB64 \<Rightarrow> b64_yields (m_b64 m) e d)"

lemma decode_next_reads:
  assumes "decode_next m e = Some (m', chunk, rest)" "reads m e d"
  shows "\<exists>d2. d = chunk @ d2 \<and> reads m' rest d2"
proof (cases "m_ce m")
  case CeQP
  then obtain q where "qp_loop 1024 (m_qp m) e [] = Some (q, chunk, rest)" "m' = m\<lparr>m_qp := q\<rparr>"
    using assms(1) by (auto simp: decode_next_def qpDecode_def tbufLen_def bind_Some_iff)
  with qp_loop_run [OF this(1)] CeQP assms(2) show ?thesis by (auto simp: reads_def)
next
  case CeB64
  then obtain q where "b64_loop 1024 (m_b64 m) e [] = Some (q, chunk, rest)" "m' = m\<lparr>m_b64 := q\<rparr>"
    using assms(1) by (auto simp: decode_next_def b64Decode_def tbufLen_def bind_Some_iff)
  with b64_loop_yields [OF this(1)] CeB64 assms(2) show ?thesis by (auto simp: reads_def)
next
  case CeASCII
  with assms show ?thesis by (auto simp: reads_def decode_next_def)
qed

lemma reads_Nil: "reads m [] d \<Longrightarrow> d = []"
  by (auto simp: reads_def elim: b64_yields_NilE split: mimeCe.splits)

lemma pieces_reads: "reads m e d \<Longrightarrow> concat (fst (pieces m e)) = d \<and> [] \<notin> set (fst (pieces m e))"
proof (induction "length e" arbitrary: m e d rule: less_induct)
  case less
  show ?case
  proof (cases "e = []")
    case True
    with less.prems show ?thesis by (auto simp: pieces.simps dest: reads_Nil)
  next
    case False
    obtain m' chunk rest where nx: "decode_next m e = Some (m', chunk, rest)"
      using decode_next_returns [of m e] by blast
    obtain d2 where "d = chunk @ d2" "reads m' rest d2" using decode_next_reads [OF nx less.prems] by blast
    with less.hyps [OF decode_next_progress [OF nx False]] nx False show ?thesis
      by (subst (1 2) pieces.simps) (auto simp: split_beta)
  qed
qed

section \<open>Quoted-printable inverted\<close>

text \<open>
  The quoted-printable encodings of a text: a byte stands for itself unless it is \<^verbatim>\<open>=\<close>, any byte
  may be \<^verbatim>\<open>=\<close> and two hexadecimal digits in either case, and a line break after \<^verbatim>\<open>=\<close> is nothing.
\<close>

inductive qp_codes :: "bytes \<Rightarrow> bytes \<Rightarrow> bool" where
  Nil: "qp_codes [] []"
| Plain: "c \<noteq> 0x3d \<Longrightarrow> qp_codes e d \<Longrightarrow> qp_codes (c # e) (c # d)"
| Quoted: "qp_hex h = Some a \<Longrightarrow> qp_hex l = Some b \<Longrightarrow> qp_codes e d \<Longrightarrow>
    qp_codes (0x3d # h # l # e) ((push_bit 4 a OR b) # d)"
| Soft: "qp_codes e d \<Longrightarrow> qp_codes (0x3d # 0x0a # e) d"
| SoftCR: "qp_codes e d \<Longrightarrow> qp_codes (0x3d # 0x0d # 0x0a # e) d"

lemma qp_hex_not_break: "qp_hex h = Some a \<Longrightarrow> h \<noteq> 0x0d \<and> h \<noteq> 0x0a"
  by (auto simp: qp_hex_def)

lemma qp_codes_run:
  "qp_codes e d \<Longrightarrow> qp_state q = QpIdle \<Longrightarrow> snd (qp_run q e) = d \<and> qp_state (fst (qp_run q e)) = QpIdle"
proof (induction arbitrary: q rule: qp_codes.induct)
  case (Quoted h a l b e d)
  let ?q = "q\<lparr>qp_x := h, qp_n := a, qp_y := l, qp_state := QpIdle\<rparr>"
  have "qp_run q (0x3d # h # l # e) = (fst (qp_run ?q e), (push_bit 4 a OR b) # snd (qp_run ?q e))"
    using Quoted.prems Quoted.hyps(1,2) qp_hex_not_break [OF Quoted.hyps(1)]
    by (simp add: qp_run.simps(2) qp_step_def split_beta)
  with Quoted.IH [of ?q] show ?case by simp
next
  case (Soft e d)
  with Soft.IH [of "q\<lparr>qp_x := 0x0a, qp_state := QpIdle\<rparr>"] show ?case
    by (simp add: qp_run.simps(2) qp_step_def split_beta)
next
  case (SoftCR e d)
  with SoftCR.IH [of "q\<lparr>qp_x := 0x0d, qp_y := 0x0a, qp_state := QpIdle\<rparr>"] show ?case
    by (simp add: qp_run.simps(2) qp_step_def split_beta)
qed (simp_all add: qp_run.simps(2) qp_step_def split_beta)

text \<open>An encoder: every byte quoted, with lower-case digits.\<close>

definition qp_quote :: "bytes \<Rightarrow> bytes" where
  "qp_quote d = concat (map (\<lambda>c. 0x3d # hex2 c) d)"

section \<open>Base64 inverted\<close>

definition b64_alphabet :: bytes where
  "b64_alphabet = str ''ABCDEFGHIJKLMNOPQRSTUVWXYZabcdefghijklmnopqrstuvwxyz0123456789+/''"

definition b64_char :: "byte \<Rightarrow> byte" where
  "b64_char v = b64_alphabet ! unat v"

fun b64_encode :: "bytes \<Rightarrow> bytes" where
  "b64_encode [] = []"
| "b64_encode [a] = [b64_char (drop_bit 2 a), b64_char (push_bit 4 (a AND 3)), 0x3d, 0x3d]"
| "b64_encode [a, b] = [b64_char (drop_bit 2 a), b64_char (push_bit 4 (a AND 3) OR drop_bit 4 b),
     b64_char (push_bit 2 (b AND 15)), 0x3d]"
| "b64_encode (a # b # c # r) = b64_char (drop_bit 2 a) # b64_char (push_bit 4 (a AND 3) OR drop_bit 4 b)
     # b64_char (push_bit 2 (b AND 15) OR drop_bit 6 c) # b64_char (c AND 63) # b64_encode r"

lemma b64_value_char:
  assumes "v < 64" shows "b64_value (b64_char v) = Some v"
proof -
  have "\<forall>v \<in> set (map of_nat [0..<64]). b64_value (b64_char v) = Some (v :: byte)" by code_simp
  moreover have "v \<in> set (map of_nat [0..<64])"
    using assms by (auto simp: word_less_nat_alt intro!: image_eqI [of _ _ "unat v"])
  ultimately show ?thesis by blast
qed

lemma b64_value_eq: "b64_value 0x3d = Some b64Eq" "b64Eq = 0x41"
  by (simp_all add: b64_value_def base64Decode_def b64Eq_def b64Bad_def)

lemma byte_masks: "(3 :: byte) = mask 2" "(15 :: byte) = mask 4" "(63 :: byte) = mask 6"
  by (simp_all add: mask_eq_exp_minus_1)

lemma sextetI: "(\<And>n. bit v n \<Longrightarrow> n < 6) \<Longrightarrow> v < (64 :: byte)"
proof -
  assume b: "\<And>n. bit v n \<Longrightarrow> n < 6"
  have "take_bit 6 v = v" by (rule bit_eqI) (auto simp: bit_take_bit_iff b)
  then have "unat v = take_bit 6 (unat v)" by (metis unsigned_take_bit_eq)
  also have "\<dots> < 2 ^ 6" by (rule take_bit_nat_less_exp)
  finally show ?thesis by (simp add: word_less_nat_alt)
qed

lemma sextets: "drop_bit 2 a < (64 :: byte)" "push_bit 4 (a AND 3) < (64 :: byte)"
  "push_bit 4 (a AND 3) OR drop_bit 4 b < (64 :: byte)" "push_bit 2 (b AND 15) < (64 :: byte)"
  "push_bit 2 (b AND 15) OR drop_bit 6 c < (64 :: byte)" "c AND 63 < (64 :: byte)"
  by (rule sextetI; auto simp: bit_simps byte_masks dest: bit_imp_le_length)+

definition quantum4 :: "u32 \<Rightarrow> byte \<Rightarrow> byte \<Rightarrow> byte \<Rightarrow> byte \<Rightarrow> u32" where
  "quantum4 w v1 v2 v3 v4 =
     push_bit 6 (push_bit 6 (push_bit 6 (push_bit 6 w OR ucast v1) OR ucast v2) OR ucast v3) OR ucast v4"

lemma byte_eqI:
  assumes "\<And>n. n \<in> {0, 1, 2, 3, 4, 5, 6, 7} \<Longrightarrow> bit x n = bit (y :: byte) n"
  shows "x = y"
proof (rule bit_word_eqI)
  fix n assume "n < LENGTH(8)"
  then have "n \<in> {0, 1, 2, 3, 4, 5, 6, 7}" by auto
  then show "bit x n = bit y n" by (rule assms)
qed

lemma high_bits [simp]: "8 \<le> n \<Longrightarrow> \<not> bit (x :: byte) n"
  using bit_imp_le_length [of x n] by auto

lemma quantum4_bytes:
  assumes "w = quantum4 w0 (drop_bit 2 a) (push_bit 4 (a AND 3) OR drop_bit 4 b) (push_bit 2 (b AND 15) OR drop_bit 6 c) (c AND 63)"
  shows "ucast (drop_bit 16 w) = a" "ucast (drop_bit 8 w) = b" "ucast w = c"
proof -
  note bits = bit_simps byte_masks assms quantum4_def
  show "ucast (drop_bit 16 w) = a"
    by (rule byte_eqI) (elim insertE emptyE; simp add: bits)
  show "ucast (drop_bit 8 w) = b"
    by (rule byte_eqI) (elim insertE emptyE; simp add: bits)
  show "ucast w = c"
    by (rule byte_eqI) (elim insertE emptyE; simp add: bits)
qed

lemma quantum2_byte:
  assumes "w' = push_bit 6 (push_bit 6 w OR ucast (drop_bit 2 a)) OR ucast (push_bit 4 (a AND 3) :: byte)"
  shows "ucast (drop_bit 4 (w' :: u32)) = (a :: byte)"
  unfolding assms by (rule byte_eqI) (elim insertE emptyE; simp add: bit_simps byte_masks)

lemma quantum3_bytes:
  assumes "w' = push_bit 6 (push_bit 6 (push_bit 6 w OR ucast (drop_bit 2 a)) OR ucast (push_bit 4 (a AND 3) OR drop_bit 4 b))
    OR ucast (push_bit 2 (b AND 15) :: byte)"
  shows "ucast (drop_bit 10 (w' :: u32)) = (a :: byte)" "ucast (drop_bit 2 w') = (b :: byte)"
proof -
  note bits = bit_simps byte_masks assms
  show "ucast (drop_bit 10 w') = a" by (rule byte_eqI) (elim insertE emptyE; simp add: bits)
  show "ucast (drop_bit 2 w') = b" by (rule byte_eqI) (elim insertE emptyE; simp add: bits)
qed

lemma yields_char:
  assumes "v < 64" "b64_cnt q < 3"
    "b64_yields (q\<lparr>b64_quantum := push_bit 6 (b64_quantum q) OR ucast v, b64_cnt := b64_cnt q + 1\<rparr>) e d"
  shows "b64_yields q (b64_char v # e) d"
proof -
  have "v \<noteq> b64Eq" using assms(1) by (auto simp: b64_value_eq word_less_nat_alt)
  from b64_yields.Sextet [OF b64_value_char [OF assms(1)] this, of q e d] assms(2,3) show ?thesis
    by (simp add: b64_add_def Let_def)
qed

lemma yields_char4:
  assumes "v < 64" "b64_cnt q = 3"
    "b64_yields (q\<lparr>b64_quantum := push_bit 6 (b64_quantum q) OR ucast v, b64_cnt := 0\<rparr>) e d"
    "w = push_bit 6 (b64_quantum q) OR ucast v"
  shows "b64_yields q (b64_char v # e) (ucast (drop_bit 16 w) # ucast (drop_bit 8 w) # ucast w # d)"
proof -
  have "v \<noteq> b64Eq" using assms(1) by (auto simp: b64_value_eq word_less_nat_alt)
  from b64_yields.Sextet [OF b64_value_char [OF assms(1)] this, of q e d] assms(2,3,4) show ?thesis
    by (simp add: b64_add_def Let_def)
qed

lemma yields_pad_end: "b64_cnt q \<le> 1 \<Longrightarrow> b64_yields q [0x3d] []"
  using b64_yields.Pad [OF b64_value_eq(1) b64_yields.Nil b64_yields.Nil, of q] by (simp add: b64_eq_def)

lemma b64_encode_yields: "b64_cnt q = 0 \<Longrightarrow> b64_yields q (b64_encode d) d"
proof (induction d arbitrary: q rule: b64_encode.induct)
  case 1
  show ?case by (simp add: b64_yields.Nil)
next
  case (2 a)
  let ?q = "\<lambda>w n. q\<lparr>b64_quantum := w, b64_cnt := n\<rparr>"
  define w where "w = push_bit 6 (push_bit 6 (b64_quantum q) OR ucast (drop_bit 2 a))
    OR ucast (push_bit 4 (a AND 3))"
  have "b64_yields (?q w 2) [0x3d, 0x3d] (b64_eq (?q w 2) @ [])"
    by (rule b64_yields.Pad [OF b64_value_eq(1)]; rule yields_pad_end) (simp_all add: b64_add_def Let_def)
  then have "b64_yields (?q w 2) [0x3d, 0x3d] [a]" by (simp add: b64_eq_def quantum2_byte [OF w_def])
  then have "b64_yields (?q w (Suc (Suc 0))) [0x3d, 0x3d] [a]" by (simp only: numeral_2_eq_2)
  with 2 show ?case
    unfolding b64_encode.simps w_def
    by (intro yields_char sextets) simp_all
next
  case (3 a b)
  let ?q = "\<lambda>w n. q\<lparr>b64_quantum := w, b64_cnt := n\<rparr>"
  define w where "w = (push_bit 6 (push_bit 6 (push_bit 6 (b64_quantum q) OR ucast (drop_bit 2 a))
    OR ucast (push_bit 4 (a AND 3) OR drop_bit 4 b)) OR ucast (push_bit 2 (b AND 15)) :: u32)"
  have "b64_yields (?q w 3) [0x3d] (b64_eq (?q w 3) @ [])"
    by (rule b64_yields.Pad [OF b64_value_eq(1)]; rule b64_yields.Nil)
  then have "b64_yields (?q w 3) [0x3d] [a, b]" by (simp add: b64_eq_def quantum3_bytes [OF w_def])
  then have "b64_yields (?q w (Suc (Suc (Suc 0)))) [0x3d] [a, b]" by (simp only: numeral_3_eq_3)
  with 3 show ?case
    unfolding b64_encode.simps w_def
    by (intro yields_char sextets) simp_all
next
  case (4 a b c r)
  let ?q = "\<lambda>w n. q\<lparr>b64_quantum := w, b64_cnt := n\<rparr>"
  define w where "w = quantum4 (b64_quantum q) (drop_bit 2 a) (push_bit 4 (a AND 3) OR drop_bit 4 b)
    (push_bit 2 (b AND 15) OR drop_bit 6 c) (c AND 63)"
  define w3 where "w3 = push_bit 6 (push_bit 6 (push_bit 6 (b64_quantum q) OR ucast (drop_bit 2 a))
    OR ucast (push_bit 4 (a AND 3) OR drop_bit 4 b)) OR ucast (push_bit 2 (b AND 15) OR drop_bit 6 c)"
  have "b64_yields (?q w 0) (b64_encode r) r" using 4 by simp
  then have "b64_yields (?q w3 3) (b64_char (c AND 63) # b64_encode r) (a # b # c # r)"
    using yields_char4 [OF sextets(6), of "?q w3 3" c "b64_encode r" r w] quantum4_bytes [OF w_def]
    by (simp add: w_def w3_def quantum4_def)
  then have "b64_yields (?q w3 (Suc (Suc (Suc 0)))) (b64_char (c AND 63) # b64_encode r) (a # b # c # r)"
    by (simp only: numeral_3_eq_3)
  with 4 show ?case
    unfolding b64_encode.simps w3_def
    by (intro yields_char [OF sextets(1) _ yields_char [OF sextets(3) _ yields_char [OF sextets(5)]]]) simp_all
qed

text \<open>Bytes that are no base64 digits and no padding are passed over.\<close>

lemma b64_yields_filter:
  "b64_yields q (filter (\<lambda>c. b64_value c \<noteq> None) e) d \<Longrightarrow> b64_yields q e d"
proof (induction e arbitrary: q d)
  case (Cons c e)
  then show ?case
    by (cases "b64_value c") (auto intro: b64_yields.intros elim!: b64_yields_ConsE)
qed simp

section \<open>Round trips\<close>

lemma pieces_qp: "m_ce m = CeQP \<Longrightarrow> m_qp (snd (pieces m e)) = fst (qp_run (m_qp m) e)"
proof (induction "length e" arbitrary: m e rule: less_induct)
  case less
  show ?case
  proof (cases "e = []")
    case False
    obtain m' chunk rest where nx: "decode_next m e = Some (m', chunk, rest)"
      using decode_next_returns [of m e] by blast
    then have q: "qp_loop 1024 (m_qp m) e [] = Some (m_qp m', chunk, rest)" "m_ce m' = CeQP"
      using less.prems by (auto simp: decode_next_def qpDecode_def tbufLen_def bind_Some_iff)
    from less.hyps [OF decode_next_progress [OF nx False] q(2)] qp_loop_run [OF q(1)] nx False show ?thesis
      by (subst pieces.simps) (auto simp: split_beta)
  qed (simp add: pieces.simps)
qed

text \<open>
  C8. A quoted-printable body, with any mixture of plain bytes, quoted bytes in upper or lower
  case and soft line breaks, reaches the checksummers as the text it encodes: \<open>decodeSum\<close> runs
  them over non-empty pieces that put together are that text, and the decoder is idle again.
\<close>

theorem quoted_printable_decoded:
  assumes "qp_codes e d" "m_ce (c_m c) = CeQP" "qp_state (m_qp (c_m c)) = QpIdle" "m_mp (c_m c) = MpText"
  shows "\<exists>chunks m. concat chunks = d \<and> [] \<notin> set chunks \<and> qp_state (m_qp m) = QpIdle
    \<and> decodeSum tbls e c = fold_opt (sum_chunk fuz1 tbls) chunks (set_decoders m c)"
proof -
  note run = qp_codes_run [OF assms(1,3)]
  from run have "reads (c_m c) e d" using assms(2) by (simp add: reads_def)
  from pieces_reads [OF this] pieces_qp [OF assms(2), of e] run decodeSum_pieces [OF assms(4), of tbls e]
  show ?thesis by (intro exI [of _ "fst (pieces (c_m c) e)"] exI [of _ "snd (pieces (c_m c) e)"]) simp
qed

definition qp_message :: cks where
  "qp_message = newCks\<lparr>c_m := newMime\<lparr>m_ce := CeQP\<rparr>\<rparr>"

theorem quoted_printable_decoded_witness:
  "\<exists>chunks m. concat chunks = str ''caf'' @ [0xe9] \<and> [] \<notin> set chunks \<and> qp_state (m_qp m) = QpIdle
    \<and> decodeSum [] (str ''c'' @ [0x3d, 0x0d, 0x0a] @ str ''af=E9'') qp_message
      = fold_opt (sum_chunk fuz1 []) chunks (set_decoders m qp_message)"
proof (rule quoted_printable_decoded)
  have "qp_codes [0x3d, 0x45, 0x39] [push_bit 4 0xe OR 9]"
    by (rule qp_codes.intros | simp add: qp_hex_def word_le_nat_alt)+
  then have "qp_codes [0x3d, 0x45, 0x39] [0xe9]" by simp
  then show "qp_codes (str ''c'' @ [0x3d, 0x0d, 0x0a] @ str ''af=E9'') (str ''caf'' @ [0xe9])"
    by (auto simp: str_def intro!: qp_codes.intros(2,5))
qed (simp_all add: qp_message_def newMime_def decodersInit_def newCks_def)

text \<open>
  C9. A base64 body, wherever its lines are broken and whatever bytes outside the alphabet are
  mixed in, reaches the checksummers as the text it encodes.
\<close>

theorem base64_decoded:
  assumes "filter (\<lambda>b. b64_value b \<noteq> None) e = b64_encode d" "m_ce (c_m c) = CeB64"
    "b64_cnt (m_b64 (c_m c)) = 0" "m_mp (c_m c) = MpText"
  shows "\<exists>chunks m. concat chunks = d \<and> [] \<notin> set chunks
    \<and> decodeSum tbls e c = fold_opt (sum_chunk fuz1 tbls) chunks (set_decoders m c)"
proof -
  have "reads (c_m c) e d"
    using assms(2) b64_yields_filter [of "m_b64 (c_m c)" e d] b64_encode_yields [OF assms(3), of d] assms(1)
    by (simp add: reads_def)
  from pieces_reads [OF this] decodeSum_pieces [OF assms(4), of tbls e] show ?thesis
    by (intro exI [of _ "fst (pieces (c_m c) e)"] exI [of _ "snd (pieces (c_m c) e)"]) simp
qed

definition b64_message :: cks where
  "b64_message = newCks\<lparr>c_m := newMime\<lparr>m_ce := CeB64\<rparr>\<rparr>"

theorem base64_decoded_witness:
  "\<exists>chunks m. concat chunks = str ''abcd'' \<and> [] \<notin> set chunks
    \<and> decodeSum [] (str ''YWJj'' @ [0x0a] @ str ''ZA=='' @ [0x0a]) b64_message
      = fold_opt (sum_chunk fuz1 []) chunks (set_decoders m b64_message)"
proof (rule base64_decoded)
  show "filter (\<lambda>b. b64_value b \<noteq> None) (str ''YWJj'' @ [0x0a] @ str ''ZA=='' @ [0x0a]) = b64_encode (str ''abcd'')"
    by code_simp
qed (simp_all add: b64_message_def newMime_def decodersInit_def newCks_def)

text \<open>
  Padding does not end a quantum: after \<^verbatim>\<open>==\<close> the decoder goes on with the padding sign as a
  first sextet, so of two padded texts one after the other, here the encodings of A and of
  ABC, the second is not read as what it encodes.
\<close>

theorem base64_padding_misaligns:
  "b64_encode (str ''A'') = str ''QQ=='' \<and> b64_encode (str ''ABC'') = str ''QUJD''
   \<and> map_option (\<lambda>(q, out, rest). (b64_cnt q, out, rest)) (b64Decode 1024 \<lparr>b64_quantum = 0, b64_cnt = 0\<rparr> (str ''QQ==QUJD''))
     = Some (1, [0x41, 0x05, 0x05, 0x09], [])"
  by code_simp

end
