(* ===== verification/Plain_Mail.thy ===== *)
theory Plain_Mail
  imports Message_Props Fuz1_Lines
begin

text \<open>
  The checksums of plain mail in closed form: for a message without Content-T fields, whose body
  has no markup, reference or slash, the whole chain from the split through the transfer decoding
  to the three checksummers is replaced by functions of the fields and the body.
\<close>

section \<open>The three body checksums\<close>

text \<open>What the Body checksum accepts of a text; a started \<^verbatim>\<open>>From\<close> at its end is still pending.\<close>

definition accepted :: "bytes \<Rightarrow> bytes" where
  "accepted body = fst (abs_run body 1)"

definition plain_body :: "bytes \<Rightarrow> Sum \<times> bool" where
  "plain_body body = (md5_digest (accepted body), 30 \<le> length (accepted body))"

definition plain_fuz1 :: "bytes \<Rightarrow> Sum \<times> bool" where
  "plain_fuz1 body = line_digest (line_chunk [0x0a] (line_chunk body line_new))"

text \<open>The words of the text that language \<open>i\<close> has, and the first list of the greatest length.\<close>

definition dict_words :: "fuz2Tbl list \<Rightarrow> bytes \<Rightarrow> nat \<Rightarrow> bytes list" where
  "dict_words tbls body i =
     filter (in_lang tbls Iso1 i) (words_from [] (map (fold_byte Iso1) (body @ [0x0a])))"

definition longest :: "'a list list \<Rightarrow> 'a list" where
  "longest xss = hd (filter (\<lambda>xs. \<forall>ys \<in> set xss. length ys \<le> length xs) xss)"

definition plain_fuz2 :: "fuz2Tbl list \<Rightarrow> bytes \<Rightarrow> Sum \<times> bool" where
  "plain_fuz2 tbls body =
     (let ws = longest (map (dict_words tbls body) [0..<4]); n = length ws
      in if n < 8 \<or> n < 100 \<and> sum_list (map length ws) * 10 < length (visible Iso1 body)
         then (replicate 16 0, False) else (md5_digest (concat ws), True))"

lemma hd_filter_first:
  "i < length xs \<Longrightarrow> P (xs ! i) \<Longrightarrow> (\<And>j. j < i \<Longrightarrow> \<not> P (xs ! j)) \<Longrightarrow> hd (filter P xs) = xs ! i"
proof (induction xs arbitrary: i)
  case (Cons x xs)
  show ?case
  proof (cases i)
    case (Suc k)
    then have "\<not> P x" "\<And>j. j < k \<Longrightarrow> \<not> P (xs ! j)" using Cons.prems(3) [of 0] Cons.prems(3) by auto force
    with Cons.IH [of k] Cons.prems Suc show ?thesis by simp
  qed (use Cons.prems in simp)
qed simp

lemma longest_first:
  assumes "b < n" "\<forall>j < n. length (g j) \<le> length (g b)" "\<forall>j < b. length (g j) < length (g b)"
  shows "longest (map g [0..<n]) = g b"
proof -
  have "hd (filter (\<lambda>xs. \<forall>ys \<in> set (map g [0..<n]). length ys \<le> length xs) (map g [0..<n])) = map g [0..<n] ! b"
  proof (rule hd_filter_first)
    fix j assume "j < b"
    with assms show "\<not> (\<forall>ys \<in> set (map g [0..<n]). length ys \<le> length (map g [0..<n] ! j))"
      by (force simp: not_le intro: bexI [of _ "g b"])
  qed (use assms in auto)
  with assms(1) show ?thesis by (simp add: longest_def)
qed

lemma fuz2_final_words:
  assumes "langs_hold tbls Iso1 (f2_lang z) ws" "u_doms u = 0" "f2_xsummed z = 0"
    "ws = words_from [] (map (fold_byte Iso1) (body @ [0x0a]))" "f2_btotal z = length (visible Iso1 body)"
  shows "fuz2_final z (Some u) = Some (plain_fuz2 tbls body)"
proof -
  let ?b = "fuz2_best (f2_lang z) 0 [1..<fuz2LangNum]"
  note b = fuz2_best_spec [of "f2_lang z"]
  have h: "lang_holds (f2_lang z ! i) (dict_words tbls body i)" if "i < 4" for i
    using assms(1,4) that by (simp add: langs_hold_def fuz2LangNum_def dict_words_def)
  then have l: "l_wtotal (f2_lang z ! i) = length (dict_words tbls body i)" if "i < 4" for i
    using that by (simp add: lang_holds_def)
  have "longest (map (dict_words tbls body) [0..<4]) = dict_words tbls body ?b"
    using b by (intro longest_first) (auto simp: l)
  with h [OF b(1)] assms(2,3,5) show ?thesis
    by (auto simp: fuz2_final_def plain_fuz2_def Let_def lang_holds_def fuz2FewWords_def fuz2MinWords_def md5_sum_digest)
qed

section \<open>The body\<close>

definition plain_text :: "bytes \<Rightarrow> bool" where
  "plain_text body \<longleftrightarrow> 0x26 \<notin> set body \<and> 0x2f \<notin> set body \<and> 0x3c \<notin> set body"

definition plain_mime :: "mime \<Rightarrow> bool" where
  "plain_mime m \<longleftrightarrow> m_nest m = 0 \<and> m_mp m = MpText \<and> m_ce m = CeASCII \<and> m_ct m = CtText \<and> m_cset m = Iso1"

text \<open>The context after a plain text: each checksummer holds its own abstraction of it.\<close>

definition holds_text :: "fuz2Tbl list \<Rightarrow> bytes \<Rightarrow> lineState \<Rightarrow> bytes \<Rightarrow> cks \<Rightarrow> bool" where
  "holds_text tbls t a body c \<longleftrightarrow> feeds (c_body c) t \<and> ctx_rel (c_fz1 c, c_url c) a
     \<and> plain tbls Iso1 (c_fz2 c) (open_seg [] (map (fold_byte Iso1) body)) (words_from [] (map (fold_byte Iso1) body))
     \<and> f2_btotal (c_fz2 c) = length (visible Iso1 body) \<and> f2_xsummed (c_fz2 c) = 0 \<and> plain_mime (c_m c)"

lemma holds_new:
  assumes "plain_mime m"
  shows "holds_text tbls [] line_new [] (newCks\<lparr>c_m := m\<rparr>)"
proof -
  have "feeds newBodyState []" by (simp add: feeds_def newBodyState_def)
  with assms show ?thesis
    using plain_new new_rel by (simp add: holds_text_def newCks_def visible_def) (simp add: newFuz2State_def)
qed

lemma holds_fuz1:
  assumes "holds_text tbls t a body c" "plain_text bp"
  shows "\<exists>f u. sum_fuz1 fuz1 bp c = Some (c\<lparr>c_fz1 := f, c_url := u\<rparr>)
    \<and> holds_text tbls t (line_chunk bp a) body (c\<lparr>c_fz1 := f, c_url := u\<rparr>)"
proof -
  obtain f u where "fuz1 (fz2WordCount c) bp (c_fz1 c, c_url c) = Some (f, u)" "ctx_rel (f, u) (line_chunk bp a)"
    using fuz1_rel [of "(c_fz1 c, c_url c)" a bp "fz2WordCount c"] assms by (auto simp: holds_text_def plain_text_def)
  with assms(1) show ?thesis by (intro exI [of _ f] exI [of _ u]) (simp add: sum_fuz1_def holds_text_def)
qed

lemma holds_fuz2:
  assumes "tbls_ok tbls" "holds_text tbls t a body c" "plain_text bp"
  shows "\<exists>z. sum_fuz2 tbls bp c = Some (c\<lparr>c_fz2 := z\<rparr>) \<and> holds_text tbls t a (body @ bp) (c\<lparr>c_fz2 := z\<rparr>)"
proof -
  have m: "m_ct (c_m c) \<noteq> CtHTML" "m_cset (c_m c) = Iso1" using assms(2) by (auto simp: holds_text_def plain_mime_def)
  have "\<forall>x \<in> set bp. fold_byte Iso1 x \<noteq> fcLT" using assms(3) by (auto simp: plain_text_def fcLT_def fold_byte_lt)
  with assms(1,2) m(1) obtain z where "fuz2 tbls Iso1 bp (c_fz2 c, m_ct (c_m c)) = Some (z, m_ct (c_m c))"
      "holds_text tbls t a (body @ bp) (c\<lparr>c_fz2 := z\<rparr>)"
    using plain_run [of tbls Iso1 "c_fz2 c" "open_seg [] (map (fold_byte Iso1) body)" _ "m_ct (c_m c)" bp]
    by (auto simp: holds_text_def words_from_append open_seg_append visible_def)
  with m(2) show ?thesis by (intro exI [of _ z]) (simp add: sum_fuz2_def)
qed

lemma holds_body:
  assumes "holds_text tbls t a s c" "c_body c = newBodyState" "t = []"
  shows "\<exists>b. sum_body bp c = Some (c\<lparr>c_body := b\<rparr>) \<and> holds_text tbls (accepted bp) a s (c\<lparr>c_body := b\<rparr>)"
  using body0_abs [of newBodyState "[]" bp] assms
  by (auto simp: holds_text_def sum_body_def accepted_def newBodyState_def)

lemma plain_ckBody:
  assumes "tbls_ok tbls" "plain_mime m" "plain_text body"
  shows "\<exists>c. ckBody fuz1 tbls body (newCks\<lparr>c_m := m\<rparr>) = Some c
    \<and> holds_text tbls (accepted body) (line_chunk body line_new) body c"
proof -
  let ?c = "newCks\<lparr>c_m := m\<rparr>"
  have e: "ckBody fuz1 tbls body ?c = decode_loop fuz1 tbls body ?c"
    using assms(2) by (simp add: ckBody_def decodeSum_with_def plain_mime_def)
  show ?thesis
  proof (cases "body = []")
    case True
    moreover have "line_chunk [] line_new = line_new" by (simp add: line_chunk_def line_new_def)
    ultimately show ?thesis
      unfolding e using holds_new [OF assms(2), of tbls] by (simp add: decode_loop.simps accepted_def)
  next
    case False
    obtain b where b: "sum_body body ?c = Some (?c\<lparr>c_body := b\<rparr>)" "holds_text tbls (accepted body) line_new [] (?c\<lparr>c_body := b\<rparr>)"
      using holds_body [OF holds_new [OF assms(2), of tbls], of body] by (auto simp: newCks_def)
    obtain f u where f: "sum_fuz1 fuz1 body (?c\<lparr>c_body := b\<rparr>) = Some (?c\<lparr>c_body := b, c_fz1 := f, c_url := u\<rparr>)"
      "holds_text tbls (accepted body) (line_chunk body line_new) [] (?c\<lparr>c_body := b, c_fz1 := f, c_url := u\<rparr>)"
      using holds_fuz1 [OF b(2) assms(3)] by blast
    obtain z where z: "sum_fuz2 tbls body (?c\<lparr>c_body := b, c_fz1 := f, c_url := u\<rparr>)
        = Some (?c\<lparr>c_body := b, c_fz1 := f, c_url := u, c_fz2 := z\<rparr>)" (is "_ = Some ?d")
      "holds_text tbls (accepted body) (line_chunk body line_new) body (?c\<lparr>c_body := b, c_fz1 := f, c_url := u, c_fz2 := z\<rparr>)"
      using holds_fuz2 [OF assms(1) f(2) assms(3)] by auto
    have "sum_chunk fuz1 tbls body ?c = Some ?d"
      using assms(2) by (simp add: sum_chunk_def b(1) f(1) z(1) plain_mime_def)
    moreover have "decode_next m body = Some (m, body, [])" using assms(2) by (simp add: decode_next_def plain_mime_def)
    ultimately have "decode_loop fuz1 tbls body ?c = Some ?d"
      using False by (subst decode_loop.simps) (simp add: decode_loop.simps)
    with z(2) show ?thesis unfolding e by blast
  qed
qed

lemma plain_computeBody:
  assumes "tbls_ok tbls" "plain_mime m" "plain_text body"
  shows "computeBody fuz1 tbls body (newCks\<lparr>c_m := m\<rparr>) = Some (plain_body body, plain_fuz1 body, plain_fuz2 tbls body)"
proof -
  have nl: "plain_text [0x0a]" "visible Iso1 (body @ [0x0a]) = visible Iso1 body"
    by (simp_all add: plain_text_def visible_def) code_simp
  obtain c where c: "ckBody fuz1 tbls body (newCks\<lparr>c_m := m\<rparr>) = Some c"
    "holds_text tbls (accepted body) (line_chunk body line_new) body c" using plain_ckBody [OF assms] by blast
  obtain f u where f: "sum_fuz1 fuz1 [0x0a] c = Some (c\<lparr>c_fz1 := f, c_url := u\<rparr>)"
    "holds_text tbls (accepted body) (line_chunk [0x0a] (line_chunk body line_new)) body (c\<lparr>c_fz1 := f, c_url := u\<rparr>)"
    using holds_fuz1 [OF c(2) nl(1)] by blast
  obtain z where z: "sum_fuz2 tbls [0x0a] (c\<lparr>c_fz1 := f, c_url := u\<rparr>) = Some (c\<lparr>c_fz1 := f, c_url := u, c_fz2 := z\<rparr>)"
    "holds_text tbls (accepted body) (line_chunk [0x0a] (line_chunk body line_new)) (body @ [0x0a]) (c\<lparr>c_fz1 := f, c_url := u, c_fz2 := z\<rparr>)"
    using holds_fuz2 [OF assms(1) f(2) nl(1)] by blast
  have "fuz2_final z (Some u) = Some (plain_fuz2 tbls body)"
    using z(2) nl(2) by (intro fuz2_final_words [where tbls = tbls]) (auto simp: holds_text_def plain_def ctx_rel_def before_host_def)
  with z(2) show ?thesis
    by (simp add: computeBody_def c(1) f(1) z(1) body_final_feeds plain_body_def plain_fuz1_def holds_text_def ctx_rel_def final_rel)
qed

section \<open>The message\<close>

definition plain_checksums :: "fuz2Tbl list \<Rightarrow> bytes list \<Rightarrow> bytes \<Rightarrow> Checksum list" where
  "plain_checksums tbls fs body =
     opt_ck CkEnvFrom (map_option (str2ck []) (envelope fs))
     @ opt_ck CkFrom (hdr_value ''From:'' fs)
     @ [add_ck CkMessageID (case hdr_value ''Message-ID:'' fs of Some s \<Rightarrow> s | None \<Rightarrow> str2ck [] [])
          (hdr_value ''Message-ID:'' fs \<noteq> None)]
     @ opt_ck CkReceived (hdr_value ''Received:'' fs)
     @ valid_ck CkBody (plain_body body) @ valid_ck CkFuz1 (plain_fuz1 body) @ valid_ck CkFuz2 (plain_fuz2 tbls body)"

text \<open>
  C2. The checksums of plain mail, from the message to the list of sums: for any header fields but
  Content-T ones, folded or not, a blank line in either form and any body without \<^verbatim>\<open>&\<close>, \<^verbatim>\<open>/\<close>
  and \<^verbatim>\<open><\<close>, \<open>Checksums\<close> returns the sums of the envelope sender and of the last From, Message-ID and
  Received fields, the MD5 of the body without white space, the MD5 of the letters the line machine
  keeps, and the MD5 of the dictionary words of the language that has most of them.
\<close>

theorem plain_mail_checksums:
  assumes "tbls_ok tbls" "list_all hdr_field fs" "sep = [0x0a] \<or> sep = [0x0d, 0x0a]"
    "\<forall>f \<in> set fs. \<not> hasPrefixFold f ''Content-T''" "plain_text body"
  shows "Checksums tbls (concat fs @ sep @ body) = Some (plain_checksums tbls fs body)"
proof -
  have "join_lines [] (concat fs @ sep @ body) = (fs, body)" by (rule join_layout [OF assms(2,3)])
  moreover obtain m where "fold_opt ckMimeHdr fs newMime = Some m" "plain_mime m"
    using plain_fields [OF assms(4), of newMime] by (auto simp: newMime_def decodersInit_def plain_mime_def)
  ultimately show ?thesis
    using plain_computeBody [OF assms(1) _ assms(5), of m]
    by (simp add: Checksums_def Checksums_with_def splitHeadersBody_join field_steps field_fold_values plain_checksums_def)
qed

text \<open>A concrete message: a field, a blank line and two lines of text, the second a greeting.\<close>

definition sale_from :: bytes where
  "sale_from = str ''From: a@b.c'' @ [0x0a]"

definition sale_text :: bytes where
  "sale_text = str ''Buy one, get one for free, today only at our shop'' @ [0x0a] @ str ''Dear Bob, see you'' @ [0x0a]"

lemma small_tbls_word: "i < 4 \<Longrightarrow> in_lang small_tbls cs i w \<longleftrightarrow> w = str ''the''"
  by (simp add: in_lang_def small_tbls_def in_dict_def str_def)

lemma sale_sums:
  "plain_body sale_text = (md5_digest (str ''Buyone,getoneforfree,todayonlyatourshopDearBob,seeyou''), True)"
  "plain_fuz1 sale_text = (md5_digest (str ''buyonegetoneforfreetodayonlyatourshop''), True)"
  "plain_fuz2 small_tbls sale_text = (replicate 16 0, False)"
proof -
  have "accepted sale_text = str ''Buyone,getoneforfree,todayonlyatourshopDearBob,seeyou''" by code_simp
  then show "plain_body sale_text = (md5_digest (str ''Buyone,getoneforfree,todayonlyatourshopDearBob,seeyou''), True)"
    by (simp add: plain_body_def)
  have sum: "summed_letters sale_text = str ''buyonegetoneforfreetodayonlyatourshop''" "length (letters sale_text) < 234"
    by code_simp+
  have "ln_out (line_chunk [0x0a] (line_chunk sale_text line_new)) = str ''buyonegetoneforfreetodayonlyatourshop''"
    using line_body_short [OF sum(2)] sum(1) by (simp add: line_chunks_def)
  then show "plain_fuz1 sale_text = (md5_digest (str ''buyonegetoneforfreetodayonlyatourshop''), True)"
    by (simp add: plain_fuz1_def line_digest_def)
  have fold: "map (fold_byte Iso1) (sale_text @ [0x0a])
      = str ''buy one  get one for free  today only at our shop dear bob  see you  ''" by code_simp
  have "str ''the'' \<notin> set (words_from [] (map (fold_byte Iso1) (sale_text @ [0x0a])))"
    unfolding fold by code_simp
  then have "dict_words small_tbls sale_text i = []" if "i < 4" for i
    using that by (auto simp: dict_words_def small_tbls_word filter_empty_conv)
  then have "longest (map (dict_words small_tbls sale_text) [0..<4]) = []" by (simp add: longest_def upt_rec)
  then show "plain_fuz2 small_tbls sale_text = (replicate 16 0, False)" by (simp add: plain_fuz2_def)
qed

theorem plain_mail_checksums_witness:
  "Checksums small_tbls (concat [sale_from] @ [0x0a] @ sale_text) = Some
     [add_ck CkFrom (str2ck [] (str '' a@b.c'' @ [0x0a])) True,
      add_ck CkMessageID (str2ck [] []) False,
      add_ck CkBody (md5_digest (str ''Buyone,getoneforfree,todayonlyatourshopDearBob,seeyou'')) True,
      add_ck CkFuz1 (md5_digest (str ''buyonegetoneforfreetodayonlyatourshop'')) True]"
proof -
  have f: "hdr_field sale_from"
    by (intro hdr_field.Start) (simp_all add: sale_from_def phys_line_def isBlankLine_def lead_ws_def str_def)
  have v: "envelope [sale_from] = None" "hasPrefixFold sale_from ''From:''" "\<not> hasPrefixFold sale_from ''Message-ID:''"
    "\<not> hasPrefixFold sale_from ''Received:''" "\<not> hasPrefixFold sale_from ''Content-T''" "plain_text sale_text" by code_simp+
  have "hdr_value ''From:'' [sale_from] = Some (str2ck [] (str '' a@b.c'' @ [0x0a]))"
    using v(2) by (simp add: hdr_value_def) (simp add: sale_from_def str_def)
  with v show ?thesis
    by (subst plain_mail_checksums [OF small_tbls_ok])
      (use f in \<open>simp_all add: plain_checksums_def hdr_value_def opt_ck_def valid_ck_def sale_sums\<close>)
qed
end
