(* ===== verification/Go_Strings.thy ===== *)
theory Go_Strings
  imports Go_Text
begin

text \<open>
  The functions of Go's \<^verbatim>\<open>strings\<close> and \<^verbatim>\<open>bufio\<close> packages the program uses on text: white space
  as \<^verbatim>\<open>unicode.IsSpace\<close> has it, on UTF-8 bytes, \<^verbatim>\<open>Fields\<close>, \<^verbatim>\<open>TrimSpace\<close>, \<^verbatim>\<open>Split\<close>, \<^verbatim>\<open>Join\<close>,
  \<^verbatim>\<open>TrimRight\<close>, \<^verbatim>\<open>ToLower\<close> on what is compared with it, and the lines a \<^verbatim>\<open>bufio.Scanner\<close> gives.

  A space character is recognised by its encoding at the head of the text.  No encoding of a
  space occurs inside that of another character, so going on byte by byte where there is none
  is the same as going on rune by rune.
\<close>

definition space_codes :: "bytes list" where
  "space_codes = map (\<lambda>c. [c]) [0x09, 0x0a, 0x0b, 0x0c, 0x0d, 0x20]
     @ [[0xc2, 0x85], [0xc2, 0xa0], [0xe1, 0x9a, 0x80]]
     @ map (\<lambda>c. [0xe2, 0x80, c]) [0x80, 0x81, 0x82, 0x83, 0x84, 0x85, 0x86, 0x87, 0x88, 0x89, 0x8a, 0xa8, 0xa9, 0xaf]
     @ [[0xe2, 0x81, 0x9f], [0xe3, 0x80, 0x80]]"

text \<open>The length of the space character at the head, zero if there is none.\<close>

definition space_at :: "bytes \<Rightarrow> nat" where
  "space_at s = (case find (\<lambda>k. take (length k) s = k) space_codes of None \<Rightarrow> 0 | Some k \<Rightarrow> length k)"

definition space_before_end :: "bytes \<Rightarrow> nat" where
  "space_before_end s =
     (case find (\<lambda>k. length k \<le> length s \<and> drop (length s - length k) s = k) space_codes of
        None \<Rightarrow> 0 | Some k \<Rightarrow> length k)"

function fields_from :: "bytes \<Rightarrow> bytes \<Rightarrow> bytes list" where
  "fields_from cur [] = (if cur = [] then [] else [cur])"
| "fields_from cur (c # s) =
     (if space_at (c # s) = 0 then fields_from (cur @ [c]) s
      else (if cur = [] then [] else [cur]) @ fields_from [] (drop (space_at (c # s)) (c # s)))"
  by pat_completeness auto
termination
  by (relation "measure (\<lambda>(cur, s). length s)") auto

text \<open>\<^verbatim>\<open>strings.Fields\<close>.\<close>

definition go_fields :: "bytes \<Rightarrow> bytes list" where
  "go_fields s = fields_from [] s"

function trim_left :: "bytes \<Rightarrow> bytes" where
  "trim_left s = (if s = [] \<or> space_at s = 0 then s else trim_left (drop (space_at s) s))"
  by pat_completeness auto
termination
  by (relation "measure length") auto

function trim_right :: "bytes \<Rightarrow> bytes" where
  "trim_right s = (if s = [] \<or> space_before_end s = 0 then s
     else trim_right (take (length s - space_before_end s) s))"
  by pat_completeness auto
termination
  by (relation "measure length") auto

declare trim_left.simps [simp del] trim_right.simps [simp del]

definition go_TrimSpace :: "bytes \<Rightarrow> bytes" where
  "go_TrimSpace s = trim_right (trim_left s)"

text \<open>\<^verbatim>\<open>strings.Split\<close> at one byte, \<^verbatim>\<open>strings.Join\<close> with one, \<^verbatim>\<open>strings.TrimRight\<close> of one.\<close>

fun go_Split :: "bytes \<Rightarrow> byte \<Rightarrow> bytes list" where
  "go_Split [] b = [[]]"
| "go_Split (c # s) b =
     (case go_Split s b of
        [] \<Rightarrow> []
      | l # ls \<Rightarrow> if c = b then [] # l # ls else (c # l) # ls)"

fun go_Join :: "bytes list \<Rightarrow> byte \<Rightarrow> bytes" where
  "go_Join [] b = []"
| "go_Join [l] b = l"
| "go_Join (l # ls) b = l @ b # go_Join ls b"

definition go_TrimRight :: "bytes \<Rightarrow> byte \<Rightarrow> bytes" where
  "go_TrimRight s b = rev (dropWhile (\<lambda>c. c = b) (rev s))"

text \<open>Up to the first such byte: what the code keeps with \<^verbatim>\<open>IndexByte\<close> and a slice.\<close>

definition cut_at :: "byte \<Rightarrow> bytes \<Rightarrow> bytes" where
  "cut_at b s = takeWhile (\<lambda>c. c \<noteq> b) s"

text \<open>
  The lines of a \<^verbatim>\<open>bufio.Scanner\<close> with its default buffer: it stops for good at a line that
  does not fit into 65536 bytes together with its line end, and drops one carriage return.
\<close>

definition maxScanTokenSize :: nat where "maxScanTokenSize = 64 * 1024"

definition drop_cr :: "bytes \<Rightarrow> bytes" where
  "drop_cr l = (if l \<noteq> [] \<and> last l = 0x0d then butlast l else l)"

function scan_lines :: "bytes \<Rightarrow> bytes list" where
  "scan_lines s =
     (if s = [] then []
      else let l = cut_at 0x0a s
        in if length l \<ge> maxScanTokenSize then []
           else drop_cr l # scan_lines (drop (length l + 1) s))"
  by pat_completeness auto
termination
  by (relation "measure length") (auto simp: Let_def)

declare scan_lines.simps [simp del]

section \<open>Lines and fields of plain text\<close>

text \<open>A printing ASCII character.\<close>

definition graph :: "byte \<Rightarrow> bool" where
  "graph c \<longleftrightarrow> 0x21 \<le> c \<and> c \<le> 0x7e"

lemma space_first: "\<forall>k \<in> set space_codes. k \<noteq> [] \<and> (hd k \<le> 0x20 \<or> 0x7f \<le> hd k)"
  by (simp add: space_codes_def)

lemma space_at_graph:
  assumes "graph c"
  shows "space_at (c # s) = 0"
proof -
  have "take (length k) (c # s) \<noteq> k" if "k \<in> set space_codes" for k
  proof
    assume k: "take (length k) (c # s) = k"
    have "hd k \<le> 0x20 \<or> 0x7f \<le> hd k" "k \<noteq> []" using space_first that by auto
    moreover have "hd k = c" using k \<open>k \<noteq> []\<close> by (cases k) auto
    ultimately show False using assms by (auto simp: graph_def word_le_nat_alt)
  qed
  then have "find (\<lambda>k. take (length k) (c # s) = k) space_codes = None"
    by (auto simp: find_None_iff)
  then show ?thesis by (simp add: space_at_def)
qed

lemma space_at_blank [simp]: "space_at (0x20 # s) = 1"
  by (simp add: space_at_def space_codes_def)

lemma fields_from_graph:
  "list_all graph w \<Longrightarrow> fields_from cur (w @ s) = fields_from (cur @ w) s"
  by (induction w arbitrary: cur) (simp_all add: space_at_graph)

lemma go_fields_two:
  assumes "list_all graph a" "list_all graph b" "a \<noteq> []" "b \<noteq> []"
  shows "go_fields (a @ 0x20 # b) = [a, b]"
  using fields_from_graph [OF assms(1), of "[]" "0x20 # b"] fields_from_graph [OF assms(2), of "[]" "[]"] assms(3,4)
  by (simp add: go_fields_def)

lemma cut_at_absent: "b \<notin> set s \<Longrightarrow> cut_at b s = s"
  unfolding cut_at_def by (induction s) auto

lemma cut_at_append: "b \<notin> set s \<Longrightarrow> cut_at b (s @ b # t) = s"
  unfolding cut_at_def by (induction s) auto

lemma digit_graph: "isDigit c \<Longrightarrow> graph c \<and> c \<noteq> 0x2c \<and> c \<noteq> 0x23"
  by (auto simp: isDigit_def graph_def word_le_nat_alt)

lemma dec_graph: "list_all graph (dec n)" "0x2c \<notin> set (dec n)" "0x23 \<notin> set (dec n)"
  using dec_digits [of n] digit_graph by (auto simp: list_all_iff)

definition text_line :: "bytes \<Rightarrow> bool" where
  "text_line l \<longleftrightarrow> 0x0a \<notin> set l \<and> length l < maxScanTokenSize \<and> (l = [] \<or> last l \<noteq> 0x0d)"

lemma scan_lines_line:
  assumes "text_line l"
  shows "scan_lines (l @ 0x0a # s) = l # scan_lines s"
proof -
  have "drop_cr l = l" using assms by (auto simp: text_line_def drop_cr_def)
  then show ?thesis
    using assms by (subst scan_lines.simps) (simp add: text_line_def cut_at_append Let_def not_le)
qed

lemma scan_lines_unlines:
  "list_all text_line ls \<Longrightarrow> scan_lines (concat (map (\<lambda>l. l @ [0x0a]) ls)) = ls"
proof (induction ls)
  case Nil
  show ?case by (simp add: scan_lines.simps)
next
  case (Cons l ls)
  then show ?case using scan_lines_line [of l "concat (map (\<lambda>l. l @ [0x0a]) ls)"] by simp
qed

lemma Join_unlines: "ls \<noteq> [] \<Longrightarrow> go_Join ls b @ [b] = concat (map (\<lambda>l. l @ [b]) ls)"
  by (induction ls b rule: go_Join.induct) auto

lemma Split_ne: "go_Split s b \<noteq> []"
  by (induction s) (auto split: list.split)

lemma Split_line: "b \<notin> set l \<Longrightarrow> go_Split (l @ b # s) b = l # go_Split s b"
  by (induction l) (auto split: list.split simp: Split_ne)

lemma Split_none: "b \<notin> set s \<Longrightarrow> go_Split s b = [s]"
  by (induction s) auto

lemma Split_unlines:
  "list_all (\<lambda>l. b \<notin> set l) ls \<Longrightarrow> go_Split (concat (map (\<lambda>l. l @ [b]) ls)) b = ls @ [[]]"
  by (induction ls) (simp_all add: Split_line)

lemma Split_parts: "l \<in> set (go_Split s b) \<Longrightarrow> b \<notin> set l"
proof (induction s arbitrary: l)
  case Nil
  then show ?case by simp
next
  case (Cons c s)
  obtain h t where ht: "go_Split s b = h # t" using Split_ne [of s b] by (cases "go_Split s b") auto
  have "b \<notin> set h" "\<And>m. m \<in> set t \<Longrightarrow> b \<notin> set m" using Cons.IH ht by auto
  then show ?case using Cons.prems by (auto simp: ht split: if_splits)
qed

lemma TrimRight_last: "go_TrimRight s b = [] \<or> last (go_TrimRight s b) \<noteq> b"
  using hd_dropWhile [of "\<lambda>c. c = b" "rev s"] by (auto simp: go_TrimRight_def last_rev)

lemma TrimRight_id: "s = [] \<or> last s \<noteq> b \<Longrightarrow> go_TrimRight s b = s"
  by (cases s rule: rev_cases) (auto simp: go_TrimRight_def)

lemma TrimRight_set: "set (go_TrimRight s b) \<subseteq> set s" "length (go_TrimRight s b) \<le> length s"
  using set_dropWhileD [of _ "\<lambda>c. c = b" "rev s"] length_dropWhile_le [of "\<lambda>c. c = b" "rev s"]
  by (auto simp: go_TrimRight_def)

end
