(* ===== verification/Identity.thy ===== *)
theory Identity
  imports Go_Strings Proto
begin

text \<open>
  Client credentials, \<^verbatim>\<open>src/dcc/identity.go\<close>: the ids file and how it is read, the fall-back chain
  of \<^verbatim>\<open>ResolveIdentity\<close>, and \<^verbatim>\<open>WriteIdentityFile\<close> with the system calls it makes.

  The file system is the state: files with their mode and contents, and directories.  The
  operations that can fail take the failures of one run as an argument.  \<^verbatim>\<open>writeFileAtomic\<close> and
  \<^verbatim>\<open>WriteIdentityFile\<close> return every state the file system goes through, a partly written file
  included, so that a statement can be about a reader, or a crash, at any moment.
\<close>

section \<open>Identities\<close>

record Identity =
  id_ClientID :: u32
  id_Password :: bytes

definition Anonymous :: "Identity \<Rightarrow> bool" where
  "Anonymous i \<longleftrightarrow> id_ClientID i \<le> dccIDAnon \<or> id_Password i = []"

definition DefaultIDsPath :: bytes where
  "DefaultIDsPath = str ''/var/dcc/ids''"

definition id_fields :: "bytes \<Rightarrow> bytes list" where
  "id_fields line = go_fields (cut_at 0x23 line)"

fun parse_id_lines :: "bytes list \<Rightarrow> Identity option" where
  "parse_id_lines [] = None"
| "parse_id_lines (line # ls) =
     (let flds = id_fields line
      in if length flds < 2 then parse_id_lines ls
         else (case parse_uint32 (cut_at 0x2c (flds ! 0)) of
             None \<Rightarrow> parse_id_lines ls
           | Some n \<Rightarrow>
               if n \<le> dccIDAnon then parse_id_lines ls
               else Some \<lparr>id_ClientID = n, id_Password = flds ! 1\<rparr>))"

definition ParseIdentityFile :: "bytes \<Rightarrow> Identity option" where
  "ParseIdentityFile s = parse_id_lines (scan_lines s)"

definition idOfLine :: "bytes \<Rightarrow> u32 option" where
  "idOfLine line =
     (let flds = id_fields line
      in if length flds < 2 then None else parse_uint32 (cut_at 0x2c (flds ! 0)))"

section \<open>The fall-back chain\<close>

text \<open>
  The environment is a function that gives the empty string for a variable that is not set, as
  \<^verbatim>\<open>os.Getenv\<close> does; \<open>files\<close> are the files that can be opened, with their contents.
\<close>

type_synonym environ = "string \<Rightarrow> bytes"

definition envClientID :: "environ \<Rightarrow> u32" where
  "envClientID env =
     (if env ''GDCC_CLIENT_ID'' = [] then 0
      else case parse_uint32 (env ''GDCC_CLIENT_ID'') of None \<Rightarrow> 0 | Some n \<Rightarrow> n)"

fun first_identity :: "(bytes \<rightharpoonup> bytes) \<Rightarrow> bytes list \<Rightarrow> Identity option" where
  "first_identity files [] = None"
| "first_identity files (p # ps) =
     (case files p of
        None \<Rightarrow> first_identity files ps
      | Some s \<Rightarrow> (case ParseIdentityFile s of
            None \<Rightarrow> first_identity files ps
          | Some i \<Rightarrow> Some i))"

definition ResolveIdentity :: "environ \<Rightarrow> (bytes \<rightharpoonup> bytes) \<Rightarrow> u32 \<Rightarrow> bytes \<Rightarrow> Identity" where
  "ResolveIdentity env files flagID flagPasswd =
     (if flagID > dccIDAnon \<and> flagPasswd \<noteq> [] then \<lparr>id_ClientID = flagID, id_Password = flagPasswd\<rparr>
      else if envClientID env > dccIDAnon \<and> env ''GDCC_CLIENT_PASSWD'' \<noteq> []
      then \<lparr>id_ClientID = envClientID env, id_Password = env ''GDCC_CLIENT_PASSWD''\<rparr>
      else case first_identity files
          ((if env ''DCC_IDS'' \<noteq> [] then [env ''DCC_IDS''] else []) @ [DefaultIDsPath]) of
          Some i \<Rightarrow> i
        | None \<Rightarrow> \<lparr>id_ClientID = dccIDAnon, id_Password = []\<rparr>)"

section \<open>Paths\<close>

text \<open>\<^verbatim>\<open>filepath.Clean\<close> on a system with slashes, on the elements of a path, and \<^verbatim>\<open>filepath.Dir\<close>.\<close>

fun clean_elems :: "bool \<Rightarrow> bytes list \<Rightarrow> bytes list \<Rightarrow> bytes list" where
  "clean_elems rooted acc [] = rev acc"
| "clean_elems rooted acc (e # es) =
     (if e = [] \<or> e = str ''.'' then clean_elems rooted acc es
      else if e = str ''..''
      then (case acc of
          [] \<Rightarrow> clean_elems rooted (if rooted then [] else [e]) es
        | a # acc' \<Rightarrow> clean_elems rooted (if a = str ''..'' then e # acc else acc') es)
      else clean_elems rooted (e # acc) es)"

definition filepath_Clean :: "bytes \<Rightarrow> bytes" where
  "filepath_Clean p =
     (let rooted = (p \<noteq> [] \<and> hd p = 0x2f);
          q = (if rooted then [0x2f] else []) @ go_Join (clean_elems rooted [] (go_Split p 0x2f)) 0x2f
      in if q = [] then str ''.'' else q)"

definition filepath_Dir :: "bytes \<Rightarrow> bytes" where
  "filepath_Dir p = filepath_Clean (rev (dropWhile (\<lambda>c. c \<noteq> 0x2f) (rev p)))"

text \<open>A directory and the directories above it, outermost first, which \<^verbatim>\<open>os.MkdirAll\<close> creates.\<close>

definition dir_chain :: "bytes \<Rightarrow> bytes list" where
  "dir_chain d = filter (\<lambda>x. x \<noteq> []) (map (\<lambda>i. take i d) (filter (\<lambda>i. d ! i = 0x2f) [0..<length d])) @ [d]"

section \<open>The file system\<close>

record filesys =
  fs_file :: "bytes \<rightharpoonup> nat \<times> bytes"
  fs_dirs :: "bytes \<rightharpoonup> nat"

datatype os_err = ErrNotExist | ErrExist | OsErr nat

text \<open>
  What goes wrong in one run.  \<open>ft_rands\<close> are the random numbers \<^verbatim>\<open>os.CreateTemp\<close> tries in turn
  as the end of the name; a failing write has written some bytes, and a failing \<^verbatim>\<open>os.MkdirAll\<close> has
  made some of the directories.
\<close>

record os_faults =
  ft_mkdir :: "(nat \<times> os_err) option"
  ft_read :: "nat option"
  ft_rands :: "nat list"
  ft_create :: "os_err option"
  ft_chmod :: "os_err option"
  ft_write :: "(nat \<times> os_err) option"
  ft_close :: "os_err option"
  ft_rename :: "os_err option"
  ft_remove :: bool

definition make_dirs :: "bytes list \<Rightarrow> nat \<Rightarrow> filesys \<Rightarrow> filesys" where
  "make_dirs ds mode s = s\<lparr>fs_dirs := (\<lambda>x. if fs_dirs s x = None \<and> x \<in> set ds then Some mode else fs_dirs s x)\<rparr>"

definition MkdirAll :: "os_faults \<Rightarrow> bytes \<Rightarrow> nat \<Rightarrow> filesys \<Rightarrow> filesys \<times> os_err option" where
  "MkdirAll ft d mode s =
     (case ft_mkdir ft of
        Some (k, e) \<Rightarrow> (make_dirs (take k (dir_chain d)) mode s, Some e)
      | None \<Rightarrow> (make_dirs (dir_chain d) mode s, None))"

definition ReadFile :: "os_faults \<Rightarrow> bytes \<Rightarrow> filesys \<Rightarrow> os_err + bytes" where
  "ReadFile ft path s =
     (case ft_read ft of
        Some n \<Rightarrow> Inl (OsErr n)
      | None \<Rightarrow> (case fs_file s path of None \<Rightarrow> Inl ErrNotExist | Some (mode, d) \<Rightarrow> Inr d))"

definition temp_name :: "bytes \<Rightarrow> nat \<Rightarrow> bytes" where
  "temp_name d r = (if d \<noteq> [] \<and> last d = 0x2f then d else d @ [0x2f]) @ str ''.ids-'' @ dec r"

definition CreateTemp :: "os_faults \<Rightarrow> bytes \<Rightarrow> filesys \<Rightarrow> os_err + bytes \<times> filesys" where
  "CreateTemp ft d s =
     (case ft_create ft of
        Some e \<Rightarrow> Inl e
      | None \<Rightarrow> (case find (\<lambda>r. fs_file s (temp_name d r) = None) (ft_rands ft) of
            None \<Rightarrow> Inl ErrExist
          | Some r \<Rightarrow> Inr (temp_name d r,
              s\<lparr>fs_file := (fs_file s)(temp_name d r \<mapsto> (0x180, []))\<rparr>)))"

definition set_file :: "bytes \<Rightarrow> nat \<Rightarrow> bytes \<Rightarrow> filesys \<Rightarrow> filesys" where
  "set_file path mode d s = s\<lparr>fs_file := (fs_file s)(path \<mapsto> (mode, d))\<rparr>"

definition Rename :: "bytes \<Rightarrow> bytes \<Rightarrow> filesys \<Rightarrow> filesys" where
  "Rename a b s = (if a = b then s else s\<lparr>fs_file := (fs_file s)(b := fs_file s a, a := None)\<rparr>)"

definition Remove :: "bytes \<Rightarrow> filesys \<Rightarrow> filesys" where
  "Remove a s = s\<lparr>fs_file := (fs_file s)(a := None)\<rparr>"

section \<open>Writing\<close>

text \<open>
  From the temporary file to the renaming: the states in order, and the error.  The deferred
  \<^verbatim>\<open>Remove\<close> follows in every case.
\<close>

definition write_temp ::
  "os_faults \<Rightarrow> bytes \<Rightarrow> bytes \<Rightarrow> bytes \<Rightarrow> nat \<Rightarrow> filesys \<Rightarrow> filesys list \<times> os_err option" where
  "write_temp ft tmp path data perm s =
     (case ft_chmod ft of
        Some e \<Rightarrow> ([], Some e)
      | None \<Rightarrow>
          let chmodded = set_file tmp perm [] s in
          case ft_write ft of
            Some (k, e) \<Rightarrow>
              (map (\<lambda>i. set_file tmp perm (take i data) s) [0..<Suc (min k (length data))], Some e)
          | None \<Rightarrow>
              let written = set_file tmp perm data s;
                  states = map (\<lambda>i. set_file tmp perm (take i data) s) [0..<Suc (length data)] in
              case ft_close ft of
                Some e \<Rightarrow> (chmodded # states, Some e)
              | None \<Rightarrow>
                  (case ft_rename ft of
                     Some e \<Rightarrow> (chmodded # states, Some e)
                   | None \<Rightarrow> (chmodded # states @ [Rename tmp path written], None)))"

definition writeFileAtomic ::
  "os_faults \<Rightarrow> bytes \<Rightarrow> bytes \<Rightarrow> nat \<Rightarrow> filesys \<Rightarrow> filesys list \<times> os_err option" where
  "writeFileAtomic ft path data perm s =
     (case CreateTemp ft (filepath_Dir path) s of
        Inl e \<Rightarrow> ([], Some e)
      | Inr (tmp, s1) \<Rightarrow>
          let (ss, e) = write_temp ft tmp path data perm s1;
              s2 = last (s1 # ss)
          in (s1 # ss @ [if ft_remove ft then s2 else Remove tmp s2], e))"

datatype write_err =
    WriteAnonID
  | WriteEmptyPassword
  | WriteMkdir os_err
  | WriteRead bytes os_err
  | WriteAtomic os_err

fun keep_lines :: "u32 \<Rightarrow> bytes list \<Rightarrow> bytes list" where
  "keep_lines n [] = []"
| "keep_lines n (l # ls) =
     (let line = go_TrimRight l 0x0d
      in if idOfLine line = Some n \<or> line = [] then keep_lines n ls
         else line # keep_lines n ls)"

definition id_line :: "Identity \<Rightarrow> bytes" where
  "id_line i = dec (unat (id_ClientID i)) @ 0x20 # id_Password i"

definition ids_content :: "bytes list \<Rightarrow> Identity \<Rightarrow> bytes" where
  "ids_content kept i = go_Join (kept @ [id_line i]) 0x0a @ [0x0a]"

definition WriteIdentityFile ::
  "os_faults \<Rightarrow> bytes \<Rightarrow> Identity \<Rightarrow> filesys \<Rightarrow> filesys list \<times> write_err option" where
  "WriteIdentityFile ft path i s =
     (if id_ClientID i \<le> dccIDAnon then ([], Some WriteAnonID)
      else if id_Password i = [] then ([], Some WriteEmptyPassword)
      else case MkdirAll ft (filepath_Dir path) 0x1c0 s of
          (s1, Some e) \<Rightarrow> ([s1], Some (WriteMkdir e))
        | (s1, None) \<Rightarrow>
            let atomic = (\<lambda>kept. let (ss, e) = writeFileAtomic ft path (ids_content kept i) 0x180 s1
                   in (s1 # ss, map_option WriteAtomic e))
            in case ReadFile ft path s1 of
                Inr data \<Rightarrow> atomic (keep_lines (id_ClientID i) (go_Split data 0x0a))
              | Inl e \<Rightarrow> if e \<noteq> ErrNotExist then ([s1], Some (WriteRead path e)) else atomic [])"

text \<open>The state when the call is over.\<close>

definition after :: "filesys \<Rightarrow> filesys list \<times> 'e \<Rightarrow> filesys" where
  "after s r = last (s # fst r)"

end
