(* ===== verification/Identity_Props.thy ===== *)
theory Identity_Props
  imports Identity
begin

text \<open>
  What the ids file promises: the write is atomic and leaves nothing behind, registering the
  same credential again changes nothing, and what a later read finds after a registration.
\<close>

section \<open>Usable lines\<close>

text \<open>The identity of one line, as both readers of the file see it.\<close>

definition usable :: "bytes \<Rightarrow> Identity option" where
  "usable line =
     (case idOfLine line of
        None \<Rightarrow> None
      | Some n \<Rightarrow> if n \<le> dccIDAnon then None
                  else Some \<lparr>id_ClientID = n, id_Password = id_fields line ! 1\<rparr>)"

definition usable_ids :: "bytes \<Rightarrow> Identity list" where
  "usable_ids s = List.map_filter usable (scan_lines s)"

lemma parse_id_lines_usable:
  "parse_id_lines ls = (case List.map_filter usable ls of [] \<Rightarrow> None | i # _ \<Rightarrow> Some i)"
  by (induction ls)
    (auto simp: map_filter_simps usable_def idOfLine_def Let_def split: option.split)

lemma usable_id: "usable l = Some i \<Longrightarrow> idOfLine l = Some (id_ClientID i)"
  by (auto simp: usable_def split: option.splits if_splits)

lemma id_fields_Nil [simp]: "id_fields [] = []"
  by (simp add: id_fields_def go_fields_def cut_at_def)

lemma idOfLine_Nil [simp]: "idOfLine [] = None"
  by (simp add: idOfLine_def)

lemma usable_Nil [simp]: "usable [] = None"
  by (simp add: usable_def)

lemma hd_map_filter: "(case List.map_filter f ls of [] \<Rightarrow> None | i # _ \<Rightarrow> Some i) =
    (case find (\<lambda>l. f l \<noteq> None) ls of None \<Rightarrow> None | Some l \<Rightarrow> f l)"
  by (induction ls) (auto simp: map_filter_simps split: option.split)

section \<open>A carriage return at the end of a line does not matter\<close>

lemma space_at_cr:
  assumes "s \<noteq> []"
  shows "space_at (s @ [0x0d]) = space_at s"
proof -
  have "take (length k) (s @ [0x0d]) = k \<longleftrightarrow> take (length k) s = k" if "k \<in> set space_codes" for k
  proof (cases "length k \<le> length s")
    case False
    have "k = [0x0d] \<or> 0x0d \<notin> set k" using that by (auto simp: space_codes_def)
    then show ?thesis using False assms by (cases s) auto
  qed simp
  then have "find (\<lambda>k. take (length k) (s @ [0x0d]) = k) space_codes = find (\<lambda>k. take (length k) s = k) space_codes"
    by (intro find_cong) auto
  then show ?thesis by (simp add: space_at_def)
qed

lemma space_at_le: "space_at s \<le> length s"
  unfolding space_at_def
  by (auto simp: find_Some_iff split: option.split) (metis length_take min.bounded_iff order_refl)

lemma fields_from_cr: "fields_from cur (s @ [0x0d]) = fields_from cur s"
proof (induction cur s rule: fields_from.induct)
  case (1 cur)
  have "space_at [0x0d] = Suc 0" by (simp add: space_at_def space_codes_def)
  then show ?case by simp
next
  case (2 cur c s)
  have d: "drop (space_at (c # s)) ((c # s) @ [0x0d]) = drop (space_at (c # s)) (c # s) @ [0x0d]"
    unfolding drop_append using space_at_le [of "c # s"] by (simp del: append_Cons drop_Cons')
  show ?case
  proof (cases "space_at (c # s) = 0")
    case True
    then show ?thesis using 2(1) space_at_cr [of "c # s"] by simp
  next
    case False
    then show ?thesis using 2(2) space_at_cr [of "c # s"] d by simp
  qed
qed

lemma id_fields_cr: "id_fields (l @ [0x0d]) = id_fields l"
proof (cases "0x23 \<in> set l")
  case True
  then show ?thesis by (simp add: id_fields_def cut_at_def)
next
  case False
  then have "cut_at 0x23 (l @ [0x0d]) = l @ [0x0d]" "cut_at 0x23 l = l"
    by (simp_all add: cut_at_absent)
  then show ?thesis by (simp add: id_fields_def go_fields_def fields_from_cr)
qed

lemma TrimRight_snoc: "go_TrimRight (l @ [b]) b = go_TrimRight l b"
  by (simp add: go_TrimRight_def)

lemma id_fields_trim: "id_fields (go_TrimRight l 0x0d) = id_fields l"
proof (induction l rule: rev_induct)
  case (snoc c l)
  show ?case
  proof (cases "c = 0x0d")
    case True
    then show ?thesis using snoc by (simp add: TrimRight_snoc id_fields_cr)
  next
    case False
    then show ?thesis by (simp add: TrimRight_id)
  qed
qed (simp add: go_TrimRight_def)

lemma id_fields_drop_cr: "id_fields (drop_cr l) = id_fields l"
  by (cases l rule: rev_cases) (auto simp: drop_cr_def id_fields_cr)

lemma idOfLine_cong: "id_fields l = id_fields m \<Longrightarrow> idOfLine l = idOfLine m \<and> usable l = usable m"
  by (simp add: idOfLine_def usable_def Let_def split: option.split)

lemmas trim_line [simp] = idOfLine_cong [OF id_fields_trim, THEN conjunct1]
  idOfLine_cong [OF id_fields_trim, THEN conjunct2] idOfLine_cong [OF id_fields_drop_cr, THEN conjunct2]

section \<open>The lines two ways\<close>

definition short_lines :: "bytes \<Rightarrow> bool" where
  "short_lines s \<longleftrightarrow> list_all (\<lambda>l. length l < maxScanTokenSize) (go_Split s 0x0a)"

lemma usable_ids_Split: "short_lines s \<Longrightarrow> usable_ids s = List.map_filter usable (go_Split s 0x0a)"
  unfolding short_lines_def usable_ids_def
proof (induction s rule: scan_lines.induct)
  case (1 s)
  show ?case
  proof (cases "s = []")
    case True
    then show ?thesis by (simp add: scan_lines.simps map_filter_simps)
  next
    case ne: False
    show ?thesis
    proof (cases "0x0a \<in> set s")
      case True
      then obtain l r where lr: "s = l @ 0x0a # r" "0x0a \<notin> set l" by (meson split_list_first)
      then have sp: "go_Split s 0x0a = l # go_Split r 0x0a" by (simp add: Split_line)
      have c: "cut_at 0x0a s = l" using lr by (simp add: cut_at_append)
      have len: "\<not> maxScanTokenSize \<le> length l" using 1(2) sp by simp
      have "List.map_filter usable (scan_lines r) = List.map_filter usable (go_Split r 0x0a)"
        using 1(1) [OF ne refl] 1(2) sp c len lr by simp
      then show ?thesis using ne sp c len lr
        by (subst scan_lines.simps) (simp add: map_filter_simps Let_def split: option.split)
    next
      case False
      then have sp: "go_Split s 0x0a = [s]" "cut_at 0x0a s = s"
        using Split_none [of "0x0a" s] by (simp_all add: cut_at_absent)
      then show ?thesis using ne 1(2)
        by (subst scan_lines.simps) (simp add: map_filter_simps Let_def scan_lines.simps)
    qed
  qed
qed

lemma keep_lines_usable:
  "List.map_filter usable (keep_lines n ls) = filter (\<lambda>i. id_ClientID i \<noteq> n) (List.map_filter usable ls)"
proof (induction ls)
  case (Cons l ls)
  have "usable l = None" if "go_TrimRight l 0x0d = []" using that trim_line(2) [of l] by simp
  then show ?case using Cons usable_id [of l]
    by (cases "usable l") (auto simp: map_filter_simps Let_def)
qed (simp add: map_filter_simps)

lemma keep_lines_text:
  assumes "list_all (\<lambda>l. length l < maxScanTokenSize \<and> 0x0a \<notin> set l) ls"
  shows "list_all text_line (keep_lines n ls)"
  using assms
proof (induction ls)
  case (Cons l ls)
  then show ?case using TrimRight_last [of l "0x0d"] TrimRight_set [of l "0x0d"]
    by (auto simp: Let_def text_line_def)
qed simp

lemma Split_text:
  "short_lines s \<Longrightarrow> list_all (\<lambda>l. length l < maxScanTokenSize \<and> 0x0a \<notin> set l) (go_Split s 0x0a)"
  using Split_parts [of _ s "0x0a"] by (auto simp: short_lines_def list_all_iff)

section \<open>The line of an identity\<close>

text \<open>A password that survives: printing ASCII characters without \<^verbatim>\<open>#\<close>, in a line that fits.\<close>

definition plain_password :: "bytes \<Rightarrow> bool" where
  "plain_password pw \<longleftrightarrow>
     pw \<noteq> [] \<and> list_all graph pw \<and> 0x23 \<notin> set pw \<and> length pw + 12 \<le> maxScanTokenSize"

definition storable :: "Identity \<Rightarrow> bool" where
  "storable i \<longleftrightarrow> dccIDAnon < id_ClientID i \<and> plain_password (id_Password i)"

lemma length_dec: "n < 10 ^ Suc k \<Longrightarrow> length (dec n) \<le> Suc k"
proof (induction k arbitrary: n)
  case (Suc k)
  have "n div 10 < 10 ^ Suc k" using Suc.prems by (simp add: div_less_iff_less_mult)
  then show ?case using Suc.IH by (simp add: dec.simps [of n])
qed (simp add: dec.simps)

lemma length_dec_u32: "length (dec (unat (w :: u32))) \<le> 10"
  using length_dec [of "unat w" 9] unat_u32 [of w] by simp

lemma id_fields_line:
  "plain_password (id_Password i) \<Longrightarrow>
     id_fields (id_line i) = [dec (unat (id_ClientID i)), id_Password i]"
  using dec_graph [of "unat (id_ClientID i)"] dec_digits [of "unat (id_ClientID i)"]
  by (simp add: id_fields_def id_line_def cut_at_absent plain_password_def go_fields_two)

lemma idOfLine_line: "plain_password (id_Password i) \<Longrightarrow> idOfLine (id_line i) = Some (id_ClientID i)"
  using dec_graph [of "unat (id_ClientID i)"]
  by (simp add: idOfLine_def id_fields_line cut_at_absent)

lemma usable_line: "storable i \<Longrightarrow> usable (id_line i) = Some i"
  by (simp add: storable_def usable_def idOfLine_line id_fields_line not_le)

lemma text_line_id:
  assumes "plain_password (id_Password i)"
  shows "text_line (id_line i)"
proof -
  have g: "graph c \<Longrightarrow> c \<noteq> 0x0a \<and> c \<noteq> 0x0d" for c by (auto simp: graph_def)
  have "length (dec (unat (id_ClientID i))) \<le> 10" by (rule length_dec_u32)
  moreover have "0x0a \<notin> set (dec (unat (id_ClientID i)))" "0x0a \<notin> set (id_Password i)"
    using dec_graph(1) [of "unat (id_ClientID i)"] assms g by (auto simp: list_all_iff plain_password_def)
  moreover have "last (id_Password i) \<noteq> 0x0d"
    using assms g last_in_set [of "id_Password i"] by (auto simp: list_all_iff plain_password_def)
  ultimately show ?thesis using assms by (auto simp: text_line_def id_line_def plain_password_def)
qed

lemma ids_content_lines: "ids_content kept i = concat (map (\<lambda>l. l @ [0x0a]) (kept @ [id_line i]))"
  unfolding ids_content_def by (rule Join_unlines) simp

lemma scan_ids_content:
  "list_all text_line kept \<Longrightarrow> plain_password (id_Password i) \<Longrightarrow>
     scan_lines (ids_content kept i) = kept @ [id_line i]"
  unfolding ids_content_lines by (rule scan_lines_unlines) (simp add: text_line_id)

lemma Split_ids_content:
  assumes "list_all text_line kept" "plain_password (id_Password i)"
  shows "go_Split (ids_content kept i) 0x0a = kept @ [id_line i, []]"
proof -
  have "list_all (\<lambda>l. 0x0a \<notin> set l) (kept @ [id_line i])"
    using assms text_line_id by (auto simp: list_all_iff text_line_def)
  then show ?thesis unfolding ids_content_lines by (simp add: Split_unlines del: map_append concat_append)
qed

section \<open>The states of a write\<close>

lemma files_simps [simp]:
  "fs_file (set_file p m d s) q = (if q = p then Some (m, d) else fs_file s q)"
  "fs_file (Remove p s) q = (if q = p then None else fs_file s q)"
  "a \<noteq> b \<Longrightarrow> fs_file (Rename a b s) q = (if q = a then None else if q = b then fs_file s a else fs_file s q)"
  "fs_file (make_dirs ds m s) = fs_file s"
  by (simp_all add: set_file_def Remove_def Rename_def make_dirs_def)

text \<open>What a reader of \<open>path\<close> may see, and what is left at the end.\<close>

definition atomic_on :: "bytes \<Rightarrow> nat \<times> bytes \<Rightarrow> filesys \<Rightarrow> filesys list \<times> 'e option \<Rightarrow> bool" where
  "atomic_on path new s r \<longleftrightarrow>
     (\<forall>t \<in> set (fst r). fs_file t path = fs_file s path \<or> fs_file t path = Some new)
     \<and> fs_file (after s r) path = (if snd r = None then Some new else fs_file s path)"

definition temp_spec :: "bytes \<Rightarrow> bytes \<Rightarrow> nat \<times> bytes \<Rightarrow> filesys \<Rightarrow> filesys list \<times> 'e option \<Rightarrow> bool" where
  "temp_spec tmp path new s r \<longleftrightarrow> atomic_on path new s r
     \<and> (\<forall>q. q \<noteq> path \<longrightarrow> q \<noteq> tmp \<longrightarrow> fs_file (after s r) q = fs_file s q)
     \<and> (snd r = None \<longrightarrow> fs_file (after s r) tmp = None)"

lemma temp_spec_writes:
  assumes "tmp \<noteq> path"
  shows "temp_spec tmp path new s (map (\<lambda>i. set_file tmp perm (take i data) s) [0..<Suc n], Some e)"
    and "temp_spec tmp path new s
      (set_file tmp perm [] s # map (\<lambda>i. set_file tmp perm (take i data) s) [0..<Suc n], Some e)"
  using assms by (auto simp: temp_spec_def atomic_on_def after_def)

lemma temp_spec_renamed:
  assumes "tmp \<noteq> path"
  shows "temp_spec tmp path (perm, data) s
    (set_file tmp perm [] s # map (\<lambda>i. set_file tmp perm (take i data) s) [0..<Suc n] @
       [Rename tmp path (set_file tmp perm data s)], None)"
  using assms by (auto simp: temp_spec_def atomic_on_def after_def)

lemma write_temp_spec:
  assumes "tmp \<noteq> path"
  shows "temp_spec tmp path (perm, data) s (write_temp ft tmp path data perm s)"
proof -
  have none: "temp_spec tmp path (perm, data) s ([], Some e)" for e :: os_err
    by (simp add: temp_spec_def atomic_on_def after_def)
  note w = temp_spec_writes [OF assms] temp_spec_renamed [OF assms]
  show ?thesis
    using none w unfolding write_temp_def Let_def
    by (auto simp del: upt_Suc split: option.split)
qed

lemma CreateTemp_Inr:
  assumes "CreateTemp ft d s = Inr (tmp, s1)"
  shows "fs_file s tmp = None" "fs_file s1 = (fs_file s)(tmp \<mapsto> (0x180, []))" "\<exists>r. tmp = temp_name d r"
proof -
  obtain r where r: "find (\<lambda>r. fs_file s (temp_name d r) = None) (ft_rands ft) = Some r"
      "tmp = temp_name d r" "fs_file s1 = (fs_file s)(temp_name d r \<mapsto> (0x180, []))"
    using assms by (auto simp: CreateTemp_def split: option.splits)
  then show "fs_file s tmp = None" by (auto simp: find_Some_iff)
  show "fs_file s1 = (fs_file s)(tmp \<mapsto> (0x180, []))" "\<exists>r. tmp = temp_name d r" using r by auto
qed

lemma writeFileAtomic_atomic:
  assumes "fs_file s path \<noteq> None \<or> (\<forall>r. path \<noteq> temp_name (filepath_Dir path) r)"
  shows "atomic_on path (perm, data) s (writeFileAtomic ft path data perm s)"
    and "\<not> ft_remove ft \<Longrightarrow> q \<noteq> path \<Longrightarrow>
      fs_file (after s (writeFileAtomic ft path data perm s)) q = fs_file s q"
proof -
  have "atomic_on path (perm, data) s (writeFileAtomic ft path data perm s)
    \<and> (\<not> ft_remove ft \<longrightarrow> q \<noteq> path \<longrightarrow>
        fs_file (after s (writeFileAtomic ft path data perm s)) q = fs_file s q)"
  proof (cases "CreateTemp ft (filepath_Dir path) s")
    case (Inl e)
    then show ?thesis by (simp add: writeFileAtomic_def atomic_on_def after_def)
  next
    case (Inr c)
    obtain tmp s1 where c: "CreateTemp ft (filepath_Dir path) s = Inr (tmp, s1)"
      using Inr by (cases c) auto
    note ct = CreateTemp_Inr [OF c]
    have ne: "tmp \<noteq> path" using ct(1,3) assms by metis
    obtain ss e where w: "write_temp ft tmp path data perm s1 = (ss, e)" by fastforce
    have wt: "temp_spec tmp path (perm, data) s1 (ss, e)"
      using write_temp_spec [OF ne, of perm data s1 ft] by (simp add: w)
    have p1: "fs_file s1 path = fs_file s path" using ct(2) ne by simp
    show ?thesis using wt ct(1,2) ne p1
      by (auto simp: writeFileAtomic_def c w Let_def atomic_on_def after_def temp_spec_def)
  qed
  then show "atomic_on path (perm, data) s (writeFileAtomic ft path data perm s)"
    "\<not> ft_remove ft \<Longrightarrow> q \<noteq> path \<Longrightarrow>
      fs_file (after s (writeFileAtomic ft path data perm s)) q = fs_file s q" by auto
qed

text \<open>The lines a registration keeps and the file it writes.\<close>

definition kept_of :: "bytes \<Rightarrow> Identity \<Rightarrow> filesys \<Rightarrow> bytes list" where
  "kept_of path i s =
     (case fs_file s path of None \<Rightarrow> [] | Some (m, d) \<Rightarrow> keep_lines (id_ClientID i) (go_Split d 0x0a))"

lemma WriteIdentityFile_shape:
  "(\<exists>e. WriteIdentityFile ft path i s = ([], Some e)) \<or>
   (\<exists>ds e. WriteIdentityFile ft path i s = ([make_dirs ds 0x1c0 s], Some e)) \<or>
   dccIDAnon < id_ClientID i \<and> id_Password i \<noteq> [] \<and>
   (\<exists>ss e. writeFileAtomic ft path (ids_content (kept_of path i s) i) 0x180 (make_dirs (dir_chain (filepath_Dir path)) 0x1c0 s) = (ss, e) \<and>
     WriteIdentityFile ft path i s = (make_dirs (dir_chain (filepath_Dir path)) 0x1c0 s # ss, map_option WriteAtomic e))"
  by (auto simp: WriteIdentityFile_def MkdirAll_def ReadFile_def kept_of_def Let_def not_le
      split: option.splits prod.splits sum.splits if_splits)

lemma WriteIdentityFile_atomic:
  assumes "fs_file s path \<noteq> None \<or> (\<forall>r. path \<noteq> temp_name (filepath_Dir path) r)"
  shows "atomic_on path (0x180, ids_content (kept_of path i s) i) s (WriteIdentityFile ft path i s)"
    and "\<not> ft_remove ft \<Longrightarrow> q \<noteq> path \<Longrightarrow>
      fs_file (after s (WriteIdentityFile ft path i s)) q = fs_file s q"
proof -
  define s1 where "s1 = make_dirs (dir_chain (filepath_Dir path)) 0x1c0 s"
  have s1: "fs_file s1 = fs_file s" by (simp add: s1_def)
  have "atomic_on path (0x180, ids_content (kept_of path i s) i) s (WriteIdentityFile ft path i s)
    \<and> (\<not> ft_remove ft \<longrightarrow> q \<noteq> path \<longrightarrow> fs_file (after s (WriteIdentityFile ft path i s)) q = fs_file s q)"
    using WriteIdentityFile_shape [of ft path i s] unfolding s1_def [symmetric]
  proof (elim disjE conjE exE)
    fix ss e
    assume w: "writeFileAtomic ft path (ids_content (kept_of path i s) i) 0x180 s1 = (ss, e)"
      "WriteIdentityFile ft path i s = (s1 # ss, map_option WriteAtomic e)"
    show ?thesis
      using writeFileAtomic_atomic [where s = s1 and path = path and perm = "0x180" and ft = ft
          and data = "ids_content (kept_of path i s) i"] assms w s1
      by (auto simp: atomic_on_def after_def)
  qed (simp_all add: atomic_on_def after_def s1)
  then show "atomic_on path (0x180, ids_content (kept_of path i s) i) s (WriteIdentityFile ft path i s)"
    "\<not> ft_remove ft \<Longrightarrow> q \<noteq> path \<Longrightarrow>
      fs_file (after s (WriteIdentityFile ft path i s)) q = fs_file s q" by auto
qed

lemma saved_file:
  assumes "fs_file s path \<noteq> None \<or> (\<forall>r. path \<noteq> temp_name (filepath_Dir path) r)"
    and "WriteIdentityFile ft path i s = (ss, None)"
  shows "fs_file (last (s # ss)) path = Some (0x180, ids_content (kept_of path i s) i)"
  using WriteIdentityFile_atomic(1) [OF assms(1), where i = i and ft = ft] assms(2) by (simp add: atomic_on_def after_def)

lemma kept_text:
  assumes "\<And>m d. fs_file s path = Some (m, d) \<Longrightarrow> short_lines d"
  shows "list_all text_line (kept_of path i s)"
  using assms keep_lines_text [OF Split_text] by (auto simp: kept_of_def split: option.split)

lemma keep_kept:
  assumes "list_all text_line ls" "list_all (\<lambda>l. l \<noteq> [] \<and> idOfLine l \<noteq> Some n) ls"
  shows "keep_lines n ls = ls"
  using assms by (induction ls) (auto simp: TrimRight_id text_line_def Let_def)

lemma keep_lines_kept: "list_all (\<lambda>l. l \<noteq> [] \<and> idOfLine l \<noteq> Some n) (keep_lines n ls)"
  by (induction ls) (auto simp: Let_def simp del: trim_line)

lemma keep_lines_append: "keep_lines n (xs @ ys) = keep_lines n xs @ keep_lines n ys"
  by (induction xs) (auto simp: Let_def)

lemma kept_stable:
  assumes "list_all text_line (kept_of path i s)" "plain_password (id_Password i)"
    and "fs_file t path = Some (m, ids_content (kept_of path i s) i)"
  shows "kept_of path i t = kept_of path i s"
proof -
  have k: "list_all (\<lambda>l. l \<noteq> [] \<and> idOfLine l \<noteq> Some (id_ClientID i)) (kept_of path i s)"
    by (auto simp: kept_of_def keep_lines_kept split: option.split)
  show ?thesis
    unfolding kept_of_def [of path i t]
    by (simp add: assms(3) Split_ids_content [OF assms(1,2)] keep_lines_append keep_kept [OF assms(1) k]
        Let_def idOfLine_line [OF assms(2)] go_TrimRight_def [of "[]"])
qed

lemma usable_ids_new:
  assumes "storable i" "\<And>m d. fs_file s path = Some (m, d) \<Longrightarrow> short_lines d"
  shows "usable_ids (ids_content (kept_of path i s) i) =
    (case fs_file s path of None \<Rightarrow> [] | Some (m, d) \<Rightarrow> filter (\<lambda>j. id_ClientID j \<noteq> id_ClientID i) (usable_ids d)) @ [i]"
proof -
  have p: "plain_password (id_Password i)" using assms(1) by (simp add: storable_def)
  have "scan_lines (ids_content (kept_of path i s) i) = kept_of path i s @ [id_line i]"
    by (rule scan_ids_content [OF kept_text p]) (rule assms(2))
  then have "usable_ids (ids_content (kept_of path i s) i) = List.map_filter usable (kept_of path i s) @ [i]"
    using usable_line [OF assms(1)] by (simp add: usable_ids_def List.map_filter_def)
  moreover have "List.map_filter usable (kept_of path i s) =
      (case fs_file s path of None \<Rightarrow> [] | Some (m, d) \<Rightarrow> filter (\<lambda>j. id_ClientID j \<noteq> id_ClientID i) (usable_ids d))"
    using assms(2) by (auto simp: kept_of_def keep_lines_usable usable_ids_Split map_filter_simps split: option.split)
  ultimately show ?thesis by simp
qed

lemma ParseIdentityFile_usable:
  "ParseIdentityFile s = (case usable_ids s of [] \<Rightarrow> None | i # _ \<Rightarrow> Some i)"
  by (simp add: ParseIdentityFile_def usable_ids_def parse_id_lines_usable)

lemma reads_back:
  assumes "storable i"
    and "\<And>m d. fs_file s path = Some (m, d) \<Longrightarrow> short_lines d"
    and "fs_file s path \<noteq> None \<or> (\<forall>r. path \<noteq> temp_name (filepath_Dir path) r)"
    and "WriteIdentityFile ft path i s = (ss, None)"
  shows "\<exists>d. fs_file (last (s # ss)) path = Some (0x180, d) \<and>
    ParseIdentityFile d =
      (case fs_file s path of
         None \<Rightarrow> Some i
       | Some (m, old) \<Rightarrow>
           (case filter (\<lambda>j. id_ClientID j \<noteq> id_ClientID i) (usable_ids old) of
              [] \<Rightarrow> Some i | j # _ \<Rightarrow> Some j))"
  using saved_file [OF assms(3,4)] usable_ids_new [OF assms(1,2)]
  by (auto simp: ParseIdentityFile_usable split: option.split list.split)

text \<open>An example: a file with a comment, an old entry of the same id and another id.\<close>

definition ex_faults :: os_faults where
  "ex_faults = \<lparr>ft_mkdir = None, ft_read = None, ft_rands = [7], ft_create = None, ft_chmod = None,
     ft_write = None, ft_close = None, ft_rename = None, ft_remove = False\<rparr>"

definition ex_path :: bytes where "ex_path = str ''/x/ids''"

definition ex_old :: bytes where
  "ex_old = str ''# ids'' @ 0x0a # str ''12 old'' @ [0x0d, 0x0a]"

definition ex_fs :: filesys where
  "ex_fs = \<lparr>fs_file = [ex_path \<mapsto> (0x1a4, ex_old)], fs_dirs = Map.empty\<rparr>"

definition ex_id :: Identity where
  "ex_id = \<lparr>id_ClientID = 12, id_Password = str ''secret''\<rparr>"

text \<open>Without failures, and with a free name among those tried, the save succeeds.\<close>

lemma write_succeeds:
  assumes "dccIDAnon < id_ClientID i" "id_Password i \<noteq> []"
    and "ft_mkdir ft = None" "ft_read ft = None" "ft_create ft = None" "ft_chmod ft = None"
      "ft_write ft = None" "ft_close ft = None" "ft_rename ft = None"
    and "r \<in> set (ft_rands ft)" "fs_file s (temp_name (filepath_Dir path) r) = None"
  shows "snd (WriteIdentityFile ft path i s) = None"
proof -
  have "find (\<lambda>r. fs_file s (temp_name (filepath_Dir path) r) = None) (ft_rands ft) \<noteq> None"
    using assms(10,11) by (auto simp: find_None_iff)
  then show ?thesis using assms
    by (auto simp: WriteIdentityFile_def MkdirAll_def ReadFile_def writeFileAtomic_def CreateTemp_def write_temp_def
        Let_def not_le split: option.split)
qed

lemma ex_temp: "fs_file ex_fs (temp_name d 7) = None"
proof -
  have "last (temp_name d 7) = 0x37" by (simp add: temp_name_def dec.simps)
  moreover have "last ex_path = 0x73" by (simp add: ex_path_def str_def)
  ultimately show ?thesis by (auto simp: ex_fs_def)
qed

lemma ex_write: "snd (WriteIdentityFile ex_faults ex_path ex_id ex_fs) = None"
  by (rule write_succeeds [of _ _ 7]) (simp_all add: ex_temp, simp_all add: ex_id_def dccIDAnon_def ex_faults_def str_def)

lemma ex_kept: "kept_of ex_path ex_id ex_fs = [str ''# ids'']"
  by (simp add: kept_of_def ex_fs_def ex_old_def ex_id_def str_def go_TrimRight_def idOfLine_def id_fields_def
      cut_at_def go_fields_def space_at_def space_codes_def Let_def parse_uint32_def digits_val_def isDigit_def)

lemma ex_id_storable: "storable ex_id"
  by (simp add: storable_def plain_password_def ex_id_def dccIDAnon_def str_def graph_def maxScanTokenSize_def)

lemma ex_file: "fs_file ex_fs ex_path = Some (0x1a4, ex_old)"
  by (simp add: ex_fs_def)

lemma ex_short: "short_lines ex_old"
  by (simp add: short_lines_def ex_old_def str_def maxScanTokenSize_def)

definition ex_after :: filesys where
  "ex_after = last (ex_fs # fst (WriteIdentityFile ex_faults ex_path ex_id ex_fs))"

lemma ex_after_file: "fs_file ex_after ex_path = Some (0x180, ids_content [str ''# ids''] ex_id)"
  using saved_file [of ex_fs ex_path ex_faults ex_id "fst (WriteIdentityFile ex_faults ex_path ex_id ex_fs)"]
    ex_write ex_kept ex_file by (simp add: ex_after_def prod_eq_iff)

lemma ex_write_again: "snd (WriteIdentityFile ex_faults ex_path ex_id ex_after) = None"
proof -
  have "temp_name d 7 \<noteq> ex_path" for d using ex_temp [of d] ex_file by auto
  then have "fs_file ex_after (temp_name (filepath_Dir ex_path) 7) = None"
    using WriteIdentityFile_atomic(2) [where path = ex_path and s = ex_fs and ft = ex_faults and i = ex_id
        and q = "temp_name (filepath_Dir ex_path) 7"] ex_file ex_temp
    by (simp add: ex_after_def after_def ex_faults_def)
  then show ?thesis
    by (intro write_succeeds [of _ _ 7]) (simp_all, simp_all add: ex_id_def dccIDAnon_def ex_faults_def str_def)
qed

section \<open>Properties\<close>

text \<open>
  C21. Saving a credential is atomic.  Whatever system call fails, and at whatever moment the
  file is read or the process dies (every partial write included), the ids file has either its
  old contents and mode or the complete new contents with mode 0600; when the call reports
  success it has the new, when it reports an error the old.  As long as the temporary file can
  be removed, every other file is in the end as it was and none is left behind.
\<close>

theorem write_is_atomic:
  assumes "fs_file s path \<noteq> None \<or> (\<forall>r. path \<noteq> temp_name (filepath_Dir path) r)"
    and "WriteIdentityFile ft path i s = (ss, err)"
  shows "(\<forall>t \<in> set ss. fs_file t path = fs_file s path
            \<or> fs_file t path = Some (0x180, ids_content (kept_of path i s) i))
    \<and> fs_file (last (s # ss)) path =
        (if err = None then Some (0x180, ids_content (kept_of path i s) i) else fs_file s path)
    \<and> (\<not> ft_remove ft \<longrightarrow> (\<forall>q. q \<noteq> path \<longrightarrow> fs_file (last (s # ss)) q = fs_file s q))"
  using WriteIdentityFile_atomic [OF assms(1), where i = i and ft = ft] assms(2)
  by (auto simp: atomic_on_def after_def)

theorem write_is_atomic_witness:
  "fs_file ex_after ex_path = Some (0x180, ids_content [str ''# ids''] ex_id)
    \<and> fs_file ex_after (str ''/x/.ids-7'') = None"
proof -
  have "str ''/x/.ids-7'' \<noteq> ex_path" by (simp add: ex_path_def str_def)
  then show ?thesis
    using write_is_atomic [of ex_fs ex_path ex_faults ex_id _ None]
      ex_write ex_kept ex_file
    by (auto simp: ex_after_def prod_eq_iff ex_faults_def ex_fs_def)
qed

text \<open>
  C40. Registering again is idempotent: after a successful save, a second successful save of the
  same credential leaves the file exactly as it is, whatever else it holds, as long as the
  lines of the old file fit the line reader and the password is printing ASCII without a
  number sign.
\<close>

theorem register_idempotent:
  assumes "plain_password (id_Password i)"
    and "\<And>m d. fs_file s path = Some (m, d) \<Longrightarrow> short_lines d"
    and "fs_file s path \<noteq> None \<or> (\<forall>r. path \<noteq> temp_name (filepath_Dir path) r)"
    and "WriteIdentityFile ft path i s = (ss, None)"
    and "WriteIdentityFile ft' path i (last (s # ss)) = (ss', None)"
  shows "fs_file (last (last (s # ss) # ss')) path = fs_file (last (s # ss)) path"
proof -
  let ?t = "last (s # ss)"
  have t: "fs_file ?t path = Some (0x180, ids_content (kept_of path i s) i)"
    by (rule saved_file [OF assms(3,4)])
  have "fs_file (last (?t # ss')) path = Some (0x180, ids_content (kept_of path i ?t) i)"
    by (rule saved_file [OF _ assms(5)]) (simp only: t option.distinct not_False_eq_True simp_thms)
  moreover have "kept_of path i ?t = kept_of path i s"
    by (rule kept_stable [OF kept_text assms(1) t]) (rule assms(2))
  ultimately show ?thesis using t by simp
qed

theorem register_idempotent_witness:
  "fs_file (last (ex_after # fst (WriteIdentityFile ex_faults ex_path ex_id ex_after))) ex_path
     = fs_file ex_after ex_path"
  unfolding ex_after_def
proof (rule register_idempotent)
  show "plain_password (id_Password ex_id)" using ex_id_storable by (simp add: storable_def)
  show "short_lines d" if "fs_file ex_fs ex_path = Some (m, d)" for m d
    using that ex_file ex_short by simp
  show "fs_file ex_fs ex_path \<noteq> None \<or> (\<forall>r. ex_path \<noteq> temp_name (filepath_Dir ex_path) r)"
    by (simp add: ex_file)
  show "WriteIdentityFile ex_faults ex_path ex_id ex_fs = (fst (WriteIdentityFile ex_faults ex_path ex_id ex_fs), None)"
    using ex_write by (simp add: prod_eq_iff)
  show "WriteIdentityFile ex_faults ex_path ex_id (last (ex_fs # fst (WriteIdentityFile ex_faults ex_path ex_id ex_fs)))
    = (fst (WriteIdentityFile ex_faults ex_path ex_id (last (ex_fs # fst (WriteIdentityFile ex_faults ex_path ex_id ex_fs)))), None)"
    using ex_write_again unfolding ex_after_def by (simp add: prod_eq_iff)
qed

section \<open>Where the file does not give the credential back\<close>

text \<open>A password with a space is cut at it, and an earlier entry of another id is preferred.\<close>

lemma password_with_space_lost:
  "ParseIdentityFile (ids_content [] \<lparr>id_ClientID = 12, id_Password = str ''a b''\<rparr>)
     = Some \<lparr>id_ClientID = 12, id_Password = str ''a''\<rparr>"
  by (simp add: ids_content_def id_line_def dec.simps str_def ParseIdentityFile_def scan_lines.simps
      cut_at_def maxScanTokenSize_def drop_cr_def Let_def id_fields_def go_fields_def space_at_def
      space_codes_def parse_uint32_def digits_val_def isDigit_def dccIDAnon_def word_le_nat_alt)

lemma register_shadowed:
  "ParseIdentityFile (ids_content (keep_lines 12 [str ''7 old'']) ex_id)
     = Some \<lparr>id_ClientID = 7, id_Password = str ''old''\<rparr>"
  by (simp add: ids_content_def id_line_def dec.simps str_def ParseIdentityFile_def scan_lines.simps ex_id_def
      cut_at_def maxScanTokenSize_def drop_cr_def Let_def id_fields_def go_fields_def space_at_def idOfLine_def
      go_TrimRight_def space_codes_def parse_uint32_def digits_val_def isDigit_def dccIDAnon_def word_le_nat_alt)

end
