(* ===== verification/Client.thy ===== *)
theory Client
  imports Proto Result Message
begin

text \<open>
  The client, \<^verbatim>\<open>src/dcc/client.go\<close>: servers and their address cache, the identifiers of a
  transaction, the exchange with one server, and \<^verbatim>\<open>send\<close> over all of them.

  What the network, the clock, the context and the other goroutines do is an argument: for each
  call to the outside the observation it made, in the order of the calls.  An observation list
  that ends is a call still in progress, \<open>Pending\<close>.  Times and durations are whole nanoseconds.
  The packets handed to the socket and the locked operations on the address cache are results.
\<close>

section \<open>Servers and clients\<close>

record Server =
  sv_Host :: bytes
  sv_Port :: int

definition port :: "Server \<Rightarrow> int" where
  "port s = (if sv_Port s = 0 then dccSrvrPort else sv_Port s)"

definition DefaultServers :: "Server list" where
  "DefaultServers = map (\<lambda>h. \<lparr>sv_Host = str h, sv_Port = 0\<rparr>)
     [''dcc1.dcc-servers.net'', ''dcc2.dcc-servers.net'', ''dcc3.dcc-servers.net'', ''dcc4.dcc-servers.net'']"

definition maxXmits :: nat where "maxXmits = 4"
definition millisecond :: int where "millisecond = 1000000"
definition second :: int where "second = 1000 * millisecond"
definition defaultTimeout :: int where "defaultTimeout = 5 * second"

record Client =
  cl_Servers :: "Server list"
  cl_ClientID :: u32
  cl_Password :: bytes
  cl_Timeout :: int
  cl_once :: bool
  cl_hid :: u32
  cl_pid :: u32
  cl_rid :: u32

definition newClient :: "Server list \<Rightarrow> u32 \<Rightarrow> bytes \<Rightarrow> int \<Rightarrow> Client" where
  "newClient srvs i pw t = \<lparr>cl_Servers = srvs, cl_ClientID = i, cl_Password = pw, cl_Timeout = t,
     cl_once = False, cl_hid = 0, cl_pid = 0, cl_rid = 0\<rparr>"

definition servers :: "Client \<Rightarrow> Server list" where
  "servers c = (if cl_Servers c = [] then DefaultServers else cl_Servers c)"

definition sender :: "Client \<Rightarrow> u32 \<times> bytes" where
  "sender c =
     (let i = (if cl_ClientID c = 0 then dccIDAnon else cl_ClientID c)
      in if i = dccIDAnon \<or> cl_Password c = [] then (dccIDAnon, []) else (i, passwd16 (cl_Password c)))"

definition timeout :: "Client \<Rightarrow> int" where
  "timeout c = (if cl_Timeout c \<le> 0 then defaultTimeout else cl_Timeout c)"

definition get_le32 :: "bytes \<Rightarrow> u32" where
  "get_le32 b = get_be32 (rev b)"

text \<open>\<open>rnd\<close> are the eight random bytes, \<open>pid\<close> the process id.\<close>

definition ensureIDs :: "bytes \<Rightarrow> u32 \<Rightarrow> Client \<Rightarrow> Client" where
  "ensureIDs rnd pid c =
     (if cl_once c then c
      else let h = get_le32 (take 4 rnd);
               p = get_le32 (take 4 (drop 4 rnd))
           in c\<lparr>cl_once := True, cl_hid := (if h = 0 then 1 else h), cl_pid := (if p = 0 then pid else p)\<rparr>)"

section \<open>Errors and calls in progress\<close>

datatype client_err =
    ErrNoCks
  | ErrNoServers
  | ErrResolve bytes nat
  | ErrDial bytes nat
  | ErrSend nat
  | ErrStopped
  | ErrCtx nat
  | ErrTimeout
  | ErrRecv nat
  | ErrAnswer answer_err
  | ErrNoAnswer bytes

datatype 'a run = Pending | Panicked | Returned 'a

section \<open>The address cache\<close>

record addrEntry =
  ae_addr :: nat
  ae_exp :: int

type_synonym addrCache = "Server \<rightharpoonup> addrEntry"

definition addrTTL :: int where "addrTTL = 30 * second"

datatype cache_op = CacheStore Server addrEntry | CacheDelete Server

fun cache_do :: "cache_op \<Rightarrow> addrCache \<Rightarrow> addrCache" where
  "cache_do (CacheStore srv e) m = m(srv \<mapsto> e)"
| "cache_do (CacheDelete srv) m = m(srv := None)"

definition dec_int :: "int \<Rightarrow> bytes" where
  "dec_int n = (if n < 0 then 0x2d # dec (nat (- n)) else dec (nat n))"

definition JoinHostPort :: "bytes \<Rightarrow> bytes \<Rightarrow> bytes" where
  "JoinHostPort host p =
     (if 0x3a \<in> set host then 0x5b # host @ [0x5d, 0x3a] @ p else host @ 0x3a # p)"

text \<open>
  \<open>cached\<close> is what the locked lookup found, \<open>now\<close> the time read before it, \<open>dns\<close> what
  \<^verbatim>\<open>net.ResolveUDPAddr\<close> answers for a host and port.
\<close>

definition resolve ::
  "addrEntry option \<Rightarrow> int \<Rightarrow> (bytes \<Rightarrow> nat + nat) \<Rightarrow> Server \<Rightarrow> cache_op list \<times> (nat + nat)" where
  "resolve cached now dns srv =
     (case (case cached of Some e \<Rightarrow> if now < ae_exp e then Some (ae_addr e) else None | None \<Rightarrow> None) of
        Some a \<Rightarrow> ([], Inr a)
      | None \<Rightarrow>
          (case dns (JoinHostPort (sv_Host srv) (dec_int (port srv))) of
             Inl e \<Rightarrow> ([], Inl e)
           | Inr a \<Rightarrow> ([CacheStore srv \<lparr>ae_addr = a, ae_exp = now + addrTTL\<rparr>], Inr a)))"

definition invalidateAddr :: "Server \<Rightarrow> cache_op list" where
  "invalidateAddr srv = [CacheDelete srv]"

section \<open>Reading the answer\<close>

text \<open>
  One turn of the loop: which case the \<^verbatim>\<open>select\<close> took (when the stop channel is closed and the
  context done at the same time, Go picks either), the time, and what the read gave.
\<close>

datatype select = SelStop | SelDone nat | SelDefault

datatype read_event = Datagram bytes | ReadTimeout | ReadFailed nat

record look =
  lk_select :: select
  lk_now :: int
  lk_read :: read_event

definition answerBufLen :: nat where "answerBufLen = 2048"

fun readAnswer ::
  "look list \<Rightarrow> u32 \<Rightarrow> opNums \<Rightarrow> bytes \<Rightarrow> int \<Rightarrow> (client_err + answerCount list) run" where
  "readAnswer [] n nums passwd until = Pending"
| "readAnswer (l # ls) n nums passwd until =
     (case lk_select l of
        SelStop \<Rightarrow> Returned (Inl ErrStopped)
      | SelDone e \<Rightarrow> Returned (Inl (ErrCtx e))
      | SelDefault \<Rightarrow>
          if \<not> lk_now l < until then Returned (Inl ErrTimeout)
          else (case lk_read l of
            ReadTimeout \<Rightarrow> Returned (Inl ErrTimeout)
          | ReadFailed e \<Rightarrow> Returned (Inl (ErrRecv e))
          | Datagram d \<Rightarrow>
              let buf = take answerBufLen d in
              (case parseAnswer buf n nums of
                None \<Rightarrow> Panicked
              | Some (Inl e) \<Rightarrow>
                  if e = ErrMismatch then readAnswer ls n nums passwd until
                  else Returned (Inl (ErrAnswer e))
              | Some (Inr counts) \<Rightarrow>
                  if \<not> verifyAnswerSig buf passwd then readAnswer ls n nums passwd until
                  else Returned (Inr counts))))"

section \<open>The exchange with one server\<close>

text \<open>
  One transmission: the \<^verbatim>\<open>select\<close> before it, what the write gave, the time after it, the turns
  of \<^verbatim>\<open>readAnswer\<close>, and the time after a time-out.
\<close>

record xmit =
  xm_select :: select
  xm_write :: "nat option"
  xm_now :: int
  xm_looks :: "look list"
  xm_after :: int

type_synonym outcome = "cache_op list \<times> bytes list \<times> (client_err + answerCount list) run"

fun xmit_loop ::
  "nat \<Rightarrow> xmit list \<Rightarrow> Server \<Rightarrow> bytes \<Rightarrow> opNums \<Rightarrow> bytes \<Rightarrow> u32 \<Rightarrow> int \<Rightarrow> int \<Rightarrow> outcome" where
  "xmit_loop 0 xs srv pkt nums passwd n backoff deadline = ([], [], Returned (Inl (ErrNoAnswer (sv_Host srv))))"
| "xmit_loop (Suc k) [] srv pkt nums passwd n backoff deadline = ([], [], Pending)"
| "xmit_loop (Suc k) (x # xs) srv pkt nums passwd n backoff deadline =
     (case xm_select x of
        SelStop \<Rightarrow> ([], [], Returned (Inl ErrStopped))
      | SelDone e \<Rightarrow> ([], [], Returned (Inl (ErrCtx e)))
      | SelDefault \<Rightarrow>
          let nums = nums\<lparr>on_t := on_t nums + 1\<rparr> in
          if length pkt < 24 then ([], [], Panicked)
          else (case signPacket (copy_at pkt 20 (put_be32 (on_t nums))) passwd of
            None \<Rightarrow> ([], [], Panicked)
          | Some pkt \<Rightarrow>
              (case xm_write x of
                 Some e \<Rightarrow> (invalidateAddr srv, [pkt], Returned (Inl (ErrSend e)))
               | None \<Rightarrow>
                   let waitUntil = (if xm_now x + backoff > deadline then deadline else xm_now x + backoff);
                       r = readAnswer (xm_looks x) n nums passwd waitUntil
                   in if r = Returned (Inl ErrTimeout)
                      then if \<not> xm_after x < deadline
                           then ([], [pkt], Returned (Inl (ErrNoAnswer (sv_Host srv))))
                           else let (ops, pkts, r) = xmit_loop k xs srv pkt nums passwd n (backoff * 2) deadline
                                in (ops, pkt # pkts, r)
                      else ([], [pkt], r))))"

text \<open>The observations of a whole exchange.\<close>

record world =
  w_now :: int
  w_cached :: "addrEntry option"
  w_dns :: "bytes \<Rightarrow> nat + nat"
  w_dial :: "nat option"
  w_xmits :: "xmit list"

record request =
  rq_op :: byte
  rq_sender :: u32
  rq_passwd :: bytes
  rq_nums :: opNums
  rq_tgts :: u32
  rq_cks :: "Checksum list"
  rq_n :: u32

definition first_backoff :: "int \<Rightarrow> int" where
  "first_backoff t = max (t div 2 ^ maxXmits) (50 * millisecond)"

definition exchange :: "int \<Rightarrow> request \<Rightarrow> Server \<Rightarrow> int \<Rightarrow> world \<Rightarrow> outcome" where
  "exchange t rq srv deadline w =
     (case resolve (w_cached w) (w_now w) (w_dns w) srv of
        (ops, Inl e) \<Rightarrow> (ops, [], Returned (Inl (ErrResolve (sv_Host srv) e)))
      | (ops, Inr raddr) \<Rightarrow>
          (case w_dial w of
             Some e \<Rightarrow> (ops @ invalidateAddr srv, [], Returned (Inl (ErrDial (sv_Host srv) e)))
           | None \<Rightarrow>
               (case buildQuery (rq_op rq) (rq_sender rq) (rq_nums rq) (rq_tgts rq) (rq_cks rq) (rq_passwd rq) of
                  None \<Rightarrow> (ops, [], Panicked)
                | Some pkt \<Rightarrow>
                    let (ops', pkts, r) = xmit_loop maxXmits (w_xmits w) srv pkt (rq_nums rq) (rq_passwd rq)
                          (rq_n rq) (first_backoff t) deadline
                    in (ops @ ops', pkts, r))))"

section \<open>The result\<close>

fun pair_counts :: "Checksum list \<Rightarrow> answerCount list \<Rightarrow> nat \<Rightarrow> Result" where
  "pair_counts [] counts i = []"
| "pair_counts (ck # cks) counts i =
     (if \<not> ck_Report ck \<or> i \<ge> length counts then pair_counts cks counts i
      else \<lparr>cc_Type = ck_Type ck, cc_Label = ck_Label ck,
             cc_Cur = ac_cur (counts ! i), cc_Prev = ac_prev (counts ! i)\<rparr> # pair_counts cks counts (i + 1))"

definition buildResult :: "Checksum list \<Rightarrow> answerCount list \<Rightarrow> Result" where
  "buildResult cks counts = pair_counts cks counts 0"

section \<open>Over all servers\<close>

text \<open>
  One server after the other: the time at which the rest of the budget is measured, the time it is
  added to, the exchange, and whether the context is done after a failure.  The
  result lists the servers tried, with what was sent to each.
\<close>

record turn =
  tn_until :: int
  tn_now :: int
  tn_world :: world
  tn_ctx_done :: bool

type_synonym tried = "(Server \<times> outcome) list"

definition no_servers :: "client_err option \<Rightarrow> client_err" where
  "no_servers lastErr = (case lastErr of None \<Rightarrow> ErrNoServers | Some e \<Rightarrow> e)"

fun send_seq ::
  "int \<Rightarrow> request \<Rightarrow> int \<Rightarrow> Server list \<Rightarrow> turn list \<Rightarrow> client_err option \<Rightarrow> tried \<times> (client_err + Result) run" where
  "send_seq t rq deadline [] tns lastErr = ([], Returned (Inl (no_servers lastErr)))"
| "send_seq t rq deadline (srv # srvs) [] lastErr = ([], Pending)"
| "send_seq t rq deadline (srv # srvs) (tn # tns) lastErr =
     (let remaining = deadline - tn_until tn in
      if remaining \<le> 0 then ([], Returned (Inl (no_servers lastErr)))
      else let attemptDeadline = tn_now tn + remaining div int (length (srv # srvs));
               out = exchange t rq srv attemptDeadline (tn_world tn)
           in (case snd (snd out) of
                Pending \<Rightarrow> ([(srv, out)], Pending)
              | Panicked \<Rightarrow> ([(srv, out)], Panicked)
              | Returned (Inr counts) \<Rightarrow> ([(srv, out)], Returned (Inr (buildResult (rq_cks rq) counts)))
              | Returned (Inl e) \<Rightarrow>
                  if tn_ctx_done tn then ([(srv, out)], Returned (Inl e))
                  else let (tried, r) = send_seq t rq deadline srvs tns (Some e) in ((srv, out) # tried, r)))"

text \<open>
  All at once: every server has its exchange, and the answers are taken in the order they arrive,
  given by \<open>order\<close> as positions in the server list.
\<close>

fun first_valid ::
  "Checksum list \<Rightarrow> nat \<Rightarrow> (client_err + answerCount list) run list \<Rightarrow> client_err option \<Rightarrow> (client_err + Result) run" where
  "first_valid cks 0 rs lastErr = Returned (Inl (no_servers lastErr))"
| "first_valid cks (Suc k) [] lastErr = Pending"
| "first_valid cks (Suc k) (r # rs) lastErr =
     (case r of
        Pending \<Rightarrow> Pending
      | Panicked \<Rightarrow> Panicked
      | Returned (Inr counts) \<Rightarrow> Returned (Inr (buildResult cks counts))
      | Returned (Inl e) \<Rightarrow> first_valid cks k rs (Some e))"

definition parallelQuery ::
  "int \<Rightarrow> request \<Rightarrow> int \<Rightarrow> Server list \<Rightarrow> world list \<Rightarrow> nat list \<Rightarrow> tried \<times> (client_err + Result) run" where
  "parallelQuery t rq deadline srvs ws order =
     (let outs = map (\<lambda>(srv, w). (srv, exchange t rq srv deadline w)) (zip srvs ws);
          arrived = map (\<lambda>i. snd (snd (snd (outs ! i)))) (filter (\<lambda>i. i < length outs) order)
      in (outs, first_valid (rq_cks rq) (length srvs) arrived None))"

text \<open>What one call meets: random bytes and process id, time, context deadline, servers.\<close>

record call_env =
  ce_rnd :: bytes
  ce_pid :: u32
  ce_now :: int
  ce_ctx :: "int option"
  ce_turns :: "turn list"
  ce_worlds :: "world list"
  ce_order :: "nat list"

definition request_of :: "Client \<Rightarrow> byte \<Rightarrow> u32 \<Rightarrow> Checksum list \<Rightarrow> request" where
  "request_of c op tgts cks =
     \<lparr>rq_op = op, rq_sender = fst (sender c), rq_passwd = snd (sender c),
      rq_nums = \<lparr>on_h = cl_hid c, on_p = cl_pid c, on_r = cl_rid c, on_t = 0\<rparr>,
      rq_tgts = tgts, rq_cks = cks, rq_n = reportableCount cks\<rparr>"

definition deadline_of :: "Client \<Rightarrow> call_env \<Rightarrow> int" where
  "deadline_of c env =
     (let d = ce_now env + timeout c
      in case ce_ctx env of None \<Rightarrow> d | Some x \<Rightarrow> if x < d then x else d)"

definition send ::
  "Client \<Rightarrow> byte \<Rightarrow> u32 \<Rightarrow> Checksum list \<Rightarrow> call_env \<Rightarrow> Client \<times> tried \<times> (client_err + Result) run" where
  "send c op tgts cks env =
     (if reportableCount cks = 0 then (c, [], Returned (Inl ErrNoCks))
      else let c = ensureIDs (ce_rnd env) (ce_pid env) c;
               c = c\<lparr>cl_rid := cl_rid c + 1\<rparr>;
               rq = request_of c op tgts cks
           in (c, if op = opQuery \<and> length (servers c) > 1
                  then parallelQuery (timeout c) rq (deadline_of c env) (servers c) (ce_worlds env) (ce_order env)
                  else send_seq (timeout c) rq (deadline_of c env) (servers c) (ce_turns env) None))"

section \<open>The exported operations\<close>

text \<open>
  \<^verbatim>\<open>Check\<close>, \<^verbatim>\<open>Report\<close> and \<^verbatim>\<open>ReportN\<close> are the operations with a background context, which is a call
  whose observations have no context deadline and never see the context done.
\<close>

definition CheckContext ::
  "fuz2Tbl list \<Rightarrow> Client \<Rightarrow> bytes \<Rightarrow> call_env \<Rightarrow> Client \<times> tried \<times> (client_err + Result) run" where
  "CheckContext tbls c msg env =
     (case Checksums tbls msg of None \<Rightarrow> (c, [], Panicked) | Some cks \<Rightarrow> send c opQuery 0 cks env)"

definition ReportNContext ::
  "fuz2Tbl list \<Rightarrow> Client \<Rightarrow> bytes \<Rightarrow> u32 \<Rightarrow> call_env \<Rightarrow> Client \<times> tried \<times> (client_err + unit) run" where
  "ReportNContext tbls c msg n env =
     (let n = (if n = 0 then 1 else n) in
      case Checksums tbls msg of
        None \<Rightarrow> (c, [], Panicked)
      | Some cks \<Rightarrow>
          let (c, tried, r) = send c opReport n cks env in
          (c, tried, case r of
             Pending \<Rightarrow> Pending
           | Panicked \<Rightarrow> Panicked
           | Returned (Inl e) \<Rightarrow> Returned (Inl e)
           | Returned (Inr res) \<Rightarrow> Returned (Inr ())))"

definition ReportContext where
  "ReportContext tbls c msg env = ReportNContext tbls c msg 1 env"

definition background :: "call_env \<Rightarrow> call_env" where
  "background env = env\<lparr>ce_ctx := None\<rparr>"

definition Check where
  "Check tbls c msg env = CheckContext tbls c msg (background env)"

definition ReportN where
  "ReportN tbls c msg n env = ReportNContext tbls c msg n (background env)"

definition Report where
  "Report tbls c msg env = ReportN tbls c msg 1 env"

definition opName :: "byte \<Rightarrow> bytes" where
  "opName op = (if op = opQuery then str ''query'' else if op = opReport then str ''report''
     else if op = opNop then str ''nop'' else str ''op'')"

end
