(* ===== verification/Client_Props.thy ===== *)
theory Client_Props
  imports Client
begin

text \<open>
  What the client guarantees about the exchange with its servers: which packets it sends, which
  answers it believes, that it does not miss one, and at which server a report ends.
\<close>

section \<open>Packets\<close>

text \<open>The packet of the given transmission of a request, as the protocol lays it out.\<close>

definition request_packet :: "request \<Rightarrow> u32 \<Rightarrow> bytes" where
  "request_packet rq t =
     (let body = wire_query (rq_op rq) (rq_sender rq) (rq_nums rq\<lparr>on_t := t\<rparr>) (rq_tgts rq) (reportable (rq_cks rq))
      in body @ wire_sig (rq_passwd rq) body)"

lemma build_request:
  "sums_ok (rq_cks rq) \<Longrightarrow>
   buildQuery (rq_op rq) (rq_sender rq) (rq_nums rq\<lparr>on_t := t\<rparr>) (rq_tgts rq) (rq_cks rq) (rq_passwd rq)
     = Some (request_packet rq t)"
  by (simp add: build_layout request_packet_def Let_def)

lemma resign_request:
  assumes "sums_ok (rq_cks rq)"
  shows "signPacket (copy_at (request_packet rq t) 20 (put_be32 u)) (rq_passwd rq) = Some (request_packet rq u)"
  using resign_rebuild [OF assms build_request [OF assms, of t], of u] build_request [OF assms, of u] by simp

lemma length_request: "sums_ok (rq_cks rq) \<Longrightarrow> 24 \<le> length (request_packet rq t)"
  using length_wire_query [OF sums_ok_reportable] by (simp add: request_packet_def Let_def)

lemma parse_on_t [simp]: "parseAnswer b n (nums\<lparr>on_t := t\<rparr>) = parseAnswer b n nums"
  by (simp add: parseAnswer_def)

lemma readAnswer_on_t [simp]: "readAnswer ls n (nums\<lparr>on_t := t\<rparr>) pw until = readAnswer ls n nums pw until"
  by (induction ls) (simp_all add: Let_def split: select.split read_event.split option.split sum.split)

text \<open>The packets of the transmissions \<open>t + 1, \<dots>, t + k\<close>.\<close>

definition packets :: "request \<Rightarrow> u32 \<Rightarrow> nat \<Rightarrow> bytes list" where
  "packets rq t k = map (\<lambda>i. request_packet rq (t + 1 + of_nat i)) [0..<k]"

lemma packets_0 [simp]: "packets rq t 0 = []"
  by (simp add: packets_def)

lemma packets_Suc: "packets rq t (Suc k) = request_packet rq (t + 1) # packets rq (t + 1) k"
  by (simp add: packets_def upt_conv_Cons map_Suc_upt [symmetric] add_ac del: upt_Suc)

lemma parse_returns [simp]: "parseAnswer b n nums \<noteq> None" "parseAnswer b n nums = None \<longleftrightarrow> False"
  using parse_answer [where buf = b and n = n and want = nums] by (auto split: option.splits)

lemma readAnswer_not_panicked [returns]: "readAnswer ls n nums pw until \<noteq> Panicked"
proof (induction ls)
  case (Cons l ls)
  then show ?case
    by (auto simp: Let_def split: select.split read_event.split option.split sum.split)
qed simp

lemma xmit_loop_sends:
  assumes "sums_ok (rq_cks rq)"
  shows "\<exists>k' \<le> k. fst (snd (xmit_loop k xs srv (request_packet rq t) (rq_nums rq\<lparr>on_t := t\<rparr>) (rq_passwd rq) n backoff deadline))
      = packets rq t k'
    \<and> snd (snd (xmit_loop k xs srv (request_packet rq t) (rq_nums rq\<lparr>on_t := t\<rparr>) (rq_passwd rq) n backoff deadline)) \<noteq> Panicked"
proof (induction k arbitrary: xs t backoff)
  case 0
  show ?case by simp
next
  case (Suc k)
  show ?case
  proof (cases xs)
    case Nil
    then show ?thesis by auto
  next
    case (Cons x ys)
    note IH = Suc.IH [of ys "t + 1" "backoff * 2"]
    let ?r = "xmit_loop k ys srv (request_packet rq (t + 1)) (rq_nums rq\<lparr>on_t := t + 1\<rparr>) (rq_passwd rq) n (backoff * 2) deadline"
    obtain k' where k': "k' \<le> k" "fst (snd ?r) = packets rq (t + 1) k'" "snd (snd ?r) \<noteq> Panicked"
      using IH by auto
    have one: "[request_packet rq (t + 1)] = packets rq t (Suc 0)" by (simp add: packets_Suc)
    have more: "request_packet rq (t + 1) # packets rq (t + 1) k' = packets rq t (Suc k')"
      by (simp add: packets_Suc)
    show ?thesis
      using k' length_request [OF assms, of t] resign_request [OF assms, of t "t + 1"] one more
        readAnswer_not_panicked
      by (cases "xm_select x"; cases "xm_write x")
        (auto simp: Cons Let_def split_beta not_less)
  qed
qed

lemma exchange_sends:
  assumes "sums_ok (rq_cks rq)" "on_t (rq_nums rq) = 0"
  shows "(\<exists>k \<le> maxXmits. fst (snd (exchange t rq srv deadline w)) = packets rq 0 k)
    \<and> snd (snd (exchange t rq srv deadline w)) \<noteq> Panicked"
proof -
  have n: "rq_nums rq\<lparr>on_t := 0\<rparr> = rq_nums rq" using assms(2) by simp
  have b: "buildQuery (rq_op rq) (rq_sender rq) (rq_nums rq) (rq_tgts rq) (rq_cks rq) (rq_passwd rq)
      = Some (request_packet rq 0)"
    using build_request [OF assms(1), of 0] n by simp
  have e: "\<exists>k \<le> maxXmits. [] = packets rq 0 k" by (rule exI [of _ 0]) simp
  show ?thesis
    using xmit_loop_sends [OF assms(1), of maxXmits "w_xmits w" srv 0 "rq_n rq" "first_backoff t" deadline] n b e
    by (cases "snd (resolve (w_cached w) (w_now w) (w_dns w) srv)"; cases "w_dial w")
      (auto simp: exchange_def split_beta Let_def split: prod.split sum.split)
qed

lemma exchange_not_panicked:
  assumes "sums_ok (rq_cks rq)" "on_t (rq_nums rq) = 0"
  shows "Panicked \<noteq> snd (snd (exchange t rq srv deadline w))"
  using exchange_sends [OF assms, of t srv deadline w] by auto

definition tried_sends :: "request \<Rightarrow> tried \<Rightarrow> bool" where
  "tried_sends rq tried \<longleftrightarrow>
     list_all (\<lambda>(srv, ops, pkts, r). \<exists>k \<le> maxXmits. pkts = packets rq 0 k) tried"

lemma tried_sends_one: "sums_ok (rq_cks rq) \<Longrightarrow> on_t (rq_nums rq) = 0 \<Longrightarrow>
    tried_sends rq ((srv, exchange t rq srv d w) # tried) = tried_sends rq tried"
  using exchange_sends by (auto simp: tried_sends_def split_beta)

lemma send_seq_sends:
  assumes "sums_ok (rq_cks rq)" "on_t (rq_nums rq) = 0"
  shows "tried_sends rq (fst (send_seq t rq deadline srvs tns lastErr))
    \<and> snd (send_seq t rq deadline srvs tns lastErr) \<noteq> Panicked"
proof (induction srvs arbitrary: tns lastErr)
  case (Cons srv srvs)
  show ?case
    using Cons exchange_sends [OF assms] tried_sends_one [OF assms]
    by (cases tns) (auto simp: Let_def split_beta tried_sends_one [OF assms] split: run.split sum.split,
        simp_all add: tried_sends_def)
qed (simp add: tried_sends_def)

lemma first_valid_not_panicked: "Panicked \<notin> set rs \<Longrightarrow> first_valid cks k rs lastErr \<noteq> Panicked"
  by (induction cks k rs lastErr rule: first_valid.induct) (auto split: run.split sum.split)

lemma parallelQuery_sends:
  assumes "sums_ok (rq_cks rq)" "on_t (rq_nums rq) = 0"
  shows "tried_sends rq (fst (parallelQuery t rq deadline srvs ws order))
    \<and> snd (parallelQuery t rq deadline srvs ws order) \<noteq> Panicked"
proof -
  let ?outs = "map (\<lambda>(srv, w). (srv, exchange t rq srv deadline w)) (zip srvs ws)"
  have "Panicked \<notin> set (map (\<lambda>i. snd (snd (snd (?outs ! i)))) (filter (\<lambda>i. i < length ?outs) order))"
    using exchange_not_panicked [OF assms] by (auto simp: split_beta)
  then show ?thesis
    using first_valid_not_panicked exchange_sends [OF assms]
    by (auto simp: parallelQuery_def Let_def tried_sends_def list_all_iff split_beta dest!: set_zip_leftD)
qed

lemma request_of_simps [simp]:
  "rq_cks (request_of c op tgts cks) = cks" "on_t (rq_nums (request_of c op tgts cks)) = 0"
  "rq_n (request_of c op tgts cks) = reportableCount cks"
  by (simp_all add: request_of_def)

section \<open>Answers\<close>

definition heard :: "world \<Rightarrow> bytes set" where
  "heard w = {d. \<exists>x \<in> set (w_xmits w). \<exists>l \<in> set (xm_looks x). lk_read l = Datagram d}"

definition authentic :: "request \<Rightarrow> bytes \<Rightarrow> answerCount list \<Rightarrow> bool" where
  "authentic rq d counts \<longleftrightarrow>
     parseAnswer (take answerBufLen d) (rq_n rq) (rq_nums rq) = Some (Inr counts)
     \<and> verifyAnswerSig (take answerBufLen d) (rq_passwd rq)"

lemma readAnswer_authentic:
  "readAnswer ls n nums pw until = Returned (Inr counts) \<Longrightarrow>
     \<exists>l \<in> set ls. \<exists>d. lk_read l = Datagram d \<and> parseAnswer (take answerBufLen d) n nums = Some (Inr counts)
       \<and> verifyAnswerSig (take answerBufLen d) pw"
  by (induction ls)
    (auto simp: Let_def split: select.splits read_event.splits option.splits sum.splits if_splits)

lemma xmit_loop_authentic:
  "snd (snd (xmit_loop k xs srv pkt (nums\<lparr>on_t := t\<rparr>) pw n backoff deadline)) = Returned (Inr counts) \<Longrightarrow>
     \<exists>x \<in> set xs. \<exists>l \<in> set (xm_looks x). \<exists>d. lk_read l = Datagram d
       \<and> parseAnswer (take answerBufLen d) n nums = Some (Inr counts)
       \<and> verifyAnswerSig (take answerBufLen d) pw"
proof (induction k arbitrary: xs pkt t backoff)
  case (Suc k)
  show ?case
  proof (cases xs)
    case (Cons x ys)
    have r: "readAnswer (xm_looks x) n nums pw u = Returned (Inr counts) \<Longrightarrow> ?thesis" for u
      using readAnswer_authentic [of "xm_looks x" n nums pw u counts] by (auto simp: Cons)
    show ?thesis
      using Suc.prems r Suc.IH [of ys _ "t + 1" "backoff * 2"]
      by (auto simp: Cons Let_def split_beta split: select.splits option.splits if_splits)
  qed (use Suc.prems in simp)
qed simp

lemma exchange_authentic:
  assumes "snd (snd (exchange t rq srv deadline w)) = Returned (Inr counts)"
  shows "\<exists>d \<in> heard w. authentic rq d counts"
proof -
  have n: "rq_nums rq\<lparr>on_t := on_t (rq_nums rq)\<rparr> = rq_nums rq" by simp
  obtain pkt where r: "snd (snd (xmit_loop maxXmits (w_xmits w) srv pkt (rq_nums rq\<lparr>on_t := on_t (rq_nums rq)\<rparr>)
      (rq_passwd rq) (rq_n rq) (first_backoff t) deadline)) = Returned (Inr counts)"
    using assms unfolding n
    by (auto simp: exchange_def split_beta Let_def split: prod.splits sum.splits option.splits)
  show ?thesis using xmit_loop_authentic [OF r] unfolding heard_def authentic_def by blast
qed

text \<open>Pairing the counts with the checksums.\<close>

definition paired :: "Checksum \<Rightarrow> answerCount \<Rightarrow> CkCount" where
  "paired ck a = \<lparr>cc_Type = ck_Type ck, cc_Label = ck_Label ck, cc_Cur = ac_cur a, cc_Prev = ac_prev a\<rparr>"

lemma pair_counts_eq: "pair_counts cks counts i = map2 paired (reportable cks) (drop i counts)"
proof (induction cks arbitrary: i)
  case (Cons ck cks)
  have "drop i counts = counts ! i # drop (i + 1) counts" if "i < length counts"
    using that by (simp add: Cons_nth_drop_Suc)
  then show ?case using Cons by (cases "i < length counts") (auto simp: reportable_def paired_def)
qed (simp add: reportable_def)

lemma buildResult_eq: "buildResult cks counts = map2 paired (reportable cks) counts"
  by (simp add: buildResult_def pair_counts_eq)

lemma reportableCount_eq: "reportableCount cks = of_nat (length (reportable cks))"
proof -
  have "fold (\<lambda>c n. if ck_Report c then n + 1 else n) cks m = m + of_nat (length (filter ck_Report cks))" for m :: u32
    by (induction cks arbitrary: m) (simp_all add: add_ac)
  then show ?thesis by (simp add: reportableCount_def reportable_def)
qed

lemma send_seq_authentic:
  "snd (send_seq t rq deadline srvs tns lastErr) = Returned (Inr res) \<Longrightarrow>
    \<exists>tn \<in> set tns. \<exists>d \<in> heard (tn_world tn). \<exists>counts. authentic rq d counts \<and> res = buildResult (rq_cks rq) counts"
proof (induction srvs arbitrary: tns lastErr)
  case (Cons srv srvs)
  show ?case
  proof (cases tns)
    case Nil
    then show ?thesis using Cons.prems by simp
  next
    case t: (Cons tn tns')
    let ?out = "exchange t rq srv (tn_now tn + (deadline - tn_until tn) div int (length (srv # srvs))) (tn_world tn)"
    show ?thesis
    proof (cases "snd (snd ?out)")
      case (Returned r)
      show ?thesis
      proof (cases r)
        case (Inl e)
        then show ?thesis using Cons.prems Cons.IH [of tns' "Some e"] Returned
          by (auto simp: t Let_def split_beta split: if_splits)
      next
        case (Inr counts)
        then show ?thesis using Cons.prems Returned exchange_authentic [of t rq srv _ "tn_world tn" counts]
          by (auto simp: t Let_def split_beta split: if_splits) blast
      qed
    qed (use Cons.prems in \<open>simp_all add: t Let_def split: if_splits\<close>)
  qed
qed simp

lemma first_valid_authentic:
  "first_valid cks k rs lastErr = Returned (Inr res) \<Longrightarrow>
     \<exists>counts. Returned (Inr counts) \<in> set rs \<and> res = buildResult cks counts"
  by (induction cks k rs lastErr rule: first_valid.induct) (auto split: run.splits sum.splits)

lemma parallelQuery_authentic:
  assumes "snd (parallelQuery t rq deadline srvs ws order) = Returned (Inr res)"
  shows "\<exists>w \<in> set ws. \<exists>d \<in> heard w. \<exists>counts. authentic rq d counts \<and> res = buildResult (rq_cks rq) counts"
proof -
  obtain counts i where i: "i < length (zip srvs ws)" "res = buildResult (rq_cks rq) counts"
    "snd (snd (exchange t rq (fst (zip srvs ws ! i)) deadline (snd (zip srvs ws ! i)))) = Returned (Inr counts)"
    using first_valid_authentic [of "rq_cks rq"] assms
    by (fastforce simp: parallelQuery_def Let_def split_beta)
  moreover have "snd (zip srvs ws ! i) \<in> set ws" using i(1) by simp
  ultimately show ?thesis using exchange_authentic by blast
qed

text \<open>What one call may hear at all.\<close>

definition call_worlds :: "call_env \<Rightarrow> world list" where
  "call_worlds env = ce_worlds env @ map tn_world (ce_turns env)"

lemma send_cases:
  assumes "send c op tgts cks env = (c', tried, r)"
  shows "reportableCount cks = 0 \<and> tried = [] \<and> r = Returned (Inl ErrNoCks) \<or>
    cl_rid c' = cl_rid c + 1 \<and>
    ((tried, r) = parallelQuery (timeout c') (request_of c' op tgts cks) (deadline_of c' env) (servers c')
        (ce_worlds env) (ce_order env) \<and> op = opQuery
     \<or> (tried, r) = send_seq (timeout c') (request_of c' op tgts cks) (deadline_of c' env) (servers c') (ce_turns env) None)"
  using assms by (auto simp: send_def Let_def ensureIDs_def split: if_splits)

lemma send_sends:
  assumes "sums_ok cks" "send c op tgts cks env = (c', tried, r)"
  shows "r \<noteq> Panicked \<and> tried_sends (request_of c' op tgts cks) tried"
proof -
  let ?rq = "request_of c' op tgts cks"
  have ok: "sums_ok (rq_cks ?rq)" "on_t (rq_nums ?rq) = 0" using assms(1) by simp_all
  from send_cases [OF assms(2)] show ?thesis
  proof (elim disjE conjE)
    assume p: "(tried, r) = parallelQuery (timeout c') ?rq (deadline_of c' env) (servers c') (ce_worlds env) (ce_order env)"
    show ?thesis using parallelQuery_sends [OF ok, of "timeout c'" "deadline_of c' env" "servers c'" "ce_worlds env" "ce_order env"]
      unfolding p [symmetric] by simp
  next
    assume p: "(tried, r) = send_seq (timeout c') ?rq (deadline_of c' env) (servers c') (ce_turns env) None"
    show ?thesis using send_seq_sends [OF ok, of "timeout c'" "deadline_of c' env" "servers c'" "ce_turns env" None]
      unfolding p [symmetric] by simp
  qed (simp add: tried_sends_def)
qed

lemma send_authentic:
  assumes "send c op tgts cks env = (c', tried, Returned (Inr res))"
  shows "\<exists>w \<in> set (call_worlds env). \<exists>d \<in> heard w. \<exists>counts.
    authentic (request_of c' op tgts cks) d counts \<and> res = buildResult cks counts"
proof -
  let ?rq = "request_of c' op tgts cks"
  from send_cases [OF assms] show ?thesis
  proof (elim disjE conjE)
    assume p: "(tried, Returned (Inr res)) = parallelQuery (timeout c') ?rq (deadline_of c' env) (servers c')
        (ce_worlds env) (ce_order env)"
    show ?thesis using parallelQuery_authentic [OF p [symmetric, THEN arg_cong [of _ _ snd], unfolded snd_conv]]
      by (auto simp: call_worlds_def)
  next
    assume p: "(tried, Returned (Inr res)) = send_seq (timeout c') ?rq (deadline_of c' env) (servers c') (ce_turns env) None"
    show ?thesis using send_seq_authentic [OF p [symmetric, THEN arg_cong [of _ _ snd], unfolded snd_conv]]
      by (auto simp: call_worlds_def)
  qed simp
qed

section \<open>One server counts a report\<close>

definition answered :: "Server \<times> outcome \<Rightarrow> bool" where
  "answered x \<longleftrightarrow> (case snd (snd (snd x)) of Returned (Inr _) \<Rightarrow> True | _ \<Rightarrow> False)"

text \<open>Success means that the last server tried answered; otherwise none did.\<close>

definition ends_with_answer :: "tried \<Rightarrow> (client_err + 'a) run \<Rightarrow> bool" where
  "ends_with_answer tried r \<longleftrightarrow>
     (case r of
        Returned (Inr res) \<Rightarrow> tried \<noteq> [] \<and> answered (last tried) \<and> list_all (\<lambda>y. \<not> answered y) (butlast tried)
      | _ \<Rightarrow> list_all (\<lambda>y. \<not> answered y) tried)"

lemma ends_with_answer_Cons:
  "\<not> answered y \<Longrightarrow> ends_with_answer tried r \<Longrightarrow> ends_with_answer (y # tried) r"
  by (auto simp: ends_with_answer_def split: run.split sum.split)

lemma send_seq_stops:
  "map fst (fst (send_seq t rq deadline srvs tns lastErr)) = take (length (fst (send_seq t rq deadline srvs tns lastErr))) srvs
   \<and> ends_with_answer (fst (send_seq t rq deadline srvs tns lastErr)) (snd (send_seq t rq deadline srvs tns lastErr))"
proof (induction srvs arbitrary: tns lastErr)
  case (Cons srv srvs)
  show ?case
  proof (cases tns)
    case t: (Cons tn tns')
    let ?out = "exchange t rq srv (tn_now tn + (deadline - tn_until tn) div int (length (srv # srvs))) (tn_world tn)"
    show ?thesis
    proof (cases "deadline - tn_until tn \<le> 0")
      case False
      show ?thesis
      proof (cases "snd (snd ?out)")
        case (Returned r)
        show ?thesis
        proof (cases r)
          case (Inl e)
          have na: "\<not> answered (srv, ?out)" using Returned Inl by (simp add: answered_def)
          show ?thesis
          proof (cases "tn_ctx_done tn")
            case True
            then show ?thesis using False Returned Inl na by (simp add: t Let_def ends_with_answer_def)
          next
            case nd: False
            let ?s = "send_seq t rq deadline srvs tns' (Some e)"
            have s: "send_seq t rq deadline (srv # srvs) tns lastErr = ((srv, ?out) # fst ?s, snd ?s)"
              using False Returned Inl nd by (simp add: t Let_def split_beta)
            show ?thesis unfolding s using Cons.IH [of tns' "Some e"]
                ends_with_answer_Cons [OF na Cons.IH [of tns' "Some e", THEN conjunct2]] by simp
          qed
        next
          case (Inr counts)
          have "answered (srv, ?out)" using Returned Inr by (simp add: answered_def)
          then show ?thesis using False Returned Inr by (simp add: t Let_def ends_with_answer_def)
        qed
      qed (use False in \<open>simp_all add: t Let_def answered_def ends_with_answer_def\<close>)
    qed (simp add: t Let_def ends_with_answer_def)
  qed (simp add: ends_with_answer_def)
qed (simp add: ends_with_answer_def)

section \<open>No answer is missed\<close>

text \<open>A turn of the read loop that passes over a datagram: of another transaction, or not signed.\<close>

definition ignored :: "request \<Rightarrow> int \<Rightarrow> look \<Rightarrow> bool" where
  "ignored rq until l \<longleftrightarrow> lk_select l = SelDefault \<and> lk_now l < until \<and>
     (\<exists>d. lk_read l = Datagram d \<and>
        (parseAnswer (take answerBufLen d) (rq_n rq) (rq_nums rq) = Some (Inl ErrMismatch)
         \<or> (\<exists>c. parseAnswer (take answerBufLen d) (rq_n rq) (rq_nums rq) = Some (Inr c)
              \<and> \<not> verifyAnswerSig (take answerBufLen d) (rq_passwd rq))))"

lemma readAnswer_ignored:
  "list_all (ignored rq until) pre \<Longrightarrow>
     readAnswer (pre @ ls) (rq_n rq) (rq_nums rq) (rq_passwd rq) until
       = readAnswer ls (rq_n rq) (rq_nums rq) (rq_passwd rq) until"
  by (induction pre) (auto simp: ignored_def Let_def)

lemma readAnswer_takes:
  assumes "list_all (ignored rq until) pre" "lk_select l = SelDefault" "lk_now l < until"
    "lk_read l = Datagram d" "authentic rq d counts"
  shows "readAnswer (pre @ l # ls) (rq_n rq) (rq_nums rq) (rq_passwd rq) until = Returned (Inr counts)"
  using assms(2-) by (simp add: readAnswer_ignored [OF assms(1)] authentic_def Let_def)

definition wait_until :: "xmit \<Rightarrow> int \<Rightarrow> int \<Rightarrow> int" where
  "wait_until x backoff deadline = min (xm_now x + backoff) deadline"

text \<open>Transmissions that go out and time out before the deadline.\<close>

fun silent :: "request \<Rightarrow> int \<Rightarrow> int \<Rightarrow> xmit list \<Rightarrow> bool" where
  "silent rq backoff deadline [] \<longleftrightarrow> True"
| "silent rq backoff deadline (x # xs) \<longleftrightarrow>
     xm_select x = SelDefault \<and> xm_write x = None
     \<and> readAnswer (xm_looks x) (rq_n rq) (rq_nums rq) (rq_passwd rq) (wait_until x backoff deadline) = Returned (Inl ErrTimeout)
     \<and> xm_after x < deadline \<and> silent rq (backoff * 2) deadline xs"

lemma xmit_loop_takes:
  assumes "sums_ok (rq_cks rq)"
  shows "silent rq backoff deadline xs \<Longrightarrow> length xs < k \<Longrightarrow>
    xm_select x = SelDefault \<Longrightarrow> xm_write x = None \<Longrightarrow>
    readAnswer (xm_looks x) (rq_n rq) (rq_nums rq) (rq_passwd rq) (wait_until x (backoff * 2 ^ length xs) deadline)
      = Returned (Inr counts) \<Longrightarrow>
    snd (snd (xmit_loop k (xs @ x # ys) srv (request_packet rq t) (rq_nums rq\<lparr>on_t := t\<rparr>) (rq_passwd rq) (rq_n rq) backoff deadline))
      = Returned (Inr counts)"
proof (induction xs arbitrary: k t backoff)
  case Nil
  then obtain k' where "k = Suc k'" by (cases k) auto
  then show ?case
    using Nil length_request [OF assms, of t] resign_request [OF assms, of t "t + 1"]
    by (simp add: Let_def wait_until_def min_def not_less split: if_splits)
next
  case (Cons z zs)
  then obtain k' where k: "k = Suc k'" "length zs < k'" by (cases k) auto
  have "snd (snd (xmit_loop k' (zs @ x # ys) srv (request_packet rq (t + 1)) (rq_nums rq\<lparr>on_t := t + 1\<rparr>) (rq_passwd rq) (rq_n rq) (backoff * 2) deadline))
      = Returned (Inr counts)"
    using Cons.IH [of "backoff * 2" k' "t + 1"] Cons.prems k(2) by (simp add: ac_simps)
  then show ?case
    using Cons.prems length_request [OF assms, of t] resign_request [OF assms, of t "t + 1"]
    by (simp add: k(1) Let_def wait_until_def min_def not_less split_beta split: if_splits)
qed

end
