(* ===== verification/Client_Specs.thy ===== *)
theory Client_Specs
  imports Client_Props
begin

text \<open>
  The main properties of the client, with an example run: one server,
  a first packet that gets no answer, a stray datagram and then the answer to the second packet.
\<close>

section \<open>The answer of a server\<close>

text \<open>What an honest server sends: header, counts and the signature with the shared password.\<close>

definition signed_answer :: "u32 \<Rightarrow> opNums \<Rightarrow> bytes \<Rightarrow> answerCount list \<Rightarrow> bytes" where
  "signed_answer s nums pw counts =
     wire_answer s nums counts
       (wire_sig pw (wire_hdr (40 + 8 * length counts) opAnswer s nums @ concat (map wire_count counts)))"

lemma length_signed_answer: "length (signed_answer s nums pw counts) = 40 + 8 * length counts"
  by (simp add: signed_answer_def wire_answer_def wire_hdr_def)

lemma signed_answer_verifies: "verifyAnswerSig (signed_answer s nums pw counts) pw"
proof (cases "pw = []")
  case False
  define body where "body = wire_hdr (40 + 8 * length counts) opAnswer s nums @ concat (map wire_count counts)"
  have "signed_answer s nums pw counts = body @ md5_digest (pw @ body)"
    using False by (simp add: signed_answer_def wire_answer_def body_def wire_sig_def)
  moreover have "length (md5_digest (pw @ body)) = 16" by simp
  ultimately show ?thesis
    using False by (simp add: verifyAnswerSig_def sigLen_def md5_write_write md5_sum_digest)
qed (simp add: verifyAnswerSig_def)

lemma signed_answer_authentic:
  assumes "40 + 8 * length counts \<le> answerBufLen" "rq_n rq = of_nat (length counts)"
    "on_h nums = on_h (rq_nums rq)" "on_p nums = on_p (rq_nums rq)" "on_r nums = on_r (rq_nums rq)"
  shows "authentic rq (signed_answer s nums (rq_passwd rq) counts) counts"
proof -
  have t: "take answerBufLen (signed_answer s nums (rq_passwd rq) counts) = signed_answer s nums (rq_passwd rq) counts"
    using assms(1) by (simp add: length_signed_answer)
  have "40 + 8 * length counts < 2 ^ 16" using assms(1) by (simp add: answerBufLen_def)
  from parse_wire_answer [OF this, of "wire_sig (rq_passwd rq) (wire_hdr (40 + 8 * length counts) opAnswer s nums @ concat (map wire_count counts))" s nums "rq_nums rq"]
  show ?thesis using assms(2-) signed_answer_verifies
    by (simp add: authentic_def t) (simp add: signed_answer_def)
qed

lemma exchange_takes:
  assumes "sums_ok (rq_cks rq)" "on_t (rq_nums rq) = 0"
    and "snd (resolve (w_cached w) (w_now w) (w_dns w) srv) = Inr a" "w_dial w = None"
    and "w_xmits w = xs @ x # ys" "length xs < 4" "silent rq (first_backoff t) deadline xs"
    and "xm_select x = SelDefault" "xm_write x = None" "xm_looks x = pre @ l # post"
    and "list_all (ignored rq (wait_until x (first_backoff t * 2 ^ length xs) deadline)) pre"
    and "lk_select l = SelDefault" "lk_now l < wait_until x (first_backoff t * 2 ^ length xs) deadline"
    and "lk_read l = Datagram d" "authentic rq d counts"
  shows "snd (snd (exchange t rq srv deadline w)) = Returned (Inr counts)"
proof -
  have n: "rq_nums rq\<lparr>on_t := 0\<rparr> = rq_nums rq" using assms(2) by simp
  have b: "buildQuery (rq_op rq) (rq_sender rq) (rq_nums rq) (rq_tgts rq) (rq_cks rq) (rq_passwd rq) = Some (request_packet rq 0)"
    using build_request [OF assms(1), of 0] n by simp
  have "readAnswer (xm_looks x) (rq_n rq) (rq_nums rq) (rq_passwd rq)
      (wait_until x (first_backoff t * 2 ^ length xs) deadline) = Returned (Inr counts)"
    unfolding assms(10) by (rule readAnswer_takes [OF assms(11-15)])
  from xmit_loop_takes [OF assms(1) assms(7) _ assms(8,9) this, of maxXmits ys srv 0] assms(6)
  have "snd (snd (xmit_loop maxXmits (w_xmits w) srv (request_packet rq 0) (rq_nums rq) (rq_passwd rq) (rq_n rq)
      (first_backoff t) deadline)) = Returned (Inr counts)"
    by (simp add: maxXmits_def assms(5) n)
  then show ?thesis using assms(3,4) b by (simp add: exchange_def split_beta Let_def split: prod.split sum.split)
qed

section \<open>Example\<close>

definition ex_cks :: "Checksum list" where
  "ex_cks = [\<lparr>ck_Type = CkBody, ck_Label = str ''Body'', ck_Sum = replicate 16 7, ck_Report = True\<rparr>]"

definition ex_server :: Server where "ex_server = \<lparr>sv_Host = str ''h'', sv_Port = 0\<rparr>"

definition ex_client :: Client where "ex_client = newClient [ex_server] 0 [] 0"

definition ex_counts :: "answerCount list" where "ex_counts = [\<lparr>ac_cur = 5, ac_prev = 4\<rparr>]"

definition ex_nums :: opNums where "ex_nums = \<lparr>on_h = 1, on_p = 2, on_r = 1, on_t = 0\<rparr>"

definition ex_answer :: bytes where "ex_answer = signed_answer 1 ex_nums [] ex_counts"
definition ex_stray :: bytes where "ex_stray = signed_answer 1 (ex_nums\<lparr>on_r := 9\<rparr>) [] ex_counts"

definition ex_look :: "int \<Rightarrow> read_event \<Rightarrow> look" where
  "ex_look now e = \<lparr>lk_select = SelDefault, lk_now = now, lk_read = e\<rparr>"

definition ex_xmits :: "xmit list" where
  "ex_xmits =
     [\<lparr>xm_select = SelDefault, xm_write = None, xm_now = 0, xm_looks = [ex_look 0 ReadTimeout], xm_after = 312500000\<rparr>,
      \<lparr>xm_select = SelDefault, xm_write = None, xm_now = 312500000,
         xm_looks = [ex_look 312500000 (Datagram ex_stray), ex_look 312500001 (Datagram ex_answer)], xm_after = 0\<rparr>]"

definition ex_world :: world where
  "ex_world = \<lparr>w_now = 0, w_cached = None, w_dns = (\<lambda>_. Inr 9), w_dial = None, w_xmits = ex_xmits\<rparr>"

definition ex_env :: call_env where
  "ex_env = \<lparr>ce_rnd = [1, 0, 0, 0, 2, 0, 0, 0], ce_pid = 3, ce_now = 0, ce_ctx = None,
     ce_turns = [\<lparr>tn_until = 0, tn_now = 0, tn_world = ex_world, tn_ctx_done = False\<rparr>],
     ce_worlds = [], ce_order = []\<rparr>"

definition ex_request :: "Checksum list \<Rightarrow> byte \<Rightarrow> u32 \<Rightarrow> request" where
  "ex_request cks op tgts = \<lparr>rq_op = op, rq_sender = 1, rq_passwd = [], rq_nums = ex_nums, rq_tgts = tgts,
     rq_cks = cks, rq_n = 1\<rparr>"

lemma ex_request_simps [simp]:
  "rq_op (ex_request cks op tgts) = op" "rq_sender (ex_request cks op tgts) = 1" "rq_passwd (ex_request cks op tgts) = []"
  "rq_nums (ex_request cks op tgts) = ex_nums" "rq_tgts (ex_request cks op tgts) = tgts"
  "rq_cks (ex_request cks op tgts) = cks" "rq_n (ex_request cks op tgts) = 1" "on_t ex_nums = 0"
  by (simp_all add: ex_request_def ex_nums_def)

lemma ex_sums: "sums_ok ex_cks" "reportableCount ex_cks = 1"
  by (simp_all add: sums_ok_def ex_cks_def reportableCount_eq reportable_def)

lemma ex_authentic: "authentic (ex_request cks op tgts) ex_answer ex_counts"
  unfolding ex_answer_def
  using signed_answer_authentic [of ex_counts "ex_request cks op tgts" ex_nums 1]
  by (simp add: ex_counts_def answerBufLen_def)

lemma ex_stray_mismatch: "parseAnswer (take answerBufLen ex_stray) 1 ex_nums = Some (Inl ErrMismatch)"
  using parse_wire_answer [of ex_counts "wire_sig [] (wire_hdr 48 opAnswer 1 (ex_nums\<lparr>on_r := 9\<rparr>) @ concat (map wire_count ex_counts))"
      1 "ex_nums\<lparr>on_r := 9\<rparr>" ex_nums]
    length_signed_answer [of 1 "ex_nums\<lparr>on_r := 9\<rparr>" "[]" ex_counts]
  by (simp add: ex_stray_def signed_answer_def ex_counts_def ex_nums_def answerBufLen_def)

lemma ex_exchange:
  assumes "sums_ok cks"
  shows "snd (snd (exchange defaultTimeout (ex_request cks op tgts) ex_server defaultTimeout ex_world)) = Returned (Inr ex_counts)"
  by (rule exchange_takes [where xs = "[hd ex_xmits]" and x = "ex_xmits ! 1" and ys = "[]" and a = 9
        and pre = "[ex_look 312500000 (Datagram ex_stray)]" and post = "[]" and d = ex_answer
        and l = "ex_look 312500001 (Datagram ex_answer)"])
    (simp_all add: ex_world_def ex_xmits_def ex_look_def ex_authentic assms resolve_def ignored_def wait_until_def
      first_backoff_def defaultTimeout_def second_def millisecond_def maxXmits_def ex_stray_mismatch)

lemma ex_send:
  assumes "sums_ok cks" "reportableCount cks = 1"
  shows "send ex_client op tgts cks ex_env =
     (ex_client\<lparr>cl_once := True, cl_hid := 1, cl_pid := 2, cl_rid := 1\<rparr>,
      [(ex_server, exchange defaultTimeout (ex_request cks op tgts) ex_server defaultTimeout ex_world)],
      Returned (Inr (buildResult cks ex_counts)))"
proof -
  let ?c = "ex_client\<lparr>cl_once := True, cl_hid := 1, cl_pid := 2, cl_rid := 1\<rparr>"
  have c: "ensureIDs (ce_rnd ex_env) (ce_pid ex_env) ex_client = ex_client\<lparr>cl_once := True, cl_hid := 1, cl_pid := 2\<rparr>"
    by (simp add: ensureIDs_def ex_client_def newClient_def ex_env_def Let_def get_le32_def)
  have rq: "request_of ?c op tgts cks = ex_request cks op tgts"
    by (simp add: request_of_def ex_request_def sender_def ex_client_def newClient_def Let_def dccIDAnon_def
        assms(2) ex_nums_def)
  have s: "servers ?c = [ex_server]" "timeout ?c = defaultTimeout" "deadline_of ?c ex_env = defaultTimeout"
    by (simp_all add: servers_def ex_client_def newClient_def timeout_def deadline_of_def ex_env_def Let_def)
  have r: "reportableCount cks \<noteq> 0" "cl_rid ex_client = 0"
    by (simp_all add: assms(2) ex_client_def newClient_def)
  show ?thesis
    using ex_exchange [OF assms(1), of op tgts] r
    by (simp add: send_def Let_def c rq s)
      (simp add: ex_env_def Let_def defaultTimeout_def second_def millisecond_def)
qed

section \<open>Properties\<close>

text \<open>
  C12. However the network behaves, a request sends each server it tries at most four packets, and
  the one of transmission \<open>i\<close> is the freshly built and signed packet of this request with the
  transmit counter \<open>i\<close>: the counter is in the signature, nothing else changes between
  retransmissions.  Neither building and sending the request nor any datagram that comes in, however
  formed, makes the client panic.
\<close>

theorem packets_sent:
  assumes "sums_ok cks" "send c op tgts cks env = (c', tried, r)"
  shows "r \<noteq> Panicked \<and>
    (\<forall>(srv, ops, pkts, out) \<in> set tried. \<exists>k \<le> 4.
       pkts = map (\<lambda>i. request_packet (request_of c' op tgts cks) (of_nat i)) [1..<Suc k])"
proof -
  have "packets rq 0 k = map (\<lambda>i. request_packet rq (of_nat i)) [1..<Suc k]" for rq k
    by (simp add: packets_def map_Suc_upt [symmetric] del: upt_Suc)
  then show ?thesis
    using send_sends [OF assms] by (auto simp: tried_sends_def list_all_iff maxXmits_def)
qed

theorem packets_sent_witness:
  "\<exists>k \<le> 4. fst (snd (exchange defaultTimeout (ex_request ex_cks opReport 1) ex_server defaultTimeout ex_world))
     = map (\<lambda>i. request_packet (request_of (fst (send ex_client opReport 1 ex_cks ex_env)) opReport 1 ex_cks) (of_nat i)) [1..<Suc k]"
  using packets_sent [OF ex_sums(1) ex_send [OF ex_sums], of opReport 1] by (auto simp: ex_send [OF ex_sums] split_beta)

text \<open>
  C5. Counts are believed only when they come from an authentic answer.  When a request returns
  counts, one of the datagrams its sockets received parses as an answer to this very transaction
  and, for a client with a password, ends with the MD5 of password and contents; there is one
  count per reportable checksum, and the result pairs them in order, with type and label.
\<close>

theorem counts_are_authentic:
  assumes "send c op tgts cks env = (c', tried, Returned (Inr res))" "length (reportable cks) < 2 ^ 32"
  shows "\<exists>w \<in> set (call_worlds env). \<exists>d \<in> heard w. \<exists>counts.
    authentic (request_of c' op tgts cks) d counts \<and> length counts = length (reportable cks)
    \<and> res = map2 paired (reportable cks) counts"
proof -
  obtain w d counts where a: "w \<in> set (call_worlds env)" "d \<in> heard w"
      "authentic (request_of c' op tgts cks) d counts" "res = buildResult cks counts"
    using send_authentic [OF assms(1)] by blast
  have "length counts = unat (reportableCount cks)"
    using a(3) parse_answer [where buf = "take answerBufLen d" and n = "reportableCount cks"
        and want = "rq_nums (request_of c' op tgts cks)"]
    by (simp add: authentic_def)
  then have "length counts = length (reportable cks)"
    using assms(2) by (simp add: reportableCount_eq unat_of_nat)
  with a show ?thesis by (auto simp: buildResult_eq)
qed

theorem counts_are_authentic_witness:
  "\<exists>w \<in> set (call_worlds ex_env). \<exists>d \<in> heard w. \<exists>counts.
    authentic (request_of (fst (send ex_client opQuery 0 ex_cks ex_env)) opQuery 0 ex_cks) d counts
    \<and> length counts = 1 \<and> buildResult ex_cks ex_counts = map2 paired ex_cks counts"
  using counts_are_authentic [OF ex_send [OF ex_sums, of opQuery 0]] by (simp add: ex_send [OF ex_sums]) (simp add: ex_cks_def reportable_def)

text \<open>
  C11. An answer is not missed.  When the name resolves, the socket opens, and up to three
  transmissions went unanswered before, and then, within the wait of the current transmission and
  after any number of datagrams of other transactions or with bad signatures, the signed answer of
  the server to any transmission of this request arrives, the exchange returns its counts.
\<close>

theorem answer_is_taken:
  assumes "sums_ok (rq_cks rq)" "on_t (rq_nums rq) = 0" "rq_n rq = of_nat (length counts)"
    and "snd (resolve (w_cached w) (w_now w) (w_dns w) srv) = Inr a" "w_dial w = None"
    and "w_xmits w = before @ x # later" "length before < 4" "silent rq (first_backoff t) deadline before"
    and "xm_select x = SelDefault" "xm_write x = None" "xm_looks x = strays @ l # others"
    and "list_all (ignored rq (wait_until x (first_backoff t * 2 ^ length before) deadline)) strays"
    and "lk_select l = SelDefault" "lk_now l < wait_until x (first_backoff t * 2 ^ length before) deadline"
    and "lk_read l = Datagram (signed_answer s (rq_nums rq\<lparr>on_t := i\<rparr>) (rq_passwd rq) counts)"
    and "40 + 8 * length counts \<le> 2048"
  shows "snd (snd (exchange t rq srv deadline w)) = Returned (Inr counts)"
proof (rule exchange_takes [OF assms(1,2,4-15)])
  show "authentic rq (signed_answer s (rq_nums rq\<lparr>on_t := i\<rparr>) (rq_passwd rq) counts) counts"
    using assms(3,16) by (intro signed_answer_authentic) (simp_all add: answerBufLen_def)
qed

theorem answer_is_taken_witness:
  "snd (snd (exchange defaultTimeout (ex_request ex_cks opQuery 0) ex_server defaultTimeout ex_world)) = Returned (Inr ex_counts)"
  by (rule answer_is_taken [where before = "[hd ex_xmits]" and x = "ex_xmits ! 1" and later = "[]" and a = 9
        and strays = "[ex_look 312500000 (Datagram ex_stray)]" and others = "[]" and s = 1 and i = 0
        and l = "ex_look 312500001 (Datagram ex_answer)"])
    (simp_all add: ex_world_def ex_xmits_def ex_look_def ex_sums resolve_def ignored_def wait_until_def
      first_backoff_def defaultTimeout_def second_def millisecond_def maxXmits_def ex_stray_mismatch,
     simp_all add: ex_answer_def ex_nums_def ex_counts_def)

lemma report_stops:
  assumes "ReportNContext tbls c msg n env = (c', tried, r)"
  shows "map fst tried = take (length tried) (servers c)
    \<and> length (filter answered tried) = (if r = Returned (Inr ()) then 1 else 0)
    \<and> (r = Returned (Inr ()) \<longrightarrow> tried \<noteq> [] \<and> answered (last tried))"
proof (cases "Checksums tbls msg")
  case None
  then show ?thesis using assms by (simp add: ReportNContext_def Let_def)
next
  case (Some cks)
  let ?n = "if n = 0 then 1 else n"
  obtain q where q: "send c opReport ?n cks env = (c', tried, q)" "(r = Returned (Inr ())) = (\<exists>res. q = Returned (Inr res))"
    using assms Some by (cases "send c opReport ?n cks env")
      (auto simp: ReportNContext_def Let_def split: run.splits sum.splits)
  have s: "servers c' = servers c"
    using q(1) by (auto simp: send_def ensureIDs_def servers_def Let_def split: if_splits)
  have e: "map fst tried = take (length tried) (servers c) \<and> ends_with_answer tried q"
    using send_cases [OF q(1)]
  proof (elim disjE conjE)
    assume p: "(tried, q) = send_seq (timeout c') (request_of c' opReport ?n cks) (deadline_of c' env) (servers c') (ce_turns env) None"
    show ?thesis
      using send_seq_stops [of "timeout c'" "request_of c' opReport ?n cks" "deadline_of c' env" "servers c'" "ce_turns env" None]
      unfolding p [symmetric] by (simp add: s)
  qed (simp_all add: ends_with_answer_def opReport_def opQuery_def)
  have one: "length (filter answered tried) = 1" if "tried \<noteq> []" "answered (last tried)" "list_all (\<lambda>y. \<not> answered y) (butlast tried)"
  proof -
    have "filter answered tried = filter answered (butlast tried @ [last tried])" using that(1) by simp
    also have "\<dots> = [last tried]" using that(2,3) by (simp add: list_all_iff)
    finally show ?thesis by simp
  qed
  show ?thesis
  proof (cases "\<exists>res. q = Returned (Inr res)")
    case True
    then have "tried \<noteq> [] \<and> answered (last tried) \<and> list_all (\<lambda>y. \<not> answered y) (butlast tried)"
      using e by (auto simp: ends_with_answer_def)
    with True one q(2) e show ?thesis by simp
  next
    case False
    then have "list_all (\<lambda>y. \<not> answered y) tried"
      using e by (auto simp: ends_with_answer_def split: run.splits sum.splits)
    with False q(2) e show ?thesis by (simp add: list_all_iff filter_empty_conv)
  qed
qed

text \<open>
  C10. A report is answered by one server at most.  The servers are tried in their order, a
  server is tried only after every exchange before it ended without an answer that was taken, the
  report succeeds exactly when one answered, and that one is the last that was sent anything.
\<close>

theorem report_reaches_one_server:
  "case ReportNContext tbls c msg n env of (c', tried, r) \<Rightarrow>
     map fst tried = take (length tried) (servers c)
     \<and> length (filter answered tried) = (if r = Returned (Inr ()) then 1 else 0)
     \<and> (r = Returned (Inr ()) \<longleftrightarrow> tried \<noteq> [] \<and> answered (last tried))"
proof (cases "ReportNContext tbls c msg n env")
  case (fields c' tried r)
  have "length (filter answered tried) \<noteq> 0" if "tried \<noteq> []" "answered (last tried)"
    using that by (auto simp: filter_empty_conv)
  then show ?thesis using report_stops [OF fields] by (auto simp: fields split: if_splits)
qed

lemma first_valid_iff:
  assumes "list_all (\<lambda>r. \<exists>x. r = Returned x) rs" "length rs = k"
  shows "(\<exists>res. first_valid cks k rs lastErr = Returned (Inr res)) \<longleftrightarrow> (\<exists>counts. Returned (Inr counts) \<in> set rs)"
  using assms by (induction cks k rs lastErr rule: first_valid.induct) (auto split: run.splits sum.splits)

text \<open>
  C24. A dead or lying server does not hide an answer.  When a query races all servers and every
  exchange has come back, in whatever order, the query succeeds exactly when at least one server
  gave an answer.
\<close>

theorem race_finds_answer:
  assumes "length ws = length srvs" "distinct order" "set order = {..<length srvs}"
    and "\<And>srv w. (srv, w) \<in> set (zip srvs ws) \<Longrightarrow> \<exists>x. snd (snd (exchange t rq srv deadline w)) = Returned x"
  shows "(\<exists>res. snd (parallelQuery t rq deadline srvs ws order) = Returned (Inr res))
    \<longleftrightarrow> (\<exists>x \<in> set (fst (parallelQuery t rq deadline srvs ws order)). answered x)"
proof -
  define outs where "outs = map (\<lambda>(srv, w). (srv, exchange t rq srv deadline w)) (zip srvs ws)"
  define arr where "arr = map (\<lambda>i. snd (snd (snd (outs ! i)))) order"
  have l: "length outs = length srvs" using assms(1) by (simp add: outs_def)
  have f: "filter (\<lambda>i. i < length outs) order = order"
    using assms(3) l by (auto simp: filter_id_conv)
  have p: "parallelQuery t rq deadline srvs ws order = (outs, first_valid (rq_cks rq) (length srvs) arr None)"
    unfolding parallelQuery_def Let_def outs_def [symmetric] f arr_def by simp
  have s: "set arr = (\<lambda>x. snd (snd (snd x))) ` set outs"
  proof -
    have "set outs = (\<lambda>i. outs ! i) ` {..<length srvs}" using l by (auto simp: set_conv_nth)
    then show ?thesis by (simp add: arr_def assms(3) image_image)
  qed
  have r: "\<exists>x. y = Returned x" if y: "y \<in> set arr" for y
    using y assms(4) unfolding s by (auto simp: outs_def)
  have "length arr = length srvs"
    using assms(2,3) distinct_card [of order] by (simp add: arr_def)
  with r have "(\<exists>res. first_valid (rq_cks rq) (length srvs) arr None = Returned (Inr res))
      \<longleftrightarrow> (\<exists>counts. Returned (Inr counts) \<in> set arr)"
    by (intro first_valid_iff) (auto simp: list_all_iff)
  also have "\<dots> \<longleftrightarrow> (\<exists>x \<in> set outs. answered x)"
  proof
    assume "\<exists>counts. Returned (Inr counts) \<in> set arr"
    then show "\<exists>x \<in> set outs. answered x" unfolding s by (force simp: answered_def)
  next
    assume "\<exists>x \<in> set outs. answered x"
    then obtain x where x: "x \<in> set outs" "answered x" by blast
    then obtain counts where "snd (snd (snd x)) = Returned (Inr counts)"
      by (auto simp: answered_def split: run.splits sum.splits)
    then show "\<exists>counts. Returned (Inr counts) \<in> set arr" unfolding s using x(1) by force
  qed
  finally show ?thesis by (simp add: p)
qed

theorem race_finds_answer_witness:
  "\<exists>res. snd (parallelQuery defaultTimeout (ex_request ex_cks opQuery 0) defaultTimeout [ex_server, ex_server]
      [ex_world, ex_world\<lparr>w_dial := Some 1\<rparr>] [1, 0]) = Returned (Inr res)"
proof -
  let ?rq = "ex_request ex_cks opQuery 0"
  have d: "snd (snd (exchange defaultTimeout ?rq ex_server defaultTimeout (ex_world\<lparr>w_dial := Some 1\<rparr>)))
      = Returned (Inl (ErrDial (sv_Host ex_server) 1))"
    by (simp add: exchange_def resolve_def ex_world_def)
  have e: "\<And>srv w. (srv, w) \<in> set (zip [ex_server, ex_server] [ex_world, ex_world\<lparr>w_dial := Some 1\<rparr>]) \<Longrightarrow>
      \<exists>x. snd (snd (exchange defaultTimeout ?rq srv defaultTimeout w)) = Returned x"
    using d ex_exchange [OF ex_sums(1), of opQuery 0] by auto
  have "\<exists>x \<in> set (fst (parallelQuery defaultTimeout ?rq defaultTimeout [ex_server, ex_server]
      [ex_world, ex_world\<lparr>w_dial := Some 1\<rparr>] [1, 0])). answered x"
    using ex_exchange [OF ex_sums(1), of opQuery 0] by (simp add: parallelQuery_def Let_def answered_def)
  then show ?thesis
    using race_finds_answer [of "[ex_world, ex_world\<lparr>w_dial := Some 1\<rparr>]" "[ex_server, ex_server]" "[1, 0]"
        defaultTimeout ?rq defaultTimeout, OF _ _ _ e]
    by (auto simp: lessThan_Suc)
qed

text \<open>
  An error answer is believed without its signature: a datagram with the numbers of the transaction
  and the error opcode ends the wait, although the signed answer is the next datagram.
\<close>

lemma unsigned_error_ends_wait:
  assumes "lk_select l = SelDefault" "lk_now l < until" "lk_read l = Datagram d"
    and "parseAnswer (take answerBufLen d) n nums = Some (Inl (ErrServer msg))"
  shows "readAnswer (l # ls) n nums pw until = Returned (Inl (ErrAnswer (ErrServer msg)))"
  using assms by (simp add: Let_def)

end
