(* ===== verification/Client_Cache.thy ===== *)
theory Client_Cache
  imports Client Transition "HOL-Library.Multiset"
begin

text \<open>
  The address cache shared by the goroutines of a client, as a state machine.  A \<^verbatim>\<open>resolve\<close> in
  flight has read the clock and then made its locked lookup; when it comes to its end it has an
  answer from its lookup or from DNS and stores the latter.  Other goroutines, and the passing of
  time, come in between in any order.  Two ghost components record which addresses DNS gave and
  when, and which addresses were handed out.
\<close>

record cache_sys =
  cs_clock :: int
  cs_cache :: addrCache
  cs_flight :: "(Server \<times> int \<times> addrEntry option) multiset"
  cs_dns :: "(Server \<times> nat \<times> int) set"
  cs_used :: "(Server \<times> nat \<times> int) set"

definition cache_init :: "int \<Rightarrow> cache_sys" where
  "cache_init t = \<lparr>cs_clock = t, cs_cache = Map.empty, cs_flight = {#}, cs_dns = {}, cs_used = {}\<rparr>"

text \<open>The end of a \<^verbatim>\<open>resolve\<close>, with the DNS answer that came at time \<open>td\<close> if one was asked for.\<close>

definition finish_resolve :: "Server \<Rightarrow> int \<Rightarrow> addrEntry option \<Rightarrow> (bytes \<Rightarrow> nat + nat) \<Rightarrow> int \<Rightarrow> cache_sys \<Rightarrow> cache_sys" where
  "finish_resolve srv t0 cached dns td s =
     (case resolve cached t0 dns srv of
        (ops, Inl e) \<Rightarrow> s\<lparr>cs_cache := fold cache_do ops (cs_cache s)\<rparr>
      | (ops, Inr a) \<Rightarrow> s\<lparr>cs_cache := fold cache_do ops (cs_cache s),
            cs_dns := (if ops = [] then cs_dns s else insert (srv, a, td) (cs_dns s)),
            cs_used := insert (srv, a, t0) (cs_used s)\<rparr>)"

inductive cache_step :: "cache_sys \<Rightarrow> cache_sys \<Rightarrow> bool" where
  tick: "cs_clock s \<le> t \<Longrightarrow> cache_step s (s\<lparr>cs_clock := t\<rparr>)"
| lookup: "t0 \<le> cs_clock s \<Longrightarrow>
     cache_step s (s\<lparr>cs_flight := add_mset (srv, t0, cs_cache s srv) (cs_flight s)\<rparr>)"
| finish: "(srv, t0, cached) \<in># cs_flight s \<Longrightarrow> t0 \<le> td \<Longrightarrow> td \<le> cs_clock s \<Longrightarrow>
     cache_step s (finish_resolve srv t0 cached dns td (s\<lparr>cs_flight := cs_flight s - {#(srv, t0, cached)#}\<rparr>))"
| invalidate: "cache_step s (s\<lparr>cs_cache := fold cache_do (invalidateAddr srv) (cs_cache s)\<rparr>)"

text \<open>An entry is backed by a DNS answer for its server, from which its time to live runs at most.\<close>

definition backed :: "(Server \<times> nat \<times> int) set \<Rightarrow> Server \<Rightarrow> addrEntry \<Rightarrow> bool" where
  "backed H srv e \<longleftrightarrow> (\<exists>td. (srv, ae_addr e, td) \<in> H \<and> ae_exp e \<le> td + addrTTL)"

definition cache_inv :: "cache_sys \<Rightarrow> bool" where
  "cache_inv s \<longleftrightarrow>
     (\<forall>srv e. cs_cache s srv = Some e \<longrightarrow> backed (cs_dns s) srv e)
     \<and> (\<forall>srv t0 e. (srv, t0, Some e) \<in># cs_flight s \<longrightarrow> backed (cs_dns s) srv e)
     \<and> (\<forall>srv a t. (srv, a, t) \<in> cs_used s \<longrightarrow> (\<exists>td. (srv, a, td) \<in> cs_dns s \<and> t < td + addrTTL))"

lemma backed_mono: "backed H srv e \<Longrightarrow> H \<subseteq> H' \<Longrightarrow> backed H' srv e"
  by (auto simp: backed_def)

lemma addrTTL_pos: "0 < addrTTL"
  by (simp add: addrTTL_def second_def millisecond_def)

lemma resolve_inv:
  assumes "cache_inv s" "\<And>e. cached = Some e \<Longrightarrow> backed (cs_dns s) srv e" "t0 \<le> td"
  shows "cache_inv (finish_resolve srv t0 cached dns td s)"
proof (cases "\<exists>e. cached = Some e \<and> t0 < ae_exp e")
  case True
  then obtain e where e: "cached = Some e" "t0 < ae_exp e" by blast
  obtain u where u: "(srv, ae_addr e, u) \<in> cs_dns s" "ae_exp e \<le> u + addrTTL"
    using assms(2) [OF e(1)] by (auto simp: backed_def)
  then have "t0 < u + addrTTL" using e(2) by simp
  with u(1) assms(1) show ?thesis
    by (auto simp: finish_resolve_def resolve_def e cache_inv_def)
next
  case False
  then have r: "resolve cached t0 dns srv =
      (case dns (JoinHostPort (sv_Host srv) (dec_int (port srv))) of
         Inl e \<Rightarrow> ([], Inl e) | Inr a \<Rightarrow> ([CacheStore srv \<lparr>ae_addr = a, ae_exp = t0 + addrTTL\<rparr>], Inr a))"
    by (auto simp: resolve_def split: option.split)
  show ?thesis
  proof (cases "dns (JoinHostPort (sv_Host srv) (dec_int (port srv)))")
    case (Inl e)
    then show ?thesis using assms(1) by (simp add: finish_resolve_def r cache_inv_def)
  next
    case (Inr a)
    let ?H = "insert (srv, a, td) (cs_dns s)"
    have old: "backed (cs_dns s) v e \<Longrightarrow> backed ?H v e" for v e by (rule backed_mono) auto
    have new: "backed ?H srv \<lparr>ae_addr = a, ae_exp = t0 + addrTTL\<rparr>" using assms(3) by (auto simp: backed_def)
    have "t0 < td + addrTTL" using assms(3) addrTTL_pos by simp
    then show ?thesis using assms(1) old new
      by (fastforce simp: finish_resolve_def r Inr cache_inv_def)
  qed
qed

lemma cache_step_inv: "cache_step s s' \<Longrightarrow> cache_inv s \<Longrightarrow> cache_inv s'"
proof (induction rule: cache_step.induct)
  case (finish srv t0 cached s td dns)
  let ?s = "s\<lparr>cs_flight := cs_flight s - {#(srv, t0, cached)#}\<rparr>"
  have "cache_inv ?s" using finish(4) by (auto simp: cache_inv_def dest: in_diffD)
  moreover have "backed (cs_dns ?s) srv e" if "cached = Some e" for e
    using finish(1,4) that by (auto simp: cache_inv_def)
  ultimately show ?case using finish(2) by (rule resolve_inv)
qed (auto simp: cache_inv_def invalidateAddr_def)

interpretation cache: invariant_system "\<lambda>s. \<exists>t. s = cache_init t" cache_step cache_inv
  by standard (fastforce simp: cache_inv_def cache_init_def, rule cache_step_inv)

text \<open>
  C23. Whatever the interleaving of the goroutines that share a client, an address that a lookup hands
  out was given by DNS for that very server, less than 30 seconds before the lookup began.
\<close>

theorem addresses_are_fresh:
  assumes "cache_step\<^sup>*\<^sup>* (cache_init t) s" "(srv, a, t0) \<in> cs_used s"
  shows "\<exists>td. (srv, a, td) \<in> cs_dns s \<and> t0 < td + 30 * second"
proof -
  have "cache.reachable s" unfolding cache.reachable_def using assms(1) by blast
  from cache.reachable_inv [OF this] assms(2) show ?thesis
    by (auto simp: cache_inv_def addrTTL_def)
qed

definition ex_srv :: Server where "ex_srv = \<lparr>sv_Host = str ''h'', sv_Port = 0\<rparr>"

text \<open>Example: an address is resolved at time 5 and handed out again at time 20.\<close>

lemma ex_cache_run:
  "\<exists>s. cache_step\<^sup>*\<^sup>* (cache_init 5) s \<and> (ex_srv, 9, 20) \<in> cs_used s \<and> cs_dns s = {(ex_srv, 9, 7)}"
proof -
  define s1 where "s1 = (cache_init 5)\<lparr>cs_flight := {#(ex_srv, 5, None)#}\<rparr>"
  define s2 where "s2 = s1\<lparr>cs_clock := 8\<rparr>"
  define s3 where "s3 = finish_resolve ex_srv 5 None (\<lambda>_. Inr 9) 7 (s2\<lparr>cs_flight := {#}\<rparr>)"
  define e where "e = \<lparr>ae_addr = 9, ae_exp = 5 + addrTTL\<rparr>"
  define s4 where "s4 = s3\<lparr>cs_clock := 20\<rparr>"
  define s5 where "s5 = s4\<lparr>cs_flight := {#(ex_srv, 20, Some e)#}\<rparr>"
  define s6 where "s6 = finish_resolve ex_srv 20 (Some e) (\<lambda>_. Inr 4) 20 (s5\<lparr>cs_flight := {#}\<rparr>)"
  have s3': "cs_cache s3 ex_srv = Some e" "cs_flight s3 = {#}" "cs_clock s3 = 8" "cs_dns s3 = {(ex_srv, 9, 7)}"
    by (simp_all add: s3_def finish_resolve_def resolve_def s2_def s1_def cache_init_def e_def)
  have s6': "(ex_srv, 9, 20) \<in> cs_used s6" "cs_dns s6 = {(ex_srv, 9, 7)}"
    by (simp_all add: s6_def finish_resolve_def resolve_def s5_def s4_def s3' e_def addrTTL_def second_def millisecond_def)
  have "cache_step (cache_init 5) s1"
    using lookup [of 5 "cache_init 5" ex_srv] by (simp add: s1_def cache_init_def)
  moreover have "cache_step s1 s2" unfolding s2_def by (rule tick) (simp add: s1_def cache_init_def)
  moreover have "cache_step s2 s3"
    using finish [of ex_srv 5 None s2 7 "\<lambda>_. Inr 9"] by (simp add: s3_def s2_def s1_def cache_init_def)
  moreover have "cache_step s3 s4" unfolding s4_def by (rule tick) (simp add: s3')
  moreover have "cache_step s4 s5"
    using lookup [of 20 s4 ex_srv] by (simp add: s5_def s4_def s3')
  moreover have "cache_step s5 s6"
    using finish [of ex_srv 20 "Some e" s5 20 "\<lambda>_. Inr 4"] by (simp add: s6_def s5_def s4_def)
  ultimately have "cache_step\<^sup>*\<^sup>* (cache_init 5) s6"
    by (meson converse_rtranclp_into_rtranclp rtranclp.rtrancl_refl)
  with s6' show ?thesis by blast
qed

theorem addresses_are_fresh_witness:
  "\<exists>s. cache_step\<^sup>*\<^sup>* (cache_init 5) s \<and> (ex_srv, 9, 20) \<in> cs_used s
     \<and> (\<exists>td. (ex_srv, 9, td) \<in> cs_dns s \<and> 20 < td + 30 * second)"
proof -
  obtain s where s: "cache_step\<^sup>*\<^sup>* (cache_init 5) s" "(ex_srv, 9, 20) \<in> cs_used s"
    using ex_cache_run by blast
  from addresses_are_fresh [OF s] s show ?thesis by blast
qed

end
