(* ===== verification/Go_Net.thy ===== *)
theory Go_Net
  imports Go_Strings
begin

text \<open>
  The functions of Go's \<^verbatim>\<open>net\<close> and \<^verbatim>\<open>strconv\<close> packages the command uses on addresses:
  \<^verbatim>\<open>SplitHostPort\<close>, \<^verbatim>\<open>Atoi\<close>, and \<^verbatim>\<open>ParseIP\<close> with \<^verbatim>\<open>IsLoopback\<close>.
\<close>

section \<open>Host and port\<close>

text \<open>\<open>None\<close> is any of the errors; \<open>i\<close> is the position of the last colon, \<open>e\<close> of the first \<open>]\<close>.\<close>

definition SplitHostPort :: "bytes \<Rightarrow> (bytes \<times> bytes) option" where
  "SplitHostPort hp =
     (if 0x3a \<notin> set hp then None
      else let p = rev (takeWhile (\<lambda>c. c \<noteq> 0x3a) (rev hp));
               i = length hp - length p - 1
           in if hd hp = 0x5b
              then let e = length (takeWhile (\<lambda>c. c \<noteq> 0x5d) hp)
                   in if e + 1 \<noteq> i \<or> 0x5b \<in> set (drop 1 hp) \<or> 0x5d \<in> set (drop (e + 1) hp) then None
                      else Some (take (e - 1) (drop 1 hp), p)
              else if 0x3a \<in> set (take i hp) \<or> 0x5b \<in> set hp \<or> 0x5d \<in> set hp then None
              else Some (take i hp, p))"

definition Atoi :: "bytes \<Rightarrow> int option" where
  "Atoi s =
     (let neg = (s \<noteq> [] \<and> hd s = 0x2d);
          ds = (if s \<noteq> [] \<and> hd s \<in> {0x2b, 0x2d} then tl s else s);
          v = (if neg then - int (digits_val ds) else int (digits_val ds))
      in if ds = [] \<or> \<not> list_all isDigit ds \<or> v < - (2 ^ 63) \<or> 2 ^ 63 \<le> v then None else Some v)"

section \<open>Addresses\<close>

text \<open>Four decimal fields without leading zeros.\<close>

definition v4_field :: "bytes \<Rightarrow> byte option" where
  "v4_field s =
     (if s = [] \<or> length s > 3 \<or> \<not> list_all isDigit s \<or> (length s > 1 \<and> hd s = 0x30) \<or> digits_val s > 255
      then None else Some (of_nat (digits_val s)))"

definition parse_v4 :: "bytes \<Rightarrow> bytes option" where
  "parse_v4 s =
     (let fs = map v4_field (go_Split s 0x2e)
      in if length fs = 4 \<and> None \<notin> set fs then Some (map the fs) else None)"

definition hex_val :: "byte \<Rightarrow> nat option" where
  "hex_val c =
     (if isDigit c then Some (unat c - 48)
      else if 0x61 \<le> c \<and> c \<le> 0x66 then Some (unat c - 87)
      else if 0x41 \<le> c \<and> c \<le> 0x46 then Some (unat c - 55)
      else None)"

text \<open>
  The loop of the IPv6 parser over at most eight fields: \<open>ip\<close> the bytes so far, \<open>ell\<close> how many
  there were at the double colon.  A field has one to four digits; an IPv4 tail is taken where
  the code takes one.
\<close>

fun v6_loop :: "nat \<Rightarrow> bytes \<Rightarrow> nat option \<Rightarrow> bytes \<Rightarrow> (bytes \<times> nat option) option" where
  "v6_loop 0 ip ell s = (if s = [] then Some (ip, ell) else None)"
| "v6_loop (Suc k) ip ell s =
     (let ds = takeWhile (\<lambda>c. hex_val c \<noteq> None) s;
          r = drop (length ds) s;
          v = foldl (\<lambda>n c. 16 * n + the (hex_val c)) 0 ds;
          ip' = ip @ [of_nat (v div 256), of_nat (v mod 256)]
      in if ds = [] \<or> length ds > 4 then None
         else if r \<noteq> [] \<and> hd r = 0x2e
         then (if (ell = None \<and> length ip \<noteq> 12) \<or> length ip + 4 > 16 then None
               else map_option (\<lambda>q. (ip @ q, ell)) (parse_v4 s))
         else if r = [] then Some (ip', ell)
         else if hd r \<noteq> 0x3a \<or> length r = 1 then None
         else if r ! 1 = 0x3a
         then (if ell \<noteq> None then None
               else if length r = 2 then Some (ip', Some (length ip'))
               else v6_loop k ip' (Some (length ip')) (drop 2 r))
         else v6_loop k ip' ell (drop 1 r))"

definition parse_v6 :: "bytes \<Rightarrow> bytes option" where
  "parse_v6 s =
     (let start = (take 2 s = [0x3a, 0x3a]) in
      if start \<and> length s = 2 then Some (replicate 16 0)
      else case v6_loop 8 [] (if start then Some 0 else None) (if start then drop 2 s else s) of
          None \<Rightarrow> None
        | Some (ip, None) \<Rightarrow> if length ip = 16 then Some ip else None
        | Some (ip, Some e) \<Rightarrow>
            if length ip \<ge> 16 then None
            else Some (take e ip @ replicate (16 - length ip) 0 @ drop e ip))"

text \<open>The first dot or colon decides; a zone is not an IP address here.\<close>

definition ParseIP :: "bytes \<Rightarrow> bytes option" where
  "ParseIP s =
     (if 0x25 \<in> set s then None
      else case find (\<lambda>c. c = 0x2e \<or> c = 0x3a) s of
          None \<Rightarrow> None
        | Some c \<Rightarrow> if c = 0x2e then map_option (\<lambda>q. replicate 10 0 @ [0xff, 0xff] @ q) (parse_v4 s)
                    else parse_v6 s)"

definition IsLoopback :: "bytes \<Rightarrow> bool" where
  "IsLoopback ip \<longleftrightarrow>
     (if take 12 ip = replicate 10 0 @ [0xff, 0xff] then ip ! 12 = 127
      else ip = replicate 15 0 @ [1])"

lemma ParseIP_examples:
  "ParseIP [0x31, 0x32, 0x37, 0x2e, 0x30, 0x2e, 0x30, 0x2e, 0x31] = Some (replicate 10 0 @ [0xff, 0xff, 127, 0, 0, 1])"
  "ParseIP [0x3a, 0x3a, 0x31] = Some (replicate 15 0 @ [1])"
  "ParseIP [0x31, 0x3a, 0x3a, 0x32, 0x3a, 0x3a, 0x33] = None"
  by code_simp+

end
