(* ===== verification/Config.thy ===== *)
theory Config
  imports Go_Net Client Identity
begin

text \<open>
  The command's input, \<^verbatim>\<open>src/cmd/gdcc/main.go\<close>: the capped reader of messages, the list of
  servers, and the environment variables that stand in for flags.
\<close>

section \<open>Messages\<close>

definition maxStdin :: nat where "maxStdin = 16 * 2 ^ 20"

text \<open>A reader: what it gives until it ends, and the error it ends with, \<open>None\<close> for the end of input.\<close>

record reader =
  rd_data :: bytes
  rd_err :: "nat option"

datatype read_err = ErrTooLarge | ErrRead nat

definition readCapped :: "reader \<Rightarrow> nat \<Rightarrow> read_err + bytes" where
  "readCapped r cap =
     (let b = take (cap + 1) (rd_data r) in
      if length (rd_data r) \<le> cap \<and> rd_err r \<noteq> None then Inl (ErrRead (the (rd_err r)))
      else if length b > cap then Inl ErrTooLarge
      else Inr b)"

section \<open>Servers\<close>

fun parse_items :: "int \<Rightarrow> bytes list \<Rightarrow> Server list" where
  "parse_items defPort [] = []"
| "parse_items defPort (i # is) =
     (let item = go_TrimSpace i in
      if item = [] then parse_items defPort is
      else let (host, p) =
             (case SplitHostPort item of
                Some (h, p) \<Rightarrow> (h, case Atoi p of Some n \<Rightarrow> n | None \<Rightarrow> defPort)
              | None \<Rightarrow>
                  if hd item = 0x5b \<and> last item = 0x5d then (butlast (tl item), defPort)
                  else (item, defPort))
           in \<lparr>sv_Host = host, sv_Port = p\<rparr> # parse_items defPort is)"

definition parseServers :: "bytes \<Rightarrow> int \<Rightarrow> Server list" where
  "parseServers spec defPort =
     (let spec = go_TrimSpace spec in
      if spec = [] then [] else parse_items defPort (go_Split spec 0x2c))"

section \<open>Environment\<close>

definition envUintOr :: "environ \<Rightarrow> string \<Rightarrow> u64 \<Rightarrow> u64" where
  "envUintOr env key d =
     (if env key = [] then d
      else case parse_uint32 (env key) of Some n \<Rightarrow> ucast n | None \<Rightarrow> d)"

definition envUint :: "environ \<Rightarrow> string \<Rightarrow> u64" where
  "envUint env key =
     (if env key = [] then 0
      else case parse_uint32 (env key) of Some n \<Rightarrow> ucast n | None \<Rightarrow> 0)"

text \<open>\<open>parse\<close> is \<^verbatim>\<open>time.ParseDuration\<close>.\<close>

definition envDur :: "(bytes \<Rightarrow> int option) \<Rightarrow> environ \<Rightarrow> string \<Rightarrow> int \<Rightarrow> int" where
  "envDur parse env key d =
     (if env key = [] then d else case parse (env key) of Some t \<Rightarrow> t | None \<Rightarrow> d)"

definition envBool :: "environ \<Rightarrow> string \<Rightarrow> bool" where
  "envBool env key \<longleftrightarrow> map toLower (env key) \<in> set (map str [''1'', ''true'', ''yes'', ''on''])"

definition envStr :: "environ \<Rightarrow> string \<Rightarrow> bytes \<Rightarrow> bytes" where
  "envStr env key d = (if env key = [] then d else env key)"

section \<open>Facts\<close>

lemma readCapped_exact:
  "readCapped \<lparr>rd_data = d, rd_err = None\<rparr> cap = (if length d \<le> cap then Inr d else Inl ErrTooLarge)"
  by (simp add: readCapped_def Let_def)

lemma readCapped_bound: "readCapped r cap = Inr b \<Longrightarrow> b = rd_data r \<and> length b \<le> cap \<and> rd_err r = None"
  by (auto simp: readCapped_def Let_def split: if_splits)

end
