(* ===== verification/Metrics.thy ===== *)
theory Metrics
  imports Client Go_Text
begin

text \<open>
  The counters and the latency histogram of the server, \<^verbatim>\<open>src/cmd/gdcc/metrics.go\<close>, and the text
  they are shown as.  A latency is a whole number of nanoseconds, as \<^verbatim>\<open>time.Since\<close> measures
  it; the code turns it into a float of seconds, which is exact enough to fall into the same
  buckets, and adds up the floats, where the model has the exact sum.
\<close>

record metrics =
  mt_check :: u64
  mt_report :: u64
  mt_error :: u64
  mt_reject :: u64
  mt_accept :: u64
  mt_unknown :: u64
  mt_bcounts :: "u64 list"
  mt_sum :: int
  mt_count :: u64

text \<open>The upper bounds of the buckets with their labels.\<close>

definition buckets :: "(int \<times> bytes) list" where
  "buckets =
     [(5 * millisecond, str ''0.005''), (10 * millisecond, str ''0.01''), (25 * millisecond, str ''0.025''),
      (50 * millisecond, str ''0.05''), (100 * millisecond, str ''0.1''), (250 * millisecond, str ''0.25''),
      (500 * millisecond, str ''0.5''), (second, str ''1''), (2500 * millisecond, str ''2.5''),
      (5 * second, str ''5''), (10 * second, str ''10'')]"

definition newMetrics :: metrics where
  "newMetrics = \<lparr>mt_check = 0, mt_report = 0, mt_error = 0, mt_reject = 0, mt_accept = 0, mt_unknown = 0,
     mt_bcounts = replicate 11 0, mt_sum = 0, mt_count = 0\<rparr>"

definition inc_check :: "metrics \<Rightarrow> metrics" where
  "inc_check m = m\<lparr>mt_check := mt_check m + 1\<rparr>"

definition inc_report :: "metrics \<Rightarrow> metrics" where
  "inc_report m = m\<lparr>mt_report := mt_report m + 1\<rparr>"

definition inc_error :: "metrics \<Rightarrow> metrics" where
  "inc_error m = m\<lparr>mt_error := mt_error m + 1\<rparr>"

definition verdictInc :: "bytes \<Rightarrow> metrics \<Rightarrow> metrics" where
  "verdictInc action m =
     (if action = str ''reject'' then m\<lparr>mt_reject := mt_reject m + 1\<rparr>
      else if action = str ''accept'' then m\<lparr>mt_accept := mt_accept m + 1\<rparr>
      else m\<lparr>mt_unknown := mt_unknown m + 1\<rparr>)"

text \<open>The loop over the buckets.\<close>

fun count_buckets :: "int \<Rightarrow> (int \<times> bytes) list \<Rightarrow> u64 list \<Rightarrow> u64 list" where
  "count_buckets t ((b, l) # bs) (c # cs) = (if t \<le> b then c + 1 else c) # count_buckets t bs cs"
| "count_buckets t bs cs = cs"

definition observe :: "int \<Rightarrow> metrics \<Rightarrow> metrics" where
  "observe t m = m\<lparr>mt_bcounts := count_buckets t buckets (mt_bcounts m), mt_sum := mt_sum m + t,
     mt_count := mt_count m + 1\<rparr>"

section \<open>The exposition\<close>

definition num64 :: "u64 \<Rightarrow> bytes" where
  "num64 w = dec (unat w)"

definition counter_text :: "bytes \<Rightarrow> bytes \<Rightarrow> u64 \<Rightarrow> bytes" where
  "counter_text name help v =
     str ''# HELP '' @ name @ str '' '' @ help @ [0x0a] @ str ''# TYPE '' @ name @ str '' counter'' @ [0x0a]
     @ name @ str '' '' @ num64 v @ [0x0a]"

definition verdict_text :: "bytes \<Rightarrow> u64 \<Rightarrow> bytes" where
  "verdict_text v n = str ''gdcc_verdict_total{verdict='' @ 0x22 # v @ 0x22 # str ''} '' @ num64 n @ [0x0a]"

definition bucket_text :: "bytes \<Rightarrow> u64 \<Rightarrow> bytes" where
  "bucket_text le n = str ''gdcc_latency_seconds_bucket{le='' @ 0x22 # le @ 0x22 # str ''} '' @ num64 n @ [0x0a]"

text \<open>\<open>fmt\<close> is the shortest decimal form of the sum in seconds, \<^verbatim>\<open>strconv.FormatFloat\<close>.\<close>

definition metrics_ServeHTTP :: "(int \<Rightarrow> bytes) \<Rightarrow> metrics \<Rightarrow> bytes" where
  "metrics_ServeHTTP fmt m =
     counter_text (str ''gdcc_check_total'') (str ''Total /check requests.'') (mt_check m)
     @ counter_text (str ''gdcc_report_total'') (str ''Total /report requests.'') (mt_report m)
     @ counter_text (str ''gdcc_error_total'') (str ''Total backend errors.'') (mt_error m)
     @ str ''# HELP gdcc_verdict_total Verdicts by action.'' @ [0x0a]
     @ str ''# TYPE gdcc_verdict_total counter'' @ [0x0a]
     @ verdict_text (str ''reject'') (mt_reject m)
     @ verdict_text (str ''accept'') (mt_accept m)
     @ verdict_text (str ''unknown'') (mt_unknown m)
     @ str ''# HELP gdcc_latency_seconds Check/report latency.'' @ [0x0a]
     @ str ''# TYPE gdcc_latency_seconds histogram'' @ [0x0a]
     @ concat (map (\<lambda>((b, l), n). bucket_text l n) (zip buckets (mt_bcounts m)))
     @ bucket_text (str ''+Inf'') (mt_count m)
     @ str ''gdcc_latency_seconds_sum '' @ fmt (mt_sum m) @ [0x0a]
     @ str ''gdcc_latency_seconds_count '' @ num64 (mt_count m) @ [0x0a]"

section \<open>The histogram\<close>

text \<open>How many of the latencies do not exceed a bound.\<close>

definition at_most :: "int list \<Rightarrow> int \<Rightarrow> nat" where
  "at_most ts b = length (filter (\<lambda>t. t \<le> b) ts)"

definition histogram_of :: "int list \<Rightarrow> metrics \<Rightarrow> bool" where
  "histogram_of ts m \<longleftrightarrow>
     mt_bcounts m = map (\<lambda>(b, l). of_nat (at_most ts b)) buckets
     \<and> mt_count m = of_nat (length ts) \<and> mt_sum m = sum_list ts"

lemma count_buckets_map:
  "count_buckets t bs (map (\<lambda>(b, l). of_nat (at_most ts b)) bs) = map (\<lambda>(b, l). of_nat (at_most (ts @ [t]) b)) bs"
  by (induction bs) (auto simp: at_most_def)

lemma observe_histogram: "histogram_of ts m \<Longrightarrow> histogram_of (ts @ [t]) (observe t m)"
  by (simp add: histogram_of_def observe_def count_buckets_map)

lemma histogram_new: "histogram_of [] newMetrics"
  by (simp add: histogram_of_def newMetrics_def buckets_def at_most_def eval_nat_numeral)

lemma histogram_inc [simp]:
  "histogram_of ts (inc_check m) = histogram_of ts m" "histogram_of ts (inc_report m) = histogram_of ts m"
  "histogram_of ts (inc_error m) = histogram_of ts m" "histogram_of ts (verdictInc a m) = histogram_of ts m"
  by (simp_all add: histogram_of_def inc_check_def inc_report_def inc_error_def verdictInc_def)

end
