(* ===== verification/Serve.thy ===== *)
theory Serve
  imports Config Metrics Message_Props Transition "HOL-Library.Multiset"
begin

text \<open>
  The HTTP server, \<^verbatim>\<open>src/cmd/gdcc/serve.go\<close>: its start-up checks, the handlers, and the wrappers
  around them -- token, limit on requests in flight, access log, latency -- as a state machine
  whose steps are what a request does between two points at which others can come in.
\<close>

section \<open>Configuration and start\<close>

record serveConfig =
  sc_listen :: bytes
  sc_unix :: bytes
  sc_token :: bytes
  sc_maxConc :: int
  sc_logStdout :: bool
  sc_verbose :: bool

definition isLoopbackListen :: "bytes \<Rightarrow> bool" where
  "isLoopbackListen addr =
     (let host = (case SplitHostPort addr of Some (h, p) \<Rightarrow> h | None \<Rightarrow> addr) in
      if host = [] then False
      else if host = str ''localhost'' then True
      else case ParseIP host of None \<Rightarrow> False | Some ip \<Rightarrow> IsLoopback ip)"

text \<open>True is the absence of an error.\<close>

definition safetyCheck :: "serveConfig \<Rightarrow> bool" where
  "safetyCheck cfg =
     (if sc_token cfg \<noteq> [] \<or> sc_listen cfg = [] then True
      else if \<not> isLoopbackListen (sc_listen cfg) then False
      else True)"

definition slots :: "serveConfig \<Rightarrow> nat" where
  "slots cfg = (if sc_maxConc cfg < 1 then 8 else nat (sc_maxConc cfg))"

record http_timeouts =
  ht_read_header :: int
  ht_read :: int
  ht_write :: int
  ht_idle :: int

definition server_timeouts :: "Client \<Rightarrow> http_timeouts" where
  "server_timeouts c = \<lparr>ht_read_header = 10 * second, ht_read = 30 * second,
     ht_write = cl_Timeout c + 15 * second, ht_idle = 60 * second\<rparr>"

text \<open>
  Start and end of the process: \<open>tcp\<close> and \<open>sock\<close> say whether listening failed, \<open>ends\<close> is how the
  first \<^verbatim>\<open>Serve\<close> returned, and the result is the exit status.
\<close>

datatype serve_end = ServeNil | ServeClosed | ServeFailed nat

definition runServe :: "serveConfig \<Rightarrow> bool \<Rightarrow> bool \<Rightarrow> serve_end \<Rightarrow> int" where
  "runServe cfg tcp sock ends =
     (if \<not> safetyCheck cfg then 2
      else if sc_listen cfg \<noteq> [] \<and> tcp then 1
      else if sc_unix cfg \<noteq> [] \<and> sock then 1
      else if sc_listen cfg = [] \<and> sc_unix cfg = [] then 2
      else case ends of ServeNil \<Rightarrow> 0 | ServeClosed \<Rightarrow> 0 | ServeFailed n \<Rightarrow> 1)"

section \<open>Requests and responses\<close>

text \<open>A header that is absent reads as the empty string.\<close>

record http_req =
  hr_method :: bytes
  hr_path :: bytes
  hr_token :: bytes
  hr_authorization :: bytes
  hr_body :: reader

record countJSON =
  cj_label :: bytes
  cj_cur :: u32
  cj_prev :: u32

record checkResponse =
  cr_action :: bytes
  cr_bulk :: "int option"
  cr_counts :: "countJSON list"

datatype payload =
    Plain bytes
  | CheckJSON checkResponse
  | ReportedJSON bool
  | MetricsText bytes
  | ErrorJSON bytes

record response =
  rs_status :: nat
  rs_body :: payload

definition writeJSON :: "nat \<Rightarrow> payload \<Rightarrow> response" where
  "writeJSON status v = \<lparr>rs_status = status, rs_body = v\<rparr>"

definition http_Error :: "bytes \<Rightarrow> nat \<Rightarrow> response" where
  "http_Error msg status = \<lparr>rs_status = status, rs_body = Plain msg\<rparr>"

definition presented :: "http_req \<Rightarrow> bytes" where
  "presented r =
     (if hr_token r = [] \<and> take 7 (hr_authorization r) = str ''Bearer '' then drop 7 (hr_authorization r)
      else hr_token r)"

definition auth :: "serveConfig \<Rightarrow> http_req \<Rightarrow> response option" where
  "auth cfg r =
     (if sc_token cfg = [] then None
      else if presented r \<noteq> sc_token cfg then Some (http_Error (str ''unauthorized'') 401)
      else None)"

definition readBody :: "http_req \<Rightarrow> response + bytes" where
  "readBody r =
     (if hr_method r \<noteq> str ''POST'' then Inl (http_Error (str ''POST required'') 405)
      else case readCapped (hr_body r) maxStdin of
          Inl ErrTooLarge \<Rightarrow> Inl (http_Error (str ''message exceeds the maximum size'') 413)
        | Inl (ErrRead e) \<Rightarrow> Inl (http_Error (str ''read body'') 400)
        | Inr msg \<Rightarrow> Inr msg)"

section \<open>Handlers\<close>

text \<open>What follows the call of the client, for each of the two handlers.\<close>

definition check_answer :: "client_err + Result \<Rightarrow> metrics \<Rightarrow> response \<times> metrics" where
  "check_answer r m =
     (case r of
        Inl e \<Rightarrow> (writeJSON 502 (CheckJSON \<lparr>cr_action = str ''unknown'', cr_bulk = None, cr_counts = []\<rparr>), inc_error m)
      | Inr res \<Rightarrow>
          let v = Verdict_of res in
          (writeJSON 200 (CheckJSON \<lparr>cr_action = Action_String (v_Action v), cr_bulk = v_Bulk v,
             cr_counts = map (\<lambda>ck. \<lparr>cj_label = cc_Label ck, cj_cur = cc_Cur ck, cj_prev = cc_Prev ck\<rparr>) res\<rparr>),
           verdictInc (Action_String (v_Action v)) m))"

definition report_answer :: "client_err + unit \<Rightarrow> metrics \<Rightarrow> response \<times> metrics" where
  "report_answer r m =
     (case r of
        Inl e \<Rightarrow> (writeJSON 502 (ReportedJSON False), inc_error m)
      | Inr u \<Rightarrow> (writeJSON 200 (ReportedJSON True), m))"

text \<open>The whole handlers, when nothing comes in between.\<close>

definition checkHandler ::
  "fuz2Tbl list \<Rightarrow> Client \<Rightarrow> metrics \<Rightarrow> http_req \<Rightarrow> call_env \<Rightarrow> Client \<times> metrics \<times> response run" where
  "checkHandler tbls c m r env =
     (case readBody r of
        Inl resp \<Rightarrow> (c, m, Returned resp)
      | Inr msg \<Rightarrow>
          let m = inc_check m in
          (case Check tbls c msg env of
             (c, tried, Pending) \<Rightarrow> (c, m, Pending)
           | (c, tried, Panicked) \<Rightarrow> (c, m, Panicked)
           | (c, tried, Returned x) \<Rightarrow> let (resp, m) = check_answer x m in (c, m, Returned resp)))"

definition reportHandler ::
  "fuz2Tbl list \<Rightarrow> Client \<Rightarrow> metrics \<Rightarrow> http_req \<Rightarrow> call_env \<Rightarrow> Client \<times> metrics \<times> response run" where
  "reportHandler tbls c m r env =
     (case readBody r of
        Inl resp \<Rightarrow> (c, m, Returned resp)
      | Inr msg \<Rightarrow>
          let m = inc_report m in
          (case Report tbls c msg env of
             (c, tried, Pending) \<Rightarrow> (c, m, Pending)
           | (c, tried, Panicked) \<Rightarrow> (c, m, Panicked)
           | (c, tried, Returned x) \<Rightarrow> let (resp, m) = report_answer x m in (c, m, Returned resp)))"

section \<open>The server as a state machine\<close>

text \<open>
  A request that passed token and gate is in flight: reading its body, or waiting for the client.
  Ghosts: the latencies observed, how many reports went through, how many handlers panicked.
\<close>

datatype route = CheckRoute | ReportRoute
datatype stage = Reading | Calling

record server =
  ss_sem :: nat
  ss_m :: metrics
  ss_log :: "(bytes \<times> nat) list"
  ss_flight :: "(route \<times> http_req \<times> stage) multiset"
  ss_lat :: "int list"
  ss_reported :: nat
  ss_panics :: nat

definition server_init :: server where
  "server_init = \<lparr>ss_sem = 0, ss_m = newMetrics, ss_log = [], ss_flight = {#}, ss_lat = [], ss_reported = 0, ss_panics = 0\<rparr>"

text \<open>
  The multiplexer on a clean path, then \<^verbatim>\<open>auth\<close>, then \<^verbatim>\<open>gate\<close>: a response at once, or a slot.
  \<open>fmt\<close> formats the sum of latencies in the metrics.
\<close>

definition route_of :: "bytes \<Rightarrow> route option" where
  "route_of path =
     (if path = str ''/check'' then Some CheckRoute
      else if path = str ''/report'' then Some ReportRoute
      else None)"

definition enter :: "(int \<Rightarrow> bytes) \<Rightarrow> serveConfig \<Rightarrow> http_req \<Rightarrow> server \<Rightarrow> response + server" where
  "enter fmt cfg r s =
     (if hr_path r = str ''/healthz'' then Inl \<lparr>rs_status = 200, rs_body = Plain (str ''ok'' @ [0x0a])\<rparr>
      else if hr_path r = str ''/metrics'' then Inl \<lparr>rs_status = 200, rs_body = MetricsText (metrics_ServeHTTP fmt (ss_m s))\<rparr>
      else case route_of (hr_path r) of
          None \<Rightarrow> Inl (http_Error (str ''404 page not found'') 404)
        | Some rt \<Rightarrow>
            (case auth cfg r of
               Some resp \<Rightarrow> Inl resp
             | None \<Rightarrow>
                 if ss_sem s < slots cfg
                 then Inr (s\<lparr>ss_sem := ss_sem s + 1, ss_flight := add_mset (rt, r, Reading) (ss_flight s)\<rparr>)
                 else Inl (writeJSON 503 (ErrorJSON (str ''busy'')))))"

text \<open>\<^verbatim>\<open>instrument\<close> and \<^verbatim>\<open>access\<close> after the handler has returned; then the gate frees the slot.\<close>

definition access_log :: "serveConfig \<Rightarrow> route \<Rightarrow> http_req \<Rightarrow> response \<Rightarrow> server \<Rightarrow> server" where
  "access_log cfg rt r resp s =
     (if rt = CheckRoute \<and> \<not> sc_verbose cfg then s
      else s\<lparr>ss_log := ss_log s @ [(hr_path r, rs_status resp)]\<rparr>)"

definition free_slot :: "route \<times> http_req \<times> stage \<Rightarrow> server \<Rightarrow> server" where
  "free_slot x s = s\<lparr>ss_sem := ss_sem s - 1, ss_flight := ss_flight s - {#x#}\<rparr>"

definition instrument :: "int \<Rightarrow> server \<Rightarrow> server" where
  "instrument t s = s\<lparr>ss_m := observe t (ss_m s), ss_lat := ss_lat s @ [t]\<rparr>"

definition leave :: "serveConfig \<Rightarrow> route \<Rightarrow> http_req \<Rightarrow> stage \<Rightarrow> response \<Rightarrow> int \<Rightarrow> server \<Rightarrow> server" where
  "leave cfg rt r st resp t s = free_slot (rt, r, st) (access_log cfg rt r resp (instrument t s))"

inductive serve_step :: "(int \<Rightarrow> bytes) \<Rightarrow> serveConfig \<Rightarrow> server \<Rightarrow> server \<Rightarrow> bool"
  for fmt :: "int \<Rightarrow> bytes" and cfg :: serveConfig where
  refused: "enter fmt cfg r s = Inl resp \<Longrightarrow> serve_step fmt cfg s s"
| entered: "enter fmt cfg r s = Inr s' \<Longrightarrow> serve_step fmt cfg s s'"
| bad_body: "(rt, r, Reading) \<in># ss_flight s \<Longrightarrow> readBody r = Inl resp \<Longrightarrow>
     serve_step fmt cfg s (leave cfg rt r Reading resp t s)"
| body_read: "(rt, r, Reading) \<in># ss_flight s \<Longrightarrow> readBody r = Inr msg \<Longrightarrow>
     serve_step fmt cfg s (s\<lparr>ss_m := (if rt = CheckRoute then inc_check (ss_m s) else inc_report (ss_m s)),
        ss_flight := add_mset (rt, r, Calling) (ss_flight s - {#(rt, r, Reading)#})\<rparr>)"
| checked: "(CheckRoute, r, Calling) \<in># ss_flight s \<Longrightarrow> check_answer x (ss_m s) = (resp, m) \<Longrightarrow>
     serve_step fmt cfg s (leave cfg CheckRoute r Calling resp t (s\<lparr>ss_m := m\<rparr>))"
| reported: "(ReportRoute, r, Calling) \<in># ss_flight s \<Longrightarrow> report_answer y (ss_m s) = (resp, m) \<Longrightarrow>
     serve_step fmt cfg s (leave cfg ReportRoute r Calling resp t
        (s\<lparr>ss_m := m, ss_reported := (if y = Inr () then ss_reported s + 1 else ss_reported s)\<rparr>))"
| panicked: "(rt, r, Calling) \<in># ss_flight s \<Longrightarrow>
     serve_step fmt cfg s (free_slot (rt, r, Calling) (s\<lparr>ss_panics := ss_panics s + 1\<rparr>))"

section \<open>Invariants\<close>

definition admitted :: "serveConfig \<Rightarrow> http_req \<Rightarrow> bool" where
  "admitted cfg r \<longleftrightarrow> sc_token cfg = [] \<or> presented r = sc_token cfg"

definition gate_inv :: "serveConfig \<Rightarrow> server \<Rightarrow> bool" where
  "gate_inv cfg s \<longleftrightarrow> ss_sem s = size (ss_flight s) \<and> ss_sem s \<le> slots cfg
     \<and> (\<forall>(rt, r, st) \<in># ss_flight s. admitted cfg r)"

text \<open>Every request counted is still waiting, or its outcome has been counted, or its handler panicked.\<close>

definition waiting :: "server \<Rightarrow> nat" where
  "waiting s = size (filter_mset (\<lambda>(rt, r, st). st = Calling) (ss_flight s))"

definition metrics_inv :: "server \<Rightarrow> bool" where
  "metrics_inv s \<longleftrightarrow> histogram_of (ss_lat s) (ss_m s)
     \<and> mt_check (ss_m s) + mt_report (ss_m s)
       = mt_reject (ss_m s) + mt_accept (ss_m s) + mt_unknown (ss_m s) + mt_error (ss_m s)
         + of_nat (ss_reported s + waiting s + ss_panics s)"

lemma leave_simps [simp]:
  "ss_sem (leave cfg rt r st resp t s) = ss_sem s - 1"
  "ss_flight (leave cfg rt r st resp t s) = ss_flight s - {#(rt, r, st)#}"
  "ss_m (leave cfg rt r st resp t s) = observe t (ss_m s)"
  "ss_lat (leave cfg rt r st resp t s) = ss_lat s @ [t]"
  "ss_reported (leave cfg rt r st resp t s) = ss_reported s"
  "ss_panics (leave cfg rt r st resp t s) = ss_panics s"
  by (simp_all add: leave_def free_slot_def access_log_def instrument_def)

lemma enter_Inr:
  assumes "enter fmt cfg r s = Inr s'"
  obtains rt where "auth cfg r = None" "ss_sem s < slots cfg" "route_of (hr_path r) = Some rt"
    "s' = s\<lparr>ss_sem := ss_sem s + 1, ss_flight := add_mset (rt, r, Reading) (ss_flight s)\<rparr>"
  using assms by (auto simp: enter_def split: if_splits option.splits)

lemma gate_leave:
  assumes "gate_inv cfg s" "x \<in># ss_flight s" "ss_sem s' = ss_sem s - 1" "ss_flight s' = ss_flight s - {#x#}"
  shows "gate_inv cfg s'"
proof -
  obtain F where "ss_flight s = add_mset x F" using multi_member_split [OF assms(2)] by blast
  then show ?thesis using assms by (auto simp: gate_inv_def)
qed

lemma serve_step_gate: "serve_step fmt cfg s s' \<Longrightarrow> gate_inv cfg s \<Longrightarrow> gate_inv cfg s'"
proof (induction rule: serve_step.induct)
  case (entered r s s')
  then show ?case
    by (elim enter_Inr) (auto simp: gate_inv_def admitted_def auth_def split: if_splits)
next
  case (bad_body rt r s resp t)
  show ?case by (rule gate_leave [OF bad_body(3,1)]) simp_all
next
  case (body_read rt r s msg)
  obtain F where "ss_flight s = add_mset (rt, r, Reading) F" using multi_member_split [OF body_read(1)] by blast
  then show ?case using body_read(3) by (auto simp: gate_inv_def)
next
  case (checked r s x resp m t)
  show ?case by (rule gate_leave [OF checked(3,1)]) simp_all
next
  case (reported r s y resp m t)
  show ?case by (rule gate_leave [OF reported(3,1)]) simp_all
next
  case (panicked rt r s)
  show ?case by (rule gate_leave [OF panicked(2,1)]) (simp_all add: free_slot_def)
qed

lemma Action_String_cases:
  "Action_String a = str ''reject'' \<or> Action_String a = str ''accept'' \<or> Action_String a = str ''unknown''"
  by (cases a) (simp_all add: Action_String_def)

lemma observe_counters [simp]:
  "mt_check (observe t m) = mt_check m" "mt_report (observe t m) = mt_report m"
  "mt_error (observe t m) = mt_error m" "mt_reject (observe t m) = mt_reject m"
  "mt_accept (observe t m) = mt_accept m" "mt_unknown (observe t m) = mt_unknown m"
  by (simp_all add: observe_def)

text \<open>All outcomes together, and what one outcome adds.\<close>

definition outcomes :: "metrics \<Rightarrow> u64" where
  "outcomes m = mt_reject m + mt_accept m + mt_unknown m + mt_error m"

lemma outcomes_simps [simp]:
  "outcomes (inc_check m) = outcomes m" "outcomes (inc_report m) = outcomes m"
  "outcomes (inc_error m) = outcomes m + 1" "outcomes (verdictInc a m) = outcomes m + 1"
  "outcomes (observe t m) = outcomes m"
  by (simp_all add: outcomes_def inc_check_def inc_report_def inc_error_def verdictInc_def)

definition requests :: "metrics \<Rightarrow> u64" where
  "requests m = mt_check m + mt_report m"

lemma requests_simps [simp]:
  "requests (inc_check m) = requests m + 1" "requests (inc_report m) = requests m + 1"
  "requests (inc_error m) = requests m" "requests (verdictInc a m) = requests m"
  "requests (observe t m) = requests m"
  by (simp_all add: requests_def inc_check_def inc_report_def inc_error_def verdictInc_def)

lemma metrics_inv_iff:
  "metrics_inv s \<longleftrightarrow> histogram_of (ss_lat s) (ss_m s)
     \<and> requests (ss_m s) = outcomes (ss_m s) + of_nat (ss_reported s + waiting s + ss_panics s)"
  by (simp add: metrics_inv_def outcomes_def requests_def)

lemma check_answer_counts:
  assumes "check_answer x m = (resp, m')"
  shows "outcomes m' = outcomes m + 1" "requests m' = requests m" "histogram_of ts m' = histogram_of ts m"
  using assms by (auto simp: check_answer_def Let_def split: sum.splits)

lemma report_answer_counts:
  assumes "report_answer y m = (resp, m')"
  shows "outcomes m' = outcomes m + (if y = Inr () then 0 else 1)" "requests m' = requests m"
    "histogram_of ts m' = histogram_of ts m"
  using assms by (auto simp: report_answer_def split: sum.splits)

lemma serve_step_metrics: "serve_step fmt cfg s s' \<Longrightarrow> metrics_inv s \<Longrightarrow> metrics_inv s'"
proof (induction rule: serve_step.induct)
  case (entered r s s')
  then show ?case by (elim enter_Inr) (auto simp: metrics_inv_iff waiting_def)
next
  case (bad_body rt r s resp t)
  obtain F where "ss_flight s = add_mset (rt, r, Reading) F" using multi_member_split [OF bad_body(1)] by blast
  then show ?case using bad_body(3) by (auto simp: metrics_inv_iff waiting_def observe_histogram)
next
  case (body_read rt r s msg)
  obtain F where "ss_flight s = add_mset (rt, r, Reading) F" using multi_member_split [OF body_read(1)] by blast
  then show ?case using body_read(3) by (auto simp: metrics_inv_iff waiting_def)
next
  case (checked r s x resp m t)
  obtain F where "ss_flight s = add_mset (CheckRoute, r, Calling) F" using multi_member_split [OF checked(1)] by blast
  then show ?case using checked(3) check_answer_counts [OF checked(2)]
    by (auto simp: metrics_inv_iff waiting_def intro!: observe_histogram)
next
  case (reported r s y resp m t)
  obtain F where "ss_flight s = add_mset (ReportRoute, r, Calling) F" using multi_member_split [OF reported(1)] by blast
  then show ?case using reported(3) report_answer_counts [OF reported(2)]
    by (auto simp: metrics_inv_iff waiting_def intro!: observe_histogram)
next
  case (panicked rt r s)
  obtain F where "ss_flight s = add_mset (rt, r, Calling) F" using multi_member_split [OF panicked(1)] by blast
  then show ?case using panicked(2) by (auto simp: metrics_inv_iff waiting_def free_slot_def)
qed

definition serve_inv :: "serveConfig \<Rightarrow> server \<Rightarrow> bool" where
  "serve_inv cfg s \<longleftrightarrow> gate_inv cfg s \<and> metrics_inv s"

interpretation http: invariant_system "\<lambda>s. s = server_init" "serve_step fmt cfg" "serve_inv cfg" for fmt cfg
proof
  show "serve_inv cfg s" if "s = server_init" for s
    using that histogram_new
    by (simp add: serve_inv_def gate_inv_def metrics_inv_def server_init_def waiting_def) (simp add: newMetrics_def)
  show "serve_inv cfg s'" if "serve_step fmt cfg s s'" "serve_inv cfg s" for s s'
    using that serve_step_gate serve_step_metrics by (auto simp: serve_inv_def)
qed

section \<open>Properties\<close>

text \<open>
  C19. The server is guarded at every moment.  However requests come in, are read, answered or make a
  handler panic, there are never more in flight than the limit, which is at least one, and the
  semaphore holds exactly one slot for each: none leaks, so a request is turned away as busy only when
  all slots are really in use.  Every request in flight, and so every report that is sent, has shown the
  secret token when there is one; and if the start-up check passed, there is one unless the server
  listens on no TCP address or on a loopback address only.
\<close>

theorem server_is_guarded:
  assumes "(serve_step fmt cfg)\<^sup>*\<^sup>* server_init s" "safetyCheck cfg"
  shows "size (ss_flight s) \<le> slots cfg \<and> 1 \<le> slots cfg \<and> ss_sem s = size (ss_flight s)
    \<and> (\<forall>(rt, r, st) \<in># ss_flight s. sc_token cfg = [] \<or> presented r = sc_token cfg)
    \<and> (sc_token cfg \<noteq> [] \<or> sc_listen cfg = [] \<or> isLoopbackListen (sc_listen cfg))"
proof -
  have "http.reachable fmt cfg s" unfolding http.reachable_def using assms(1) by blast
  then have "gate_inv cfg s" using http.reachable_inv by (auto simp: serve_inv_def)
  moreover have "1 \<le> slots cfg" unfolding slots_def by (cases "sc_maxConc cfg < 1") auto
  ultimately show ?thesis
    using assms(2) by (auto simp: gate_inv_def admitted_def safetyCheck_def split: if_splits)
qed

definition ex_cfg :: serveConfig where
  "ex_cfg = \<lparr>sc_listen = str '':80'', sc_unix = [], sc_token = str ''s3'', sc_maxConc = 1, sc_logStdout = False, sc_verbose = False\<rparr>"

definition ex_req :: http_req where
  "ex_req = \<lparr>hr_method = str ''POST'', hr_path = str ''/check'', hr_token = [], hr_authorization = str ''Bearer s3'',
     hr_body = \<lparr>rd_data = str ''hello'', rd_err = None\<rparr>\<rparr>"

definition ex_entered :: server where
  "ex_entered = server_init\<lparr>ss_sem := 1, ss_flight := {#(CheckRoute, ex_req, Reading)#}\<rparr>"

lemma ex_presented: "presented ex_req = sc_token ex_cfg"
  by (simp add: presented_def ex_req_def ex_cfg_def str_def)

lemma ex_enter: "enter fmt ex_cfg ex_req server_init = Inr ex_entered"
proof -
  have "auth ex_cfg ex_req = None" by (simp add: auth_def ex_presented)
  moreover have "route_of (hr_path ex_req) = Some CheckRoute" "hr_path ex_req \<noteq> str ''/healthz''" "hr_path ex_req \<noteq> str ''/metrics''"
    by (simp_all add: route_of_def ex_req_def str_def)
  moreover have "slots ex_cfg = 1" by (simp add: slots_def ex_cfg_def)
  ultimately show ?thesis by (simp add: enter_def ex_entered_def server_init_def)
qed

theorem server_is_guarded_witness:
  "safetyCheck ex_cfg \<and> \<not> isLoopbackListen (sc_listen ex_cfg) \<and> ss_sem ex_entered = 1
    \<and> presented ex_req = sc_token ex_cfg"
proof -
  have c: "safetyCheck ex_cfg" by (simp add: safetyCheck_def ex_cfg_def str_def)
  have l: "\<not> isLoopbackListen (sc_listen ex_cfg)" "sc_listen ex_cfg \<noteq> []"
    by (simp_all add: isLoopbackListen_def SplitHostPort_def ex_cfg_def str_def Let_def)
  have "serve_step fmt ex_cfg server_init ex_entered" for fmt by (rule entered [OF ex_enter])
  then have "(serve_step (\<lambda>_. []) ex_cfg)\<^sup>*\<^sup>* server_init ex_entered" by (rule r_into_rtranclp)
  from server_is_guarded [OF this c] c l show ?thesis by (auto simp: ex_entered_def)
qed

text \<open>
  C20. The metrics add up.  In every reachable state the histogram is that of the latencies of the
  requests that have been answered: each bucket counts those up to its bound, and sum and count are
  theirs.  The checks and reports counted are exactly the verdicts and errors counted, plus the
  reports that went through, the requests still waiting for the DCC servers, and the handlers that
  panicked.  The counters are taken modulo \<open>2^64\<close>, as they are kept.
\<close>

theorem metrics_account:
  assumes "(serve_step fmt cfg)\<^sup>*\<^sup>* server_init s"
  shows "mt_bcounts (ss_m s) = map (\<lambda>(b, l). of_nat (length (filter (\<lambda>t. t \<le> b) (ss_lat s)))) buckets
    \<and> mt_count (ss_m s) = of_nat (length (ss_lat s)) \<and> mt_sum (ss_m s) = sum_list (ss_lat s)
    \<and> mt_check (ss_m s) + mt_report (ss_m s)
       = mt_reject (ss_m s) + mt_accept (ss_m s) + mt_unknown (ss_m s) + mt_error (ss_m s)
         + of_nat (ss_reported s + waiting s + ss_panics s)"
proof -
  have "http.reachable fmt cfg s" unfolding http.reachable_def using assms by blast
  then have "metrics_inv s" using http.reachable_inv by (auto simp: serve_inv_def)
  then show ?thesis by (simp add: metrics_inv_def histogram_of_def at_most_def)
qed

text \<open>The request of the example is read, the client fails, and the answer is out after 7 ms.\<close>

definition ex_calling :: server where
  "ex_calling = ex_entered\<lparr>ss_m := inc_check newMetrics, ss_flight := {#(CheckRoute, ex_req, Calling)#}\<rparr>"

definition ex_done :: server where
  "ex_done = leave ex_cfg CheckRoute ex_req Calling
     (writeJSON 502 (CheckJSON \<lparr>cr_action = str ''unknown'', cr_bulk = None, cr_counts = []\<rparr>)) (7 * millisecond)
     (ex_calling\<lparr>ss_m := inc_error (inc_check newMetrics)\<rparr>)"

lemma ex_run: "(serve_step fmt ex_cfg)\<^sup>*\<^sup>* server_init ex_done"
proof -
  have "serve_step fmt ex_cfg server_init ex_entered" by (rule entered [OF ex_enter])
  moreover have "serve_step fmt ex_cfg ex_entered ex_calling"
  proof -
    have "readBody ex_req = Inr (str ''hello'')"
      using readCapped_exact [of "str ''hello''" maxStdin]
      by (simp add: readBody_def ex_req_def maxStdin_def)
    from body_read [OF _ this, of CheckRoute ex_entered] show ?thesis
      by (simp add: ex_calling_def ex_entered_def server_init_def)
  qed
  moreover have "serve_step fmt ex_cfg ex_calling ex_done"
    unfolding ex_done_def
    by (rule checked [where x = "Inl ErrTimeout"])
      (simp_all add: ex_calling_def ex_entered_def server_init_def check_answer_def)
  ultimately show ?thesis by (meson converse_rtranclp_into_rtranclp rtranclp.rtrancl_refl)
qed

theorem metrics_account_witness:
  "mt_bcounts (ss_m ex_done) = [0, 1, 1, 1, 1, 1, 1, 1, 1, 1, 1] \<and> mt_count (ss_m ex_done) = 1
    \<and> mt_check (ss_m ex_done) = 1 \<and> mt_error (ss_m ex_done) = 1"
  using metrics_account [OF ex_run [of "\<lambda>_. []"]]
  by (simp add: buckets_def second_def millisecond_def ex_done_def ex_calling_def ex_entered_def server_init_def
      waiting_def inc_check_def inc_error_def newMetrics_def)

end
