(* ===== verification/Cli.thy ===== *)
theory Cli
  imports Serve Identity_Props
begin

text \<open>
  The command, \<^verbatim>\<open>src/cmd/gdcc/main.go\<close> and \<^verbatim>\<open>register.go\<close>: options from flags and environment, the
  operations and their exit status.  Standard output is a byte string; what goes to
  standard error is kept as the value it reports.  The \<^verbatim>\<open>flag\<close> package is an argument.
\<close>

section \<open>Check\<close>

definition pad12 :: "bytes \<Rightarrow> bytes" where
  "pad12 s = s @ replicate (12 - length s) 0x20"

definition num32 :: "u32 \<Rightarrow> bytes" where
  "num32 w = dec (unat w)"

definition count_line :: "CkCount \<Rightarrow> bytes" where
  "count_line ck = pad12 (cc_Label ck @ [0x3a]) @ str '' cur='' @ num32 (cc_Cur ck)
     @ str '' prev='' @ num32 (cc_Prev ck) @ [0x0a]"

definition verdict_line :: "Verdict \<Rightarrow> bytes" where
  "verdict_line v =
     (case v_Bulk v of
        Some b \<Rightarrow> str ''verdict: '' @ Action_String (v_Action v) @ str '' (bulk='' @ dec_int b @ str '')'' @ [0x0a]
      | None \<Rightarrow> str ''verdict: '' @ Action_String (v_Action v) @ [0x0a])"

datatype message =
    CheckFailed client_err
  | ReportFailed client_err
  | StdinFailed read_err
  | RegisterNoID
  | RegisterNoPassword
  | RegisterFailed write_err
  | Usage
  | UnknownOp bytes

record exit_result =
  o_code :: int
  o_out :: bytes
  o_err :: "message list"

definition check_output :: "u32 \<Rightarrow> client_err + Result \<Rightarrow> exit_result" where
  "check_output threshold r =
     (case r of
        Inl e \<Rightarrow> \<lparr>o_code = 2, o_out = [], o_err = [CheckFailed e]\<rparr>
      | Inr res \<Rightarrow>
          let v = (if threshold = 0 then Verdict_of res else VerdictThreshold res threshold)
          in \<lparr>o_code = (if v_Action v = ActionReject then 0 else 1),
              o_out = concat (map count_line res) @ verdict_line v, o_err = []\<rparr>)"

text \<open>A panic of the checksums ends the process with status 2.\<close>

definition exit_run :: "('a \<Rightarrow> exit_result) \<Rightarrow> 'a run \<Rightarrow> exit_result run" where
  "exit_run f r = (case r of Pending \<Rightarrow> Pending | Panicked \<Rightarrow> Panicked | Returned x \<Rightarrow> Returned (f x))"

definition doCheck :: "fuz2Tbl list \<Rightarrow> Client \<Rightarrow> bytes \<Rightarrow> u32 \<Rightarrow> call_env \<Rightarrow> Client \<times> exit_result run" where
  "doCheck tbls c raw threshold env =
     (let (c, tried, r) = Check tbls c raw env in (c, exit_run (check_output threshold) r))"

definition doReport :: "fuz2Tbl list \<Rightarrow> Client \<Rightarrow> bytes \<Rightarrow> call_env \<Rightarrow> Client \<times> exit_result run" where
  "doReport tbls c raw env =
     (let (c, tried, r) = Report tbls c raw env in
      (c, exit_run (\<lambda>x. case x of
          Inl e \<Rightarrow> \<lparr>o_code = 1, o_out = [], o_err = [ReportFailed e]\<rparr>
        | Inr u \<Rightarrow> \<lparr>o_code = 0, o_out = str ''reported'' @ [0x0a], o_err = []\<rparr>) r))"

definition cksum_line :: "Checksum \<Rightarrow> bytes" where
  "cksum_line ck = pad12 (ck_Label ck @ [0x3a]) @ str '' '' @ Sum_String (ck_Sum ck) @ [0x0a]"

definition doCksum :: "fuz2Tbl list \<Rightarrow> bytes \<Rightarrow> exit_result run" where
  "doCksum tbls raw =
     (case Checksums tbls raw of
        None \<Rightarrow> Panicked
      | Some cks \<Rightarrow> Returned \<lparr>o_code = 0, o_out = concat (map cksum_line cks), o_err = []\<rparr>)"

definition readStdin :: "reader \<Rightarrow> exit_result + bytes" where
  "readStdin stdin =
     (case readCapped stdin maxStdin of
        Inl e \<Rightarrow> Inl \<lparr>o_code = 2, o_out = [], o_err = [StdinFailed e]\<rparr>
      | Inr raw \<Rightarrow> Inr raw)"

section \<open>Register\<close>

definition dccAnonID :: u32 where "dccAnonID = 1"

definition registerPath :: "environ \<Rightarrow> bytes \<Rightarrow> bytes" where
  "registerPath env outp =
     (if outp \<noteq> [] then outp
      else if env ''DCC_IDS'' \<noteq> [] then env ''DCC_IDS''
      else DefaultIDsPath)"

definition register_text :: "u32 \<Rightarrow> bytes \<Rightarrow> bytes \<Rightarrow> bytes" where
  "register_text n passwd path =
     str ''register: saved client-id '' @ num32 n @ str '' to '' @ path @ [0x0a]
     @ str ''register: environment variables for this identity (use instead of the file):'' @ [0x0a]
     @ str ''GDCC_CLIENT_ID='' @ num32 n @ [0x0a]
     @ str ''GDCC_CLIENT_PASSWD='' @ passwd @ [0x0a]"

definition runRegister ::
  "environ \<Rightarrow> os_faults \<Rightarrow> bytes \<Rightarrow> u32 \<Rightarrow> bytes \<Rightarrow> filesys \<Rightarrow> filesys list \<times> exit_result" where
  "runRegister env ft outp clientID passwd s =
     (if clientID \<le> dccAnonID then ([], \<lparr>o_code = 2, o_out = [], o_err = [RegisterNoID]\<rparr>)
      else if passwd = [] then ([], \<lparr>o_code = 2, o_out = [], o_err = [RegisterNoPassword]\<rparr>)
      else let path = registerPath env outp in
        case WriteIdentityFile ft path \<lparr>id_ClientID = clientID, id_Password = passwd\<rparr> s of
          (ss, Some e) \<Rightarrow> (ss, \<lparr>o_code = 1, o_out = [], o_err = [RegisterFailed e]\<rparr>)
        | (ss, None) \<Rightarrow> (ss, \<lparr>o_code = 0, o_out = register_text clientID passwd path, o_err = []\<rparr>))"

section \<open>The command line\<close>

record options =
  op_servers :: bytes
  op_port :: int
  op_timeout :: int
  op_clientID :: u64
  op_passwd :: bytes
  op_out :: bytes
  op_threshold :: u64
  op_verbose :: bool
  op_listen :: bytes
  op_unix :: bytes
  op_token :: bytes
  op_maxConc :: int
  op_logStdout :: bool
  op_version :: bool

definition default_options :: "(bytes \<Rightarrow> int option) \<Rightarrow> nat \<Rightarrow> environ \<Rightarrow> options" where
  "default_options parse ncpu env =
     \<lparr>op_servers = env ''GDCC_SERVERS'', op_port = sint (envUint env ''GDCC_PORT''),
      op_timeout = envDur parse env ''GDCC_TIMEOUT'' (5 * second),
      op_clientID = envUint env ''GDCC_CLIENT_ID'', op_passwd = env ''GDCC_CLIENT_PASSWD'',
      op_out = [], op_threshold = envUint env ''GDCC_THRESHOLD'', op_verbose = envBool env ''GDCC_VERBOSE'',
      op_listen = envStr env ''GDCC_LISTEN'' (str ''127.0.0.1:8080''), op_unix = env ''GDCC_UNIX'',
      op_token = env ''GDCC_TOKEN'', op_maxConc = sint (envUintOr env ''GDCC_MAX_CONCURRENT'' (of_nat ncpu)),
      op_logStdout = envBool env ''GDCC_LOG_STDOUT'', op_version = False\<rparr>"

text \<open>
  What a run of the command meets; \<open>wr_flags\<close> is \<^verbatim>\<open>FlagSet.Parse\<close>: the options after the
  arguments it took, and the arguments left, or the error.
\<close>

record world_run =
  wr_flags :: "options \<Rightarrow> bytes list \<Rightarrow> (options \<times> bytes list) option"
  wr_duration :: "bytes \<Rightarrow> int option"
  wr_ncpu :: nat
  wr_version :: bytes
  wr_env :: environ
  wr_faults :: os_faults
  wr_stdin :: reader
  wr_call :: call_env
  wr_tcp_fails :: bool
  wr_unix_fails :: bool
  wr_serve_end :: serve_end

definition readable :: "filesys \<Rightarrow> bytes \<rightharpoonup> bytes" where
  "readable s p = map_option snd (fs_file s p)"

definition client_of :: "options \<Rightarrow> Identity \<Rightarrow> Client" where
  "client_of opts i = newClient (parseServers (op_servers opts) (op_port opts)) (id_ClientID i) (id_Password i) (op_timeout opts)"

definition serve_config :: "options \<Rightarrow> serveConfig" where
  "serve_config opts = \<lparr>sc_listen = op_listen opts, sc_unix = op_unix opts, sc_token = op_token opts,
     sc_maxConc = op_maxConc opts, sc_logStdout = op_logStdout opts, sc_verbose = op_verbose opts\<rparr>"

text \<open>The operation, with the file states it causes.\<close>

definition run_op ::
  "fuz2Tbl list \<Rightarrow> world_run \<Rightarrow> options \<Rightarrow> bytes \<Rightarrow> filesys \<Rightarrow> filesys list \<times> exit_result run" where
  "run_op tbls w opts op s =
     (let c = client_of opts (ResolveIdentity (wr_env w) (readable s) (ucast (op_clientID opts)) (op_passwd opts)) in
      if op = str ''register''
      then (let (ss, res) = runRegister (wr_env w) (wr_faults w) (op_out opts) (ucast (op_clientID opts)) (op_passwd opts) s
            in (ss, Returned res))
      else if op \<in> {str ''cksum'', str ''check'', str ''report''}
      then ([], case readStdin (wr_stdin w) of
          Inl res \<Rightarrow> Returned res
        | Inr raw \<Rightarrow>
            if op = str ''cksum'' then doCksum tbls raw
            else if op = str ''check'' then snd (doCheck tbls c raw (ucast (op_threshold opts)) (wr_call w))
            else snd (doReport tbls c raw (wr_call w)))
      else if op = str ''serve''
      then ([], Returned \<lparr>o_code = runServe (serve_config opts) (wr_tcp_fails w) (wr_unix_fails w) (wr_serve_end w),
          o_out = [], o_err = []\<rparr>)
      else ([], Returned \<lparr>o_code = 2, o_out = [], o_err = [UnknownOp op]\<rparr>))"

definition run :: "fuz2Tbl list \<Rightarrow> world_run \<Rightarrow> bytes list \<Rightarrow> filesys \<Rightarrow> filesys list \<times> exit_result run" where
  "run tbls w args s =
     (let fails = ([], Returned \<lparr>o_code = 2, o_out = [], o_err = []\<rparr>) in
      case wr_flags w (default_options (wr_duration w) (wr_ncpu w) (wr_env w)) args of
        None \<Rightarrow> fails
      | Some (opts, rest) \<Rightarrow>
          if op_version opts
          then ([], Returned \<lparr>o_code = 0, o_out = str ''gdcc '' @ wr_version w @ [0x0a], o_err = []\<rparr>)
          else (case rest of
              [] \<Rightarrow> ([], Returned \<lparr>o_code = 2, o_out = [], o_err = [Usage]\<rparr>)
            | op # rest' \<Rightarrow>
                (case wr_flags w opts rest' of
                   None \<Rightarrow> fails
                 | Some (opts, rest'') \<Rightarrow> run_op tbls w opts op s)))"

end
