(* ===== verification/Cli_Props.thy ===== *)
theory Cli_Props
  imports Cli Client_Specs
begin

text \<open>
  What the command promises across its parts: when \<^verbatim>\<open>gdcc check\<close> lists a message as bulk, and which
  identity a command uses after \<^verbatim>\<open>gdcc register\<close>.
\<close>

section \<open>Check\<close>

lemma reject_iff:
  "v_Action (VerdictThreshold r t) = ActionReject \<longleftrightarrow>
     dccTgtsOK \<notin> set (body_counts r) \<and> dccTgtsOK2 \<notin> set (body_counts r) \<and> (\<exists>n \<in> set (body_counts r). t \<le> n)"
proof (cases "body_counts r = []")
  case True
  then show ?thesis by (simp add: VerdictThreshold_def Whitelisted_iff BodyCount_eq)
next
  case False
  have "t \<le> Max (set (body_counts r)) \<longleftrightarrow> (\<exists>n \<in> set (body_counts r). t \<le> n)"
    using False by (simp add: Max_ge_iff)
  with False show ?thesis
    by (simp add: VerdictThreshold_def Whitelisted_iff BodyCount_eq fold_max_Max)
qed

definition limit_of :: "u32 \<Rightarrow> u32" where
  "limit_of threshold = (if threshold = 0 then dccTgtsTooMany else threshold)"

text \<open>The current counts of the body checksums, as an answer gives them for a list of checksums.\<close>

definition body_answers :: "Checksum list \<Rightarrow> answerCount list \<Rightarrow> u32 list" where
  "body_answers cks counts = body_counts (map2 paired (reportable cks) counts)"

lemma check_output_code:
  "o_code (check_output t r) = 0 \<longleftrightarrow>
     (\<exists>res. r = Inr res \<and> dccTgtsOK \<notin> set (body_counts res) \<and> dccTgtsOK2 \<notin> set (body_counts res)
        \<and> (\<exists>n \<in> set (body_counts res). limit_of t \<le> n))"
  "o_code (check_output t r) = 2 \<longleftrightarrow> (\<exists>e. r = Inl e)"
  "o_code (check_output t r) \<in> {0, 1, 2}"
  by (auto simp: check_output_def Let_def limit_of_def Verdict_of_def reject_iff split: sum.split if_splits)

text \<open>
  C4. A message is listed as bulk only on the word of an authentic answer.  When \<^verbatim>\<open>gdcc check\<close>
  ends with status 0, one of its sockets received an answer to this very query, signed with the
  password if there is one, in which no body checksum is certified as not spam and some body checksum
  has a current count of at least the threshold, or of \<^verbatim>\<open>many\<close> when none is given.  Otherwise the
  status is 1, or 2 exactly for an error.
\<close>

theorem bulk_needs_authentic_answer:
  assumes "doCheck tbls c raw threshold env = (c', Returned out)"
  shows "o_code out \<in> {0, 1, 2} \<and> (o_code out = 0 \<longrightarrow>
    (\<exists>cks counts. Checksums tbls raw = Some cks
       \<and> (\<exists>w \<in> set (call_worlds env). \<exists>d \<in> heard w. authentic (request_of c' opQuery 0 cks) d counts)
       \<and> dccTgtsOK \<notin> set (body_answers cks counts) \<and> dccTgtsOK2 \<notin> set (body_answers cks counts)
       \<and> (\<exists>n \<in> set (body_answers cks counts). limit_of threshold \<le> n)))"
proof -
  obtain tried r where r: "Check tbls c raw env = (c', tried, Returned r)" "out = check_output threshold r"
    using assms by (auto simp: doCheck_def exit_run_def split: prod.splits run.splits)
  show ?thesis
  proof (intro conjI impI)
    show "o_code out \<in> {0, 1, 2}" using check_output_code(3) r(2) by simp
    assume "o_code out = 0"
    then obtain res where res: "r = Inr res" "dccTgtsOK \<notin> set (body_counts res)" "dccTgtsOK2 \<notin> set (body_counts res)"
        "\<exists>n \<in> set (body_counts res). limit_of threshold \<le> n"
      using check_output_code(1) r(2) by auto
    obtain cks where cks: "Checksums tbls raw = Some cks"
        "send c opQuery 0 cks (background env) = (c', tried, Returned (Inr res))"
      using r(1) res(1) by (auto simp: Check_def CheckContext_def split: option.splits)
    have "call_worlds (background env) = call_worlds env" by (simp add: call_worlds_def background_def)
    with send_authentic [OF cks(2)] res(2-4) cks(1) show
      "\<exists>cks counts. Checksums tbls raw = Some cks
       \<and> (\<exists>w \<in> set (call_worlds env). \<exists>d \<in> heard w. authentic (request_of c' opQuery 0 cks) d counts)
       \<and> dccTgtsOK \<notin> set (body_answers cks counts) \<and> dccTgtsOK2 \<notin> set (body_answers cks counts)
       \<and> (\<exists>n \<in> set (body_answers cks counts). limit_of threshold \<le> n)"
      by (auto simp: body_answers_def buildResult_eq)
  qed
qed

text \<open>
  An example: a body of 31 digits has a Body checksum alone, and the example server of the client
  answers 5 for it.
\<close>

definition ex_mail :: bytes where
  "ex_mail = 0x0a # replicate 31 0x31 @ [0x0a]"

lemma ex_mail_types:
  "map_option (map (\<lambda>c. (ck_Type c, ck_Report c, length (ck_Sum c)))) (Checksums small_tbls ex_mail)
     = Some [(CkMessageID, False, 16), (CkBody, True, 16)]"
  by code_simp

lemma ex_mail_check:
  "\<exists>cks. Checksums small_tbls ex_mail = Some cks \<and> sums_ok cks \<and> reportableCount cks = 1
     \<and> body_answers cks ex_counts = [5]"
proof -
  obtain a b where cks: "Checksums small_tbls ex_mail = Some [a, b]" "\<not> ck_Report a" "ck_Report b"
      "ck_Type b = CkBody" "length (ck_Sum a) = 16" "length (ck_Sum b) = 16"
    using ex_mail_types by (auto simp: map_eq_Cons_conv)
  have "isBodyType CkBody" by (simp add: isBodyType_def CkBody_def CkFuz2_def)
  then show ?thesis using cks
    by (simp add: sums_ok_def reportableCount_eq reportable_def body_answers_def body_counts_def paired_def ex_counts_def)
qed

lemma ex_doCheck:
  "\<exists>c' out. doCheck small_tbls ex_client ex_mail 3 ex_env = (c', Returned out) \<and> o_code out = 0"
proof -
  obtain cks where cks: "Checksums small_tbls ex_mail = Some cks" "sums_ok cks" "reportableCount cks = 1"
      "body_answers cks ex_counts = [5]"
    using ex_mail_check by blast
  have b: "background ex_env = ex_env" by (simp add: background_def ex_env_def)
  have o: "o_code (check_output 3 (Inr (buildResult cks ex_counts))) = 0"
    using cks(4) check_output_code(1) [of 3 "Inr (buildResult cks ex_counts)"]
    by (simp add: body_answers_def buildResult_eq limit_of_def dccTgtsOK_def dccTgtsOK2_def word_le_nat_alt)
  show ?thesis
    using o by (simp add: doCheck_def Check_def CheckContext_def cks(1) b ex_send [OF cks(2,3)] exit_run_def)
qed

theorem bulk_needs_authentic_answer_witness:
  "\<exists>c' cks counts. Checksums small_tbls ex_mail = Some cks
     \<and> (\<exists>w \<in> set (call_worlds ex_env). \<exists>d \<in> heard w. authentic (request_of c' opQuery 0 cks) d counts)
     \<and> (\<exists>n \<in> set (body_answers cks counts). limit_of 3 \<le> n)"
proof -
  obtain c' out where c: "doCheck small_tbls ex_client ex_mail 3 ex_env = (c', Returned out)" "o_code out = 0"
    using ex_doCheck by blast
  from bulk_needs_authentic_answer [OF c(1)] c(2) show ?thesis by blast
qed

section \<open>Register\<close>

lemma registered:
  assumes "runRegister env ft outp (id_ClientID i) (id_Password i) s = (ss, out)" "o_code out = 0"
  shows "WriteIdentityFile ft (registerPath env outp) i s = (ss, None)"
  using assms by (cases i) (auto simp: runRegister_def Let_def split: if_splits prod.splits option.splits)

lemma resolved_file:
  assumes "env ''GDCC_CLIENT_PASSWD'' = []"
    and "files (registerPath env []) = Some d" "ParseIdentityFile d = Some j"
  shows "ResolveIdentity env files 0 [] = j"
  using assms by (simp add: ResolveIdentity_def registerPath_def split: if_splits)

text \<open>
  C22. After \<^verbatim>\<open>gdcc register\<close> has saved a credential in the usual place, a command without an identity of
  its own in flags or environment authenticates with it -- unless the file already held a usable
  identity with another id: that one stays in front, and is the one used.
\<close>

theorem register_authenticates:
  assumes "storable i"
    and "\<And>m d. fs_file s (registerPath env []) = Some (m, d) \<Longrightarrow> short_lines d"
    and "fs_file s (registerPath env []) \<noteq> None
       \<or> (\<forall>r. registerPath env [] \<noteq> temp_name (filepath_Dir (registerPath env [])) r)"
    and "runRegister env ft [] (id_ClientID i) (id_Password i) s = (ss, out)" "o_code out = 0"
    and "env ''GDCC_CLIENT_PASSWD'' = []"
  shows "ResolveIdentity env (readable (last (s # ss))) 0 [] =
    (case fs_file s (registerPath env []) of
       None \<Rightarrow> i
     | Some (m, old) \<Rightarrow>
         (case filter (\<lambda>j. id_ClientID j \<noteq> id_ClientID i) (usable_ids old) of [] \<Rightarrow> i | j # _ \<Rightarrow> j))"
proof -
  let ?p = "registerPath env []"
  have "\<exists>d. fs_file (last (s # ss)) ?p = Some (0x180, d) \<and> ParseIdentityFile d =
      (case fs_file s ?p of
         None \<Rightarrow> Some i
       | Some (m, old) \<Rightarrow>
           (case filter (\<lambda>j. id_ClientID j \<noteq> id_ClientID i) (usable_ids old) of [] \<Rightarrow> Some i | j # _ \<Rightarrow> Some j))"
    by (rule reads_back [OF assms(1) _ assms(3) registered [OF assms(4,5)]]) (rule assms(2))
  then obtain d where d: "fs_file (last (s # ss)) ?p = Some (0x180, d)" "ParseIdentityFile d =
      (case fs_file s ?p of
         None \<Rightarrow> Some i
       | Some (m, old) \<Rightarrow>
           (case filter (\<lambda>j. id_ClientID j \<noteq> id_ClientID i) (usable_ids old) of [] \<Rightarrow> Some i | j # _ \<Rightarrow> Some j))"
    by blast
  have "readable (last (s # ss)) ?p = Some d" using d(1) by (simp add: readable_def)
  with resolved_file [of env "readable (last (s # ss))" d] assms(6) d(2) show ?thesis
    by (auto split: option.splits list.splits)
qed

definition ex_env_ids :: environ where
  "ex_env_ids v = (if v = ''DCC_IDS'' then ex_path else [])"

lemma ex_register_path: "registerPath ex_env_ids [] = ex_path"
  by (simp add: registerPath_def ex_env_ids_def ex_path_def str_def)

lemma ex_register:
  "o_code (snd (runRegister ex_env_ids ex_faults [] (id_ClientID ex_id) (id_Password ex_id) ex_fs)) = 0"
proof -
  have e: "\<lparr>id_ClientID = id_ClientID ex_id, id_Password = id_Password ex_id\<rparr> = ex_id" by simp
  have "\<not> id_ClientID ex_id \<le> dccAnonID" "id_Password ex_id \<noteq> []"
    by (simp_all add: ex_id_def dccAnonID_def str_def word_le_nat_alt)
  then show ?thesis using ex_write(1)
    by (cases "WriteIdentityFile ex_faults ex_path ex_id ex_fs") (simp add: runRegister_def Let_def ex_register_path e)
qed

lemma ex_old_ids: "filter (\<lambda>j. id_ClientID j \<noteq> id_ClientID ex_id) (usable_ids ex_old) = []"
proof -
  have "keep_lines (id_ClientID ex_id) (go_Split ex_old 0x0a) = [str ''# ids'']"
    using ex_kept by (simp add: kept_of_def ex_file)
  moreover have "usable (str ''# ids'') = None"
    by (simp add: usable_def idOfLine_def id_fields_def cut_at_def str_def go_fields_def)
  ultimately have "List.map_filter usable (keep_lines (id_ClientID ex_id) (go_Split ex_old 0x0a)) = []"
    by (simp add: map_filter_simps)
  then show ?thesis by (simp add: keep_lines_usable usable_ids_Split [OF ex_short])
qed

theorem register_authenticates_witness:
  "ResolveIdentity ex_env_ids
     (readable (last (ex_fs # fst (runRegister ex_env_ids ex_faults [] (id_ClientID ex_id) (id_Password ex_id) ex_fs)))) 0 [] = ex_id"
proof -
  let ?r = "runRegister ex_env_ids ex_faults [] (id_ClientID ex_id) (id_Password ex_id) ex_fs"
  have r: "?r = (fst ?r, snd ?r)" by simp
  have pw: "ex_env_ids ''GDCC_CLIENT_PASSWD'' = []" by (simp add: ex_env_ids_def)
  have "ResolveIdentity ex_env_ids (readable (last (ex_fs # fst ?r))) 0 [] =
    (case fs_file ex_fs (registerPath ex_env_ids []) of
       None \<Rightarrow> ex_id
     | Some (m, old) \<Rightarrow>
         (case filter (\<lambda>j. id_ClientID j \<noteq> id_ClientID ex_id) (usable_ids old) of [] \<Rightarrow> ex_id | j # _ \<Rightarrow> j))"
    by (rule register_authenticates [OF ex_id_storable _ _ r ex_register pw])
      (simp_all add: ex_register_path ex_file ex_short)
  then show ?thesis by (simp add: ex_register_path ex_file ex_old_ids)
qed

end
