(* ===== verification/Spec2Isabelle.thy ===== *)
theory Spec2Isabelle
  imports Md5_Vectors Checksum Header_Ck Body_Ck Proto Result Fuz2_Props Puny_Props
    Fuz1_Lines Url_Hosts Fuz1_Feed Mime_Transfer Message_Props Plain_Mail Identity_Props Client_Specs Client_Cache
    Serve Cli_Props
begin

text \<open>
  A verification development for gdcc, a Go port of the client of the Distributed Checksum
  Clearinghouses (DCC).  The program takes a mail message, computes up to seven checksums of it,
  asks public DCC servers how often each has been seen, and calls the message bulk when a count
  reaches a threshold; it can also report a message, print its checksums, save a credential and
  answer the same requests over HTTP.  The library is \<^verbatim>\<open>src/dcc\<close>, the command \<^verbatim>\<open>src/cmd/gdcc\<close>.

  \<^bold>\<open>How the parts interact.\<close>  \<open>Checksums\<close> (message.go) splits the message into header fields and
  body, feeds every field to the MIME header parser, picks the header values, and hands the body
  to \<open>computeBody\<close> (cks.go): directly or through the walk over a multipart body the transfer
  decoder (mime.go) produces pieces of at most 1024 bytes, and each piece goes to the Body
  checksum, to Fuz1 with the URL extractor, and to Fuz2.  The three share the context \<open>cks\<close>: Fuz1
  reads the word count of Fuz2, Fuz2 falls back to the host names Fuz1 saved.  The client
  (client.go) turns the sums into a packet (proto.go), signs it with the identity (identity.go),
  sends it to one server after another or to all at once, waits, retransmits, and accepts an
  answer (proto.go, result.go).  The command (main.go, register.go) and the HTTP server (serve.go,
  metrics.go) call the client.
\<close>

section \<open>The theories\<close>

text \<open>
  Go's own data and libraries, as far as the program uses them:
  \<^item> \<open>Prelude\<close>: bytes, machine integers, checked indexing and slicing (\<open>idx\<close>, \<open>upd\<close>, \<open>slice\<close>,
    \<open>nslice\<close>: \<open>None\<close> is the run-time panic), \<open>fold_opt\<close> for loops that may panic, big-endian
    encodings, and the collections \<open>byte_defs\<close> and \<open>returns\<close>.
  \<^item> \<open>Go_Text\<close>, \<open>Go_Strings\<close>, \<open>Go_Net\<close>: character classes, \<^verbatim>\<open>fmt\<close>, \<^verbatim>\<open>strings\<close>, \<^verbatim>\<open>bufio\<close>, \<^verbatim>\<open>strconv\<close>
    and the address functions of \<^verbatim>\<open>net\<close>; \<open>Md5\<close>, \<open>Md5_Vectors\<close>: \<^verbatim>\<open>crypto/md5\<close> as a streaming hash.
  \<^item> \<open>Transition\<close>: state machines and their invariants.

  The checksums (\<^verbatim>\<open>src/dcc\<close>):
  \<^item> \<open>Checksum\<close> (sum.go), \<open>Header_Ck\<close> (header.go), \<open>Body_Ck\<close> (body.go), \<open>Charset\<close> (cset_tables.go),
    \<open>Cref\<close> and \<open>Cref_Table\<close> (cref.go, cref_lookup.go, cref_table.go), \<open>Cks\<close> (cks.go).
  \<^item> \<open>Url_State\<close>, \<open>Fuz1\<close> (fuz1.go) with \<open>Fuz1_Props\<close> (no panic), \<open>Fuz1_Lines\<close> (what is summed) and
    \<open>Fuz1_Crash\<close> (the input on which it does panic); \<open>Puny\<close>, \<open>Puny_Props\<close> (puny.go).
  \<^item> \<open>Fuz2\<close>, \<open>Fuz2_Props\<close> (fuz2.go, fuz2_tables.go); \<open>Url_Hosts\<close>: the host names that Fuz1 saves, with the
    Punycode encoder on the one side and Fuz2 on the other.
  \<^item> \<open>Mime_Hdr\<close>, \<open>Mime_Hdr_Props\<close>, \<open>Mime_Decode\<close>, \<open>Mime_Decode_Props\<close>, \<open>Mime_Transfer\<close> (mime.go).
  \<^item> \<open>Multipart\<close>, \<open>Multipart_Props\<close>, \<open>Multipart_Specs\<close> (mime_multipart.go, and \<open>computeBody\<close>).
  \<^item> \<open>Message\<close>, \<open>Message_Props\<close>, \<open>Plain_Mail\<close> (message.go, and the whole chain); \<open>Fuz1_Feed\<close>: the calls
    of Fuz1 that a whole message makes.

  The client and the command:
  \<^item> \<open>Proto\<close> (proto.go), \<open>Result\<close> (result.go), \<open>Identity\<close>, \<open>Identity_Props\<close> (identity.go),
    \<open>Client\<close>, \<open>Client_Props\<close>, \<open>Client_Specs\<close>, \<open>Client_Cache\<close> (client.go).
  \<^item> \<open>Config\<close>, \<open>Cli\<close>, \<open>Cli_Props\<close> (main.go, register.go), \<open>Metrics\<close>, \<open>Serve\<close> (metrics.go, serve.go).
\<close>

section \<open>How code is modelled\<close>

text \<open>
  A Go struct is a record with the fields of the struct, an \<^verbatim>\<open>iota\<close> enumeration a datatype, a method
  a function from the state to the new state.  Names are those of the source, with a suffix where
  Isabelle has the name already.  Machine integers keep their width wherever they can wrap or are
  taken apart bit by bit (sums, packets, hashes, Punycode, base64); positions in buffers are \<open>nat\<close>,
  or \<open>int\<close> where the code uses -1.  Every array access and every slice is checked.

  A scanner that the code runs as a loop over a chunk is a function of one byte and the state; it
  also says whether the byte was consumed, since a character reference, a tag or a URL may end
  before it.  Loops are structural or \<^theory_text>\<open>function\<close>s with a measure: the number of bytes left, then the
  work an unconsumed byte may cause (\<open>fuz2_debt\<close>, \<open>hdr_less\<close>).  No fuel is used there.  The walk over
  a multipart body (\<open>mp_walk\<close>) is a \<^theory_text>\<open>partial_function\<close>, for it ends only because the counter
  \<^verbatim>\<open>mimeBndMatches\<close> is right; that it ends is a theorem.  The parser of IPv6 addresses counts the
  eight fields an address can have.

  What comes from outside is an argument.  The network, the clock, the context and the order in which
  goroutines end are observations: for each of the four transmissions (\<open>maxXmits\<close>) the datagrams and
  time-outs that reach it, in order.  A script of observations that is too short gives \<open>Pending\<close>, a
  panic \<open>Panicked\<close>, and all else \<open>Returned\<close> a value or an error, so a claim that a call returns says
  which observations it needs.  A file operation takes the failures of that run (\<open>os_faults\<close>) and
  yields the file states it goes through.  DNS, \<^verbatim>\<open>time.ParseDuration\<close>, the parsing of flags
  (\<^verbatim>\<open>flag.FlagSet.Parse\<close>) and the printing of floats are function arguments.  The four embedded
  dictionaries of Fuz2 are binary files: they are the argument \<open>tbls\<close>, and \<open>tbls_ok\<close> says that there
  are four, each with at least one and fewer than 2^32 buckets, in which lengths and words follow
  each other; the four files have this form, with 9001 buckets each and 2003 in the Polish one.

  Goroutines that share state are step relations: the address cache (\<open>cache_step\<close>) and the server with
  its semaphore and counters (\<open>serve_step\<close>), each step being what the code does under one lock or
  between two operations others can see.
\<close>

section \<open>Interfaces\<close>

text \<open>
  \<^item> \<open>stream_hash\<close> (\<open>Md5\<close>): new, write and sum of a hash agree with the digest of all that was written.
    The interpretation \<open>md5h\<close> gives it to the Body, Fuz1 and Fuz2 checksums.
  \<^item> \<open>line_sink\<close> (\<open>Mime_Decode_Props\<close>): what the decoders and the multipart walk rely on in a Fuz1
    operation: it keeps an invariant and returns on the bytes it may be given.  All of the body
    pipeline is proved safe inside it.  \<open>plain_sink\<close> is the code's Fuz1 on text without \<^verbatim>\<open>&\<close>.
    \<open>idle_sink\<close> is an operation that does nothing: with it the pipeline returns on every message, and
    \<open>Fuz1_Feed\<close> shows that a run gives any other operation, the code's own on all text included, the same
    pieces in the same order; so nothing outside Fuz1 can panic or run on.
  \<^item> \<open>invariant_system\<close> (\<open>Transition\<close>): an invariant that holds at the start and is kept by every step
    holds in every reachable state; \<open>cache\<close> and \<open>http\<close> are the two state machines above.
\<close>

section \<open>What is proved\<close>

text \<open>
  \<^bold>\<open>The checksums of a message.\<close>  \<open>Checksums\<close> panics exactly when the code's Fuz1 panics on the finite list
  of pieces the message gives it, whatever operation stands there (\<open>checksums_panic_in_fuz1\<close>); Fuz1 returns on
  all text without \<^verbatim>\<open>&\<close>, so \<open>Checksums\<close> on all mail without \<^verbatim>\<open>&\<close> and Content-T fields, and one concrete
  message makes it panic.  The list is well formed.  On plain mail the result is given in closed form,
  from the raw message to the seven sums (\<open>plain_mail_checksums\<close>).

  \<^bold>\<open>The body.\<close>  A multipart body is walked to its end, whatever stands for Fuz1; the incremental matcher finds a boundary on exactly
  the lines that are one; header fields cannot overflow boundaries or nesting.  Quoted-printable and base64
  reach the checksummers as the text they encode, whatever the buffer.  The Body checksum is the MD5 of a
  pure transformation; Fuz1 refines a line machine on lists, and Fuz2 hashes the dictionary words of each
  language, chooses the first with most of them, and falls back to the host names Fuz1 has saved; none
  depends on how text is cut, where the code promises it.

  \<^bold>\<open>The header and the tables.\<close>  The split loses nothing and inverts the layout; which fields and which
  sender are taken; header sums do not see case and white space; the look-up of character references finds
  exactly the table; which labels Punycode encodes, and that after any text no UTF-8 host name is one of them.

  \<^bold>\<open>The client.\<close>  The layout of a packet; parsing inverts the server's encoding and never panics; counts come
  only from an authentic answer to this transaction; at most four packets per server, each signed anew; an
  answer that arrives in time is taken; a race succeeds exactly when a server answered; a report is answered
  by one server at most; addresses handed out are fresh under any interleaving.

  \<^bold>\<open>The command.\<close>  The exit status of a check is 0 only on the word of an authentic answer; the ids file is
  replaced atomically, and which credential is used after a registration.  In every reachable state of the
  server the requests in flight hold a slot and have shown the token if there is one, and the metrics account for them.

  What the proofs showed to differ from the intention of the code is stated as theorems too: the panic of
  Fuz1 (\<open>checksums_crash\<close>), base64 after padding (\<open>base64_padding_misaligns\<close>), a last boundary line without
  a line end (\<open>unterminated_boundary_dropped\<close>), an unsigned error that ends the wait
  (\<open>unsigned_error_ends_wait\<close>), passwords with white space (\<open>password_with_space_lost\<close>) and a registration
  behind an older entry (\<open>register_shadowed\<close>).
\<close>

section \<open>What is not modelled\<close>

text \<open>
  Log lines, except those of an HTTP access; the framing of HTTP and the text of JSON, where a response is
  its status and the value encoded; listening and shutting down; the tests and the fuzz harness.  Latencies
  are whole nanoseconds and their sum is exact, where the code adds floats.  The order in which a Go map is
  walked plays no part.  Memory aliasing is modelled where the code depends on it: a folded header field is
  extended inside the message, so \<open>splitHeadersBody\<close> works on positions.  MD5 is modelled in full and no
  assumption on collisions is made: a claim that an answer is authentic says that its signature verifies.
\<close>

end
